(* ===== verification/Rust_Prelude.thy ===== *)
theory Rust_Prelude
  imports Main "HOL-Library.Word" "HOL-Library.Monad_Syntax" "HOL-Library.Sublist" "HOL-Library.AList"
begin

unbundle bit_operations_syntax

text \<open>
  Shared vocabulary of the development: Rust's unsigned integers as words, byte vectors,
  the panicking operations on slices, and the big- and little-endian conversions
  (\<open>to_be_bytes\<close>, \<open>from_be_bytes\<close> and so on) with their round trips.

  A Rust computation that may panic is a HOL \<^typ>\<open>'a option\<close> named \<open>'a panics\<close>:
  \<^term>\<open>None\<close> is the panic, \<^term>\<open>Some x\<close> a normal return of \<open>x\<close>. Rust's own
  \<open>Option\<close> and \<open>Result\<close> values sit inside it. Indexing and slicing are written with
  the checked operations below, so that an out-of-range access is a value of the model
  and its absence a theorem.
\<close>

named_theorems rust_simps \<open>in-range equations of the panicking operations\<close>

named_theorems byte_simps \<open>byte-order conversions at the widths the code uses\<close>

text \<open>
  Bounds on lengths are discharged by linear arithmetic, so they are kept in that form:
  \<open>0 < length xs\<close> is not turned into \<open>xs \<noteq> []\<close>, nor \<open>i + 2\<close> into successors.
\<close>

declare length_greater_0_conv [simp del] add_2_eq_Suc [simp del] add_2_eq_Suc' [simp del]

subsection \<open>Types\<close>

type_synonym u8 = "8 word"
type_synonym u16 = "16 word"
type_synonym u32 = "32 word"
type_synonym u64 = "64 word"

type_synonym bytes = "u8 list"

type_synonym 'a panics = "'a option"

text \<open>\<open>core::net::Ipv4Addr\<close> and \<open>Ipv6Addr\<close>: the address as one big-endian number.\<close>

type_synonym ipv4addr = "32 word"
type_synonym ipv6addr = "128 word"

text \<open>\<open>core::net::SocketAddr\<close>; a V6 address also carries flow information and a scope.\<close>

datatype socket_addr =
    V4 ipv4addr u16
  | V6 ipv6addr u16 u32 u32

primrec port_of :: "socket_addr \<Rightarrow> u16" where
  "port_of (V4 ip p) = p"
| "port_of (V6 ip p fl sc) = p"

subsection \<open>Panicking slice operations\<close>

definition idx :: "'a list \<Rightarrow> nat \<Rightarrow> 'a panics" where
  "idx xs i = (if i < length xs then Some (xs ! i) else None)"

definition sub :: "'a list \<Rightarrow> nat \<Rightarrow> nat \<Rightarrow> 'a list" where
  "sub xs i j = take (j - i) (drop i xs)"

definition subslice :: "'a list \<Rightarrow> nat \<Rightarrow> nat \<Rightarrow> 'a list panics" where
  "subslice xs i j = (if i \<le> j \<and> j \<le> length xs then Some (sub xs i j) else None)"

definition put :: "'a list \<Rightarrow> nat \<Rightarrow> 'a list \<Rightarrow> 'a list" where
  "put xs i src =
     (if i + length src \<le> length xs then take i xs @ src @ drop (i + length src) xs else xs)"

text \<open>\<open>xs[i..j].copy_from_slice(src)\<close> panics on a bad range and on a length mismatch.\<close>

definition copy_from :: "'a list \<Rightarrow> nat \<Rightarrow> nat \<Rightarrow> 'a list \<Rightarrow> 'a list panics" where
  "copy_from xs i j src =
     (if i \<le> j \<and> j \<le> length xs \<and> length src = j - i then Some (put xs i src) else None)"

definition store :: "'a list \<Rightarrow> nat \<Rightarrow> 'a \<Rightarrow> 'a list panics" where
  "store xs i v = (if i < length xs then Some (xs[i := v]) else None)"

lemma idx_in [rust_simps]: "i < length xs \<Longrightarrow> idx xs i = Some (xs ! i)"
  by (simp add: idx_def)

lemma subslice_in [rust_simps]: "i \<le> j \<Longrightarrow> j \<le> length xs \<Longrightarrow> subslice xs i j = Some (sub xs i j)"
  by (simp add: subslice_def)

lemma copy_from_in [rust_simps]:
  "i \<le> j \<Longrightarrow> j \<le> length xs \<Longrightarrow> length src = j - i \<Longrightarrow> copy_from xs i j src = Some (put xs i src)"
  by (simp add: copy_from_def)

lemma store_in [rust_simps]: "i < length xs \<Longrightarrow> store xs i v = Some (xs[i := v])"
  by (simp add: store_def)

lemma bind_option_Some [rust_simps]: "Option.bind (Some x) f = f x"
  by simp

lemma length_sub [simp]: "length (sub xs i j) = min (j - i) (length xs - i)"
  by (simp add: sub_def)

lemma sub_all [simp]: "sub xs 0 (length xs) = xs"
  by (simp add: sub_def)

lemma sub_whole [simp]: "length xs \<le> j \<Longrightarrow> sub xs 0 j = xs"
  by (simp add: sub_def)

lemma nth_sub [simp]: "i + k < j \<Longrightarrow> j \<le> length xs \<Longrightarrow> sub xs i j ! k = xs ! (i + k)"
  by (simp add: sub_def)

lemma sub_append1 [simp]: "j \<le> length xs \<Longrightarrow> sub (xs @ ys) i j = sub xs i j"
  by (cases "i \<le> j") (simp_all add: sub_def)

lemma sub_append2 [simp]:
  "length xs \<le> i \<Longrightarrow> sub (xs @ ys) i j = sub ys (i - length xs) (j - length xs)"
  by (simp add: sub_def)

lemma sub_Suc [simp]: "sub (x # xs) (Suc i) (Suc j) = sub xs i j"
  by (simp add: sub_def)

lemma sub_Cons0 [simp]: "sub (x # xs) 0 (Suc j) = x # sub xs 0 j"
  by (simp add: sub_def)

lemma sub_Cons_pos: "0 < i \<Longrightarrow> sub (x # xs) i j = sub xs (i - 1) (j - 1)"
  by (cases i) (simp_all add: sub_def)

lemma sub_Cons_numeral [simp]:
  "sub (x # xs) (numeral i) (numeral j) = sub xs (numeral i - 1) (numeral j - 1)"
  "sub (x # xs) 0 (numeral j) = x # sub xs 0 (numeral j - 1)"
  "sub (x # xs) (Suc k) (numeral j) = sub xs k (numeral j - 1)"
  "sub (x # xs) (numeral i) (Suc k) = sub xs (numeral i - 1) k"
  by (simp_all add: sub_Cons_pos) (simp add: sub_def numeral_eq_Suc)

lemma sub_same [simp]: "sub xs i i = []"
  by (simp add: sub_def)

lemma length_put [simp]: "length (put xs i src) = length xs"
  by (simp add: put_def)

lemma nth_put:
  "i + length src \<le> length xs \<Longrightarrow> k < length xs \<Longrightarrow>
   put xs i src ! k = (if k < i then xs ! k else if k < i + length src then src ! (k - i) else xs ! k)"
  by (auto simp: put_def nth_append)

lemma put_all [simp]: "length src = length xs \<Longrightarrow> put xs 0 src = src"
  by (simp add: put_def)

lemma replicate_small [simp]: "replicate 2 x = [x, x]" "replicate 4 x = [x, x, x, x]"
  by (simp_all add: numeral_eq_Suc)

lemma put_append1: "i + length src \<le> length xs \<Longrightarrow> put (xs @ ys) i src = put xs i src @ ys"
  by (simp add: put_def)

lemma put_append2: "length xs \<le> i \<Longrightarrow> put (xs @ ys) i src = xs @ put ys (i - length xs) src"
  by (auto simp: put_def)

lemma sub_put_same [simp]: "i + length src \<le> length xs \<Longrightarrow> j = i + length src \<Longrightarrow> sub (put xs i src) i j = src"
  by (simp add: sub_def put_def)

lemma sub_put_before [simp]:
  "j \<le> i \<Longrightarrow> i + length src \<le> length xs \<Longrightarrow> sub (put xs i src) k j = sub xs k j"
  by (rule nth_equalityI) (auto simp: nth_put)

lemma sub_put_after [simp]:
  "i + length src \<le> k \<Longrightarrow> sub (put xs i src) k j = sub xs k j"
  by (simp add: sub_def put_def drop_append drop_drop)

lemma nth_put_other [simp]:
  "k < i \<or> i + length src \<le> k \<Longrightarrow> k < length xs \<Longrightarrow> put xs i src ! k = xs ! k"
  by (auto simp: put_def nth_append)

lemma nth_put_in [simp]:
  "i \<le> k \<Longrightarrow> k < i + length src \<Longrightarrow> i + length src \<le> length xs \<Longrightarrow> put xs i src ! k = src ! (k - i)"
  by (auto simp: nth_put)

lemma sub_put_inside:
  assumes "a \<le> i" and "i + length src \<le> b" and "b \<le> length xs"
  shows "sub (put xs i src) a b = put (sub xs a b) (i - a) src"
  using assms by (intro nth_equalityI) (auto simp: nth_put add.commute)

lemma list_update_put: "i < length xs \<Longrightarrow> xs[i := v] = put xs i [v]"
  by (rule nth_equalityI) (auto simp: nth_put nth_list_update)

lemma sub_sub [simp]: "a + l \<le> b \<Longrightarrow> sub (sub xs a b) j l = sub xs (a + j) (a + l)"
  by (auto simp: sub_def drop_take min_def add.commute)

lemma sub_append_split:
  assumes "i \<le> j" and "j \<le> k"
  shows "sub xs i k = sub xs i j @ sub xs j k"
proof -
  have "take (j - i + (k - j)) (drop i xs) = take (j - i) (drop i xs) @ take (k - j) (drop (j - i) (drop i xs))"
    by (rule take_add)
  with assms show ?thesis by (simp add: sub_def)
qed

lemma sub_2_eq: "i + 2 \<le> length xs \<Longrightarrow> j = i + 2 \<Longrightarrow> sub xs i j = [xs ! i, xs ! (i + 1)]"
  by (rule nth_equalityI) (auto simp: less_Suc_eq numeral_2_eq_2)

lemma sub_4_eq:
  "i + 4 \<le> length xs \<Longrightarrow> j = i + 4 \<Longrightarrow> sub xs i j = [xs ! i, xs ! (i + 1), xs ! (i + 2), xs ! (i + 3)]"
  by (rule nth_equalityI) (auto simp: less_Suc_eq numeral_eq_Suc)

subsection \<open>Iterators\<close>

text \<open>
  \<open>slice::chunks(n)\<close>: consecutive pieces of \<open>n\<close> elements, the last one possibly shorter
  (\<open>n = 0\<close> panics in Rust; every caller passes a positive constant).
\<close>

function chunks :: "nat \<Rightarrow> 'a list \<Rightarrow> 'a list list" where
  "chunks n xs = (if xs = [] \<or> n = 0 then [] else take n xs # chunks n (drop n xs))"
  by pat_completeness auto
termination
  by (relation "measure (\<lambda>(n, xs). length xs)") (auto simp: length_greater_0_conv)

declare chunks.simps [simp del]

text \<open>\<open>Iterator::filter_map\<close> with a closure that may panic.\<close>

primrec filter_map_p :: "('a \<Rightarrow> 'b option panics) \<Rightarrow> 'a list \<Rightarrow> 'b list panics" where
  "filter_map_p f [] = Some []"
| "filter_map_p f (x # xs) = do {
     r \<leftarrow> f x;
     rs \<leftarrow> filter_map_p f xs;
     Some (case r of Some y \<Rightarrow> y # rs | None \<Rightarrow> rs)
   }"

lemma find_SomeD: "List.find P xs = Some x \<Longrightarrow> x \<in> set xs \<and> P x"
  by (auto simp: find_Some_iff in_set_conv_nth)

lemma filter_map_p_total: "(\<And>x. f x = Some (g x)) \<Longrightarrow> filter_map_p f xs = Some (List.map_filter g xs)"
  by (induction xs) (simp_all add: map_filter_simps split: option.splits)

lemma chunks_append: "length x = n \<Longrightarrow> 0 < n \<Longrightarrow> chunks n (x @ ys) = x # chunks n ys"
  by (subst chunks.simps) auto

lemma chunks_size: "d \<in> set (chunks n xs) \<Longrightarrow> d \<noteq> [] \<and> length d \<le> n"
proof (induction n xs rule: chunks.induct)
  case (1 n xs)
  show ?case
  proof (cases "xs = [] \<or> n = 0")
    case True
    then show ?thesis using 1(2) by (simp add: chunks.simps)
  next
    case False
    then have "chunks n xs = take n xs # chunks n (drop n xs)" by (simp add: chunks.simps [of n xs])
    with 1 False show ?thesis by auto
  qed
qed

lemma concat_chunks: "0 < n \<Longrightarrow> concat (chunks n xs) = xs"
proof (induction n xs rule: chunks.induct)
  case (1 n xs)
  show ?case
  proof (cases "xs = []")
    case True
    then show ?thesis by (simp add: chunks.simps)
  next
    case False
    then have "chunks n xs = take n xs # chunks n (drop n xs)" using 1(2) by (simp add: chunks.simps [of n xs])
    with 1 False show ?thesis by simp
  qed
qed

lemma chunks_eq_Nil_iff: "0 < n \<Longrightarrow> chunks n xs = [] \<longleftrightarrow> xs = []"
  by (subst chunks.simps) simp

lemma chunks_Nil [simp]: "chunks n [] = []"
  by (simp add: chunks.simps)

text \<open>
  The contract of a fixed-width wire format: \<open>enc\<close> writes \<open>n\<close> bytes, and reading them back
  gives \<open>canon x\<close>, the value the receiver makes of \<open>x\<close> (nothing, when it skips it). A client
  that reads a list in chunks then recovers the canonical values of the list written.
\<close>

locale chunk_codec =
  fixes enc :: "'a \<Rightarrow> 'c list"
    and dec :: "'c list \<Rightarrow> 'b option"
    and canon :: "'a \<Rightarrow> 'b option"
    and n :: nat
  assumes enc_length: "length (enc x) = n"
    and n_pos: "0 < n"
    and dec_enc: "dec (enc x) = canon x"
begin

lemma chunks_concat: "chunks n (concat (map enc xs)) = map enc xs"
  by (induction xs) (simp_all add: chunks_append enc_length n_pos)

lemma list_roundtrip: "List.map_filter dec (chunks n (concat (map enc xs))) = List.map_filter canon xs"
  unfolding chunks_concat by (induction xs) (simp_all add: map_filter_simps dec_enc split: option.split)

end

subsection \<open>Byte order\<close>

text \<open>\<open>to_le_bytes\<close>, \<open>to_be_bytes\<close>, \<open>from_le_bytes\<close>, \<open>from_be_bytes\<close> at every width.\<close>

definition to_le_bytes :: "'a::len word \<Rightarrow> bytes" where
  "to_le_bytes w = map (\<lambda>i. ucast (drop_bit (8 * i) w)) [0..<LENGTH('a) div 8]"

primrec from_le_bytes :: "bytes \<Rightarrow> 'a::len word" where
  "from_le_bytes [] = 0"
| "from_le_bytes (b # bs) = ucast b OR push_bit 8 (from_le_bytes bs)"

definition to_be_bytes :: "'a::len word \<Rightarrow> bytes" where
  "to_be_bytes w = rev (to_le_bytes w)"

definition from_be_bytes :: "bytes \<Rightarrow> 'a::len word" where
  "from_be_bytes bs = from_le_bytes (rev bs)"

lemma length_to_le_bytes [simp]: "length (to_le_bytes (w :: 'a::len word)) = LENGTH('a) div 8"
  by (simp add: to_le_bytes_def)

lemma length_to_be_bytes [simp]: "length (to_be_bytes (w :: 'a::len word)) = LENGTH('a) div 8"
  by (simp add: to_be_bytes_def)

lemma bit_from_le_bytes:
  "bit (from_le_bytes bs :: 'a::len word) n \<longleftrightarrow>
     n < LENGTH('a) \<and> n div 8 < length bs \<and> bit (bs ! (n div 8)) (n mod 8)"
proof (induction bs arbitrary: n)
  case Nil
  then show ?case by simp
next
  case (Cons b bs)
  show ?case
  proof (cases "n < 8")
    case True
    then show ?thesis
      by (auto simp: bit_or_iff bit_ucast_iff bit_push_bit_iff)
  next
    case False
    then have "\<not> bit b n" by (auto dest: bit_imp_le_length)
    moreover from False have "n div 8 = Suc ((n - 8) div 8)" "n mod 8 = (n - 8) mod 8"
      by (simp_all add: le_div_geq le_mod_geq)
    ultimately show ?thesis using False Cons.IH [of "n - 8"]
      by (auto simp: bit_or_iff bit_ucast_iff bit_push_bit_iff)
  qed
qed

declare from_le_bytes.simps [simp del]

lemma bit_to_le_bytes:
  "k < LENGTH('a) div 8 \<Longrightarrow>
   bit (to_le_bytes (w :: 'a::len word) ! k) m \<longleftrightarrow> m < 8 \<and> bit w (8 * k + m)"
  by (auto simp: to_le_bytes_def bit_ucast_iff bit_drop_bit_eq)

lemma from_to_le_bytes:
  assumes "8 dvd LENGTH('a)"
  shows "from_le_bytes (to_le_bytes (w :: 'a::len word)) = w"
proof (rule bit_word_eqI)
  fix n assume n: "n < LENGTH('a)"
  with assms have "n div 8 < LENGTH('a) div 8" by (auto elim!: dvdE)
  with n show "bit (from_le_bytes (to_le_bytes w) :: 'a word) n = bit w n"
    by (simp add: bit_from_le_bytes bit_to_le_bytes)
qed

lemma to_from_le_bytes:
  assumes "8 * length bs = LENGTH('a)"
  shows "to_le_bytes (from_le_bytes bs :: 'a::len word) = bs"
proof (rule nth_equalityI)
  from assms show "length (to_le_bytes (from_le_bytes bs :: 'a word)) = length bs" by simp
  fix k assume "k < length (to_le_bytes (from_le_bytes bs :: 'a word))"
  with assms have k: "k < length bs" "k < LENGTH('a) div 8" by simp_all
  show "to_le_bytes (from_le_bytes bs :: 'a word) ! k = bs ! k"
  proof (rule bit_word_eqI)
    fix m assume "m < LENGTH(8)"
    then have m: "m < 8" by simp
    then have "8 * k + m < 8 * length bs" using k by simp
    with assms m k show "bit (to_le_bytes (from_le_bytes bs :: 'a word) ! k) m = bit (bs ! k) m"
      by (simp add: bit_to_le_bytes bit_from_le_bytes)
  qed
qed

lemma from_to_be_bytes: "8 dvd LENGTH('a) \<Longrightarrow> from_be_bytes (to_be_bytes (w :: 'a::len word)) = w"
  by (simp add: from_be_bytes_def to_be_bytes_def from_to_le_bytes)

lemma to_from_be_bytes: "8 * length bs = LENGTH('a) \<Longrightarrow> to_be_bytes (from_be_bytes bs :: 'a::len word) = bs"
  by (simp add: from_be_bytes_def to_be_bytes_def to_from_le_bytes)

lemma bytes_roundtrip [simp]:
  shows "from_be_bytes (to_be_bytes (w16 :: u16)) = w16"
    and "from_be_bytes (to_be_bytes (w32 :: u32)) = w32"
    and "from_be_bytes (to_be_bytes (w64 :: u64)) = w64"
    and "from_be_bytes (to_be_bytes (w128 :: ipv6addr)) = w128"
    and "from_le_bytes (to_le_bytes (w32 :: u32)) = w32"
    and "from_le_bytes (to_le_bytes (w64 :: u64)) = w64"
  by (simp_all add: from_to_be_bytes from_to_le_bytes)

lemma to_be_bytes_inject [simp]:
  "8 dvd LENGTH('a) \<Longrightarrow> to_be_bytes (v :: 'a::len word) = to_be_bytes w \<longleftrightarrow> v = w"
  by (metis from_to_be_bytes)

lemma to_le_bytes_inject [simp]:
  "8 dvd LENGTH('a) \<Longrightarrow> to_le_bytes (v :: 'a::len word) = to_le_bytes w \<longleftrightarrow> v = w"
  by (metis from_to_le_bytes)

lemma to_be_bytes_16 [byte_simps]: "to_be_bytes (w :: u16) = [ucast (drop_bit 8 w), ucast w]"
  by (simp add: to_be_bytes_def to_le_bytes_def upt_rec)

lemma to_be_bytes_32 [byte_simps]:
  "to_be_bytes (w :: u32) =
     [ucast (drop_bit 24 w), ucast (drop_bit 16 w), ucast (drop_bit 8 w), ucast w]"
  by (simp add: to_be_bytes_def to_le_bytes_def upt_rec)

lemma to_le_bytes_32 [byte_simps]:
  "to_le_bytes (w :: u32) =
     [ucast w, ucast (drop_bit 8 w), ucast (drop_bit 16 w), ucast (drop_bit 24 w)]"
  by (simp add: to_le_bytes_def upt_rec)

lemma from_be_16 [byte_simps]: "from_be_bytes [a, b] = (push_bit 8 (ucast a) OR ucast b :: u16)"
  by (simp add: from_be_bytes_def from_le_bytes.simps or.commute)

lemma unat_u8_less [simp]: "unat (b :: u8) < 256"
  using unsigned_less [of b, where ?'a = nat] by simp

lemma unat_u16_less [simp]: "unat (b :: u16) < 65536"
  using unsigned_less [of b, where ?'a = nat] by simp

lemma unat_u32_less [simp]: "unat (b :: u32) < 4294967296"
  using unsigned_less [of b, where ?'a = nat] by simp

lemma unat_ucast_up:
  "LENGTH('a) \<le> LENGTH('b) \<Longrightarrow> unat (ucast (a :: 'a::len word) :: 'b::len word) = unat a"
  by (simp add: unsigned_ucast_eq take_bit_nat_eq_self_iff order_less_le_trans [OF unsigned_less])

lemma unat_ucast_widths [simp]:
  shows "unat (ucast (b :: u8) :: u16) = unat b"
    and "unat (ucast (b :: u8) :: u32) = unat b"
    and "unat (ucast (h :: u16) :: u32) = unat h"
  by (simp_all add: unat_ucast_up)

lemma unat_from_be_16: "unat (from_be_bytes [a, b] :: u16) = 256 * unat a + unat b"
proof -
  have "(push_bit 8 (ucast a) OR ucast b :: u16) = push_bit 8 (ucast a) + ucast b"
    by (rule disjunctive_add_eq_or [symmetric])
      (auto simp: bit_eq_iff bit_and_iff bit_push_bit_iff bit_ucast_iff dest: bit_imp_le_length)
  then have "unat (from_be_bytes [a, b] :: u16) = (unat a * 256 mod 65536 + unat b) mod 65536"
    by (simp add: from_be_16 unat_word_ariths push_bit_eq_mult mult.commute)
  moreover have "unat a * 256 + unat b < 65536"
    using unat_u8_less [of a] unat_u8_less [of b] by linarith
  ultimately show ?thesis by simp
qed

text \<open>The value of a byte string, and the order of equally long strings.\<close>

primrec be_value :: "bytes \<Rightarrow> nat" where
  "be_value [] = 0"
| "be_value (b # bs) = unat b * 256 ^ length bs + be_value bs"

lemma be_value_less: "be_value bs < 256 ^ length bs"
proof (induction bs)
  case (Cons b bs)
  have "unat b * 256 ^ length bs + be_value bs < (unat b + 1) * 256 ^ length bs"
    using Cons.IH by simp
  also have "\<dots> \<le> 256 * 256 ^ length bs"
    using unat_u8_less [of b] by (intro mult_right_mono) (linarith, simp)
  finally show ?case by simp
qed simp

lemma be_value_append: "be_value (xs @ ys) = be_value xs * 256 ^ length ys + be_value ys"
  by (induction xs) (simp_all add: power_add algebra_simps)

lemma unat_from_le_bytes:
  "8 * length bs \<le> LENGTH('a) \<Longrightarrow> unat (from_le_bytes bs :: 'a::len word) = be_value (rev bs)"
proof (induction bs)
  case Nil
  then show ?case by (simp add: from_le_bytes.simps)
next
  case (Cons b bs)
  let ?r = "from_le_bytes bs :: 'a word"
  have IH: "unat ?r = be_value (rev bs)" using Cons by simp
  have len: "8 \<le> LENGTH('a)" "8 * length bs + 8 \<le> LENGTH('a)" using Cons.prems by simp_all
  have disj: "ucast b AND push_bit 8 ?r = 0"
    by (rule bit_word_eqI) (auto simp: bit_and_iff bit_push_bit_iff bit_ucast_iff dest: bit_imp_le_length)
  have "be_value (rev bs) < 256 ^ length bs" using be_value_less [of "rev bs"] by simp
  then have "unat b + be_value (rev bs) * 256 < 256 ^ length (b # bs)"
    using unat_u8_less [of b] unfolding length_Cons power_Suc by linarith
  also have "256 ^ length (b # bs) = (2::nat) ^ (8 * length (b # bs))"
    by (simp only: power_mult) simp
  also have "\<dots> \<le> 2 ^ LENGTH('a)" using Cons.prems by (intro power_increasing) simp_all
  finally have less: "unat b + be_value (rev bs) * 256 < 2 ^ LENGTH('a)" .
  have "unat (from_le_bytes (b # bs) :: 'a word) = unat (ucast b + push_bit 8 ?r :: 'a word)"
    by (simp only: from_le_bytes.simps disjunctive_add_eq_or [OF disj])
  also have "\<dots> = (unat b + unat (push_bit 8 ?r)) mod 2 ^ LENGTH('a)"
    using len by (simp only: unat_word_ariths) (simp add: unat_ucast_up)
  also have "unat (push_bit 8 ?r) = (unat ?r * 256) mod 2 ^ LENGTH('a)"
    by (subst unsigned_push_bit_eq) (simp add: take_bit_eq_mod push_bit_eq_mult)
  also have "(unat b + (unat ?r * 256) mod 2 ^ LENGTH('a)) mod 2 ^ LENGTH('a) =
      (unat b + unat ?r * 256) mod 2 ^ LENGTH('a)"
    by (rule mod_add_right_eq)
  also have "\<dots> = unat b + be_value (rev bs) * 256" using less IH by simp
  finally show ?case by (simp add: be_value_append)
qed

lemma be_value_to_be_bytes: "8 dvd LENGTH('a) \<Longrightarrow> be_value (to_be_bytes (w :: 'a::len word)) = unat w"
  using unat_from_le_bytes [of "to_le_bytes w", where ?'a = 'a]
  by (simp add: to_be_bytes_def from_to_le_bytes)

lemma mixed_radix_less:
  assumes "m < B" and "n < (B :: nat)"
  shows "a * B + m < b * B + n \<longleftrightarrow> a < b \<or> a = b \<and> m < n"
proof (cases a b rule: linorder_cases)
  case less
  then have "(a + 1) * B \<le> b * B" by (intro mult_right_mono) simp_all
  with assms less show ?thesis by simp
next
  case greater
  then have "(b + 1) * B \<le> a * B" by (intro mult_right_mono) simp_all
  with assms greater show ?thesis by simp
qed simp

lemma lexordp_be_value:
  "length xs = length ys \<Longrightarrow> ord_class.lexordp xs ys \<longleftrightarrow> be_value xs < be_value ys"
proof (induction xs ys rule: list_induct2)
  case (Cons x xs y ys)
  have b: "be_value xs < 256 ^ length ys" "be_value ys < 256 ^ length ys"
    using be_value_less [of xs] be_value_less [of ys] Cons.hyps by simp_all
  have "x = y \<longleftrightarrow> unat x = unat y" by (rule word_eq_iff_unsigned)
  with Cons show ?case by (auto simp: mixed_radix_less [OF b] word_less_nat_alt)
qed simp

end
