(* ===== verification/Rust_Text.thy ===== *)
theory Rust_Text
  imports Rust_Prelude
begin

text \<open>
  The pieces of Rust's standard library that work on text, as the source uses them: ASCII
  literals as bytes, \<open>{}\<close> formatting of numbers and IPv4 addresses, \<open>str::split\<close>,
  \<open>split_once\<close>, \<open>rsplit\<close>, \<open>trim\<close>, and \<open>from_str\<close> of \<open>u32\<close> and \<open>Ipv4Addr\<close>; with
  the round trips between printing and parsing. A \<open>str\<close> is the list of its bytes, read as
  characters.
\<close>

subsection \<open>Printing\<close>

definition ascii :: "string \<Rightarrow> bytes" where
  "ascii s = map of_char s"

definition digit_char :: "nat \<Rightarrow> char" where
  "digit_char n = char_of (48 + n)"

fun show_nat :: "nat \<Rightarrow> string" where
  "show_nat n = (if n < 10 then [digit_char n] else show_nat (n div 10) @ [digit_char (n mod 10)])"

declare show_nat.simps [simp del]

definition decimal :: "nat \<Rightarrow> bytes" where
  "decimal n = ascii (show_nat n)"

lemma length_ascii [simp]: "length (ascii s) = length s"
  by (simp add: ascii_def)

lemma length_decimal_le: "n < 10 ^ k \<Longrightarrow> 0 < k \<Longrightarrow> length (decimal n) \<le> k"
proof (induction k arbitrary: n)
  case (Suc k)
  show ?case
  proof (cases "n < 10")
    case True
    then show ?thesis by (simp add: decimal_def show_nat.simps)
  next
    case False
    then have "length (decimal n) = length (decimal (n div 10)) + 1"
      by (simp add: decimal_def show_nat.simps [of n])
    moreover have "n div 10 < 10 ^ k" using Suc.prems by (simp add: less_mult_imp_div_less mult.commute)
    moreover have "0 < k" using False Suc.prems by (cases k) auto
    ultimately show ?thesis using Suc.IH by simp
  qed
qed simp

lemma length_decimal_byte: "n < 256 \<Longrightarrow> length (decimal n) \<le> 3"
  by (rule length_decimal_le) simp_all

definition show_ipv4 :: "ipv4addr \<Rightarrow> string" where
  "show_ipv4 ip =
    (let o4 = map (\<lambda>b. show_nat (unat b)) (to_be_bytes ip)
     in o4 ! 0 @ ''.'' @ o4 ! 1 @ ''.'' @ o4 ! 2 @ ''.'' @ o4 ! 3)"

subsection \<open>Splitting\<close>

fun split_on :: "char \<Rightarrow> string \<Rightarrow> string list" where
  "split_on c [] = [[]]"
| "split_on c (x # xs) =
    (if x = c then [] # split_on c xs
     else case split_on c xs of [] \<Rightarrow> [[x]] | p # ps \<Rightarrow> (x # p) # ps)"

fun split_once :: "char \<Rightarrow> string \<Rightarrow> (string \<times> string) option" where
  "split_once c [] = None"
| "split_once c (x # xs) =
    (if x = c then Some ([], xs)
     else case split_once c xs of None \<Rightarrow> None | Some (a, b) \<Rightarrow> Some (x # a, b))"

lemma split_on_nonempty [simp]: "split_on c xs \<noteq> []"
  by (induction xs) (auto split: list.split)

lemma split_on_none: "c \<notin> set xs \<Longrightarrow> split_on c xs = [xs]"
  by (induction xs) auto

lemma split_on_append: "split_on c (xs @ c # ys) = split_on c xs @ split_on c ys"
proof (induction xs)
  case (Cons x xs)
  obtain p ps where "split_on c xs = p # ps" by (cases "split_on c xs") auto
  with Cons show ?case by simp
qed simp

lemma split_on_sep: "c \<notin> set xs \<Longrightarrow> split_on c (xs @ c # ys) = xs # split_on c ys"
  by (simp add: split_on_append split_on_none)

lemma split_on_parts: "p \<in> set (split_on c xs) \<Longrightarrow> c \<notin> set p"
  by (induction c xs arbitrary: p rule: split_on.induct) (auto split: list.splits if_splits)

lemma last_split_on: "xs = last (split_on c xs) \<or> (\<exists>ys. xs = ys @ c # last (split_on c xs))"
proof (cases "c \<in> set xs")
  case True
  then obtain ys zs where "xs = ys @ c # zs" "c \<notin> set zs" using split_list_last by metis
  then show ?thesis by (auto simp: split_on_append split_on_none)
qed (simp add: split_on_none)

lemma hd_split_on: "hd (split_on c xs) = takeWhile (\<lambda>x. x \<noteq> c) xs"
  by (induction c xs rule: split_on.induct) (auto split: list.split simp: hd_conv_nth)

lemma split_once_sep: "c \<notin> set xs \<Longrightarrow> split_once c (xs @ c # ys) = Some (xs, ys)"
  by (induction xs) auto

lemma split_once_none: "c \<notin> set xs \<Longrightarrow> split_once c xs = None"
  by (induction xs) auto

subsection \<open>Parsing numbers and addresses\<close>

definition is_digit :: "char \<Rightarrow> bool" where
  "is_digit c \<longleftrightarrow> (48 :: nat) \<le> of_char c \<and> (of_char c :: nat) \<le> 57"

primrec parse_digits :: "nat \<Rightarrow> string \<Rightarrow> nat option" where
  "parse_digits acc [] = Some acc"
| "parse_digits acc (c # cs) =
    (if is_digit c then parse_digits (acc * 10 + (of_char c - 48)) cs else None)"

text \<open>\<open>u32::from_str\<close>: an optional plus sign, at least one digit, no overflow.\<close>

definition parse_u32 :: "string \<Rightarrow> u32 option" where
  "parse_u32 s =
    (let ds = (case s of c # cs \<Rightarrow> if c = CHR ''+'' then cs else s | [] \<Rightarrow> [])
     in if ds = [] then None
        else case parse_digits 0 ds of None \<Rightarrow> None | Some n \<Rightarrow> if n < 2 ^ 32 then Some (of_nat n) else None)"

text \<open>\<open>Ipv4Addr::from_str\<close>: four decimal octets of at most three digits, no leading zeros.\<close>

definition parse_octet :: "string \<Rightarrow> u8 option" where
  "parse_octet s =
    (if s = [] \<or> 3 < length s \<or> (1 < length s \<and> hd s = CHR ''0'') then None
     else case parse_digits 0 s of None \<Rightarrow> None | Some n \<Rightarrow> if n < 256 then Some (of_nat n) else None)"

definition parse_ipv4 :: "string \<Rightarrow> ipv4addr option" where
  "parse_ipv4 s =
    (case split_on CHR ''.'' s of
       [a, b, c, d] \<Rightarrow> do {
         a \<leftarrow> parse_octet a; b \<leftarrow> parse_octet b; c \<leftarrow> parse_octet c; d \<leftarrow> parse_octet d;
         Some (from_be_bytes [a, b, c, d]) }
     | _ \<Rightarrow> None)"

lemma of_digit_char: "n < 10 \<Longrightarrow> (of_char (digit_char n) :: nat) = 48 + n"
  by (simp add: digit_char_def)

lemma is_digit_digit_char [simp]: "n < 10 \<Longrightarrow> is_digit (digit_char n)"
  by (simp add: is_digit_def of_digit_char)

lemma parse_digits_append:
  "parse_digits acc (xs @ ys) = (case parse_digits acc xs of None \<Rightarrow> None | Some n \<Rightarrow> parse_digits n ys)"
  by (induction xs arbitrary: acc) auto

lemma show_nat_digits: "c \<in> set (show_nat n) \<Longrightarrow> is_digit c"
proof (induction n rule: show_nat.induct)
  case (1 n)
  show ?case
  proof (cases "n < 10")
    case True
    then show ?thesis using 1(2) by (simp add: show_nat.simps [of n])
  next
    case False
    then show ?thesis using 1 by (auto simp: show_nat.simps [of n])
  qed
qed

lemma show_nat_nonempty [simp]: "show_nat n \<noteq> []"
  by (subst show_nat.simps) simp

lemma parse_show_nat: "parse_digits 0 (show_nat n) = Some n"
proof (induction n rule: show_nat.induct)
  case (1 n)
  show ?case
  proof (cases "n < 10")
    case True
    then show ?thesis by (simp add: show_nat.simps of_digit_char)
  next
    case False
    then show ?thesis using 1
      by (subst show_nat.simps) (simp add: parse_digits_append of_digit_char)
  qed
qed

lemma not_in_show_nat: "\<not> is_digit c \<Longrightarrow> c \<notin> set (show_nat n)"
  using show_nat_digits by blast

lemma hd_show_nat: "10 \<le> n \<Longrightarrow> hd (show_nat n) \<noteq> CHR ''0''"
proof (induction n rule: show_nat.induct)
  case (1 n)
  then have s: "show_nat n = show_nat (n div 10) @ [digit_char (n mod 10)]"
    by (subst show_nat.simps) simp
  show ?case
  proof (cases "n div 10 < 10")
    case True
    have "hd (show_nat n) = digit_char (n div 10)" using True by (simp add: s show_nat.simps [of "n div 10"])
    moreover have "digit_char (n div 10) \<noteq> CHR ''0''"
    proof
      assume "digit_char (n div 10) = CHR ''0''"
      then have "(of_char (digit_char (n div 10)) :: nat) = 48" by simp
      then show False using True 1(2) by (simp add: of_digit_char)
    qed
    ultimately show ?thesis by simp
  next
    case False
    then show ?thesis using 1 by (simp add: s)
  qed
qed

lemma parse_octet_show: "parse_octet (show_nat (unat (b :: u8))) = Some b"
proof -
  have "length (show_nat (unat b)) \<le> 3" using length_decimal_byte [of "unat b"] by (simp add: decimal_def)
  moreover have "\<not> (1 < length (show_nat (unat b)) \<and> hd (show_nat (unat b)) = CHR ''0'')"
  proof (cases "unat b < 10")
    case True
    then show ?thesis by (simp add: show_nat.simps)
  next
    case False
    then show ?thesis using hd_show_nat [of "unat b"] by simp
  qed
  ultimately show ?thesis by (auto simp: parse_octet_def parse_show_nat)
qed

lemma parse_show_ipv4: "parse_ipv4 (show_ipv4 ip) = Some ip"
proof -
  obtain a b c d where o: "to_be_bytes ip = [a, b, c, d]" by (simp add: to_be_bytes_32)
  have dot: "CHR ''.'' \<notin> set (show_nat n)" for n by (rule not_in_show_nat) (simp add: is_digit_def)
  have "from_be_bytes [a, b, c, d] = ip" using bytes_roundtrip(2) [of ip] by (simp only: o)
  then show ?thesis
    by (simp add: show_ipv4_def o parse_ipv4_def split_on_sep split_on_none dot parse_octet_show)
qed

lemma parse_show_u32: "n < 2 ^ 32 \<Longrightarrow> parse_u32 (show_nat n) = Some (of_nat n)"
proof -
  assume n: "n < 2 ^ 32"
  obtain c cs where s: "show_nat n = c # cs" using show_nat_nonempty [of n] by (cases "show_nat n") auto
  have "is_digit c" using show_nat_digits [of c n] by (simp add: s)
  then have "c \<noteq> CHR ''+''" by (auto simp: is_digit_def)
  then have "parse_u32 (c # cs) = (case parse_digits 0 (show_nat n) of None \<Rightarrow> None | Some n \<Rightarrow> if n < 2 ^ 32 then Some (of_nat n) else None)"
    by (simp add: parse_u32_def s)
  with n show ?thesis by (simp add: s [symmetric] parse_show_nat)
qed

subsection \<open>Trimming and searching\<close>

text \<open>
  \<open>str::trim\<close> on the bytes of a string: \<open>ws_prefix\<close> is the length of the white-space
  character (Unicode \<open>White_Space\<close>, in UTF-8) a byte string starts with, \<open>ws_suffix\<close> of the
  one the reverse of a byte string ends with; zero if there is none.
\<close>

definition ascii_ws :: "u8 \<Rightarrow> bool" where
  "ascii_ws b \<longleftrightarrow> (9 \<le> b \<and> b \<le> 13) \<or> b = 32"

definition ws2 :: "u8 \<Rightarrow> u8 \<Rightarrow> bool" where
  "ws2 a b \<longleftrightarrow> a = 0xC2 \<and> (b = 0x85 \<or> b = 0xA0)"

definition ws3 :: "u8 \<Rightarrow> u8 \<Rightarrow> u8 \<Rightarrow> bool" where
  "ws3 a b c \<longleftrightarrow> (a = 0xE1 \<and> b = 0x9A \<and> c = 0x80) \<or> (a = 0xE2 \<and> b = 0x81 \<and> c = 0x9F) \<or>
     (a = 0xE3 \<and> b = 0x80 \<and> c = 0x80) \<or>
     (a = 0xE2 \<and> b = 0x80 \<and> (c \<le> 0x8A \<and> 0x80 \<le> c \<or> c = 0xA8 \<or> c = 0xA9 \<or> c = 0xAF))"

definition ws_prefix :: "bytes \<Rightarrow> nat" where
  "ws_prefix s =
    (case s of [] \<Rightarrow> 0 | a # s1 \<Rightarrow> if ascii_ws a then 1 else
     (case s1 of [] \<Rightarrow> 0 | b # s2 \<Rightarrow> if ws2 a b then 2 else
      (case s2 of [] \<Rightarrow> 0 | c # _ \<Rightarrow> if ws3 a b c then 3 else 0)))"

definition ws_suffix :: "bytes \<Rightarrow> nat" where
  "ws_suffix r =
    (case r of [] \<Rightarrow> 0 | a # r1 \<Rightarrow> if ascii_ws a then 1 else
     (case r1 of [] \<Rightarrow> 0 | b # r2 \<Rightarrow> if ws2 b a then 2 else
      (case r2 of [] \<Rightarrow> 0 | c # _ \<Rightarrow> if ws3 c b a then 3 else 0)))"

function strip :: "(bytes \<Rightarrow> nat) \<Rightarrow> bytes \<Rightarrow> bytes" where
  "strip w s = (if w s = 0 \<or> s = [] then s else strip w (drop (w s) s))"
  by pat_completeness auto
termination
  by (relation "measure (\<lambda>(w, s). length s)") (auto simp: length_greater_0_conv)

declare strip.simps [simp del]

definition trim :: "bytes \<Rightarrow> bytes" where
  "trim s = rev (strip ws_suffix (rev (strip ws_prefix s)))"

definition plain_ascii :: "u8 \<Rightarrow> bool" where
  "plain_ascii b \<longleftrightarrow> b < 0x80 \<and> \<not> ascii_ws b"

lemma trim_id:
  assumes "\<forall>b \<in> set s. plain_ascii b"
  shows "trim s = s"
proof -
  have n2: "\<not> ws2 a b" and n3: "\<not> ws3 a b c" if "plain_ascii a" for a b c
    using that by (auto simp: plain_ascii_def ws2_def ws3_def)
  have "ws_prefix t = 0 \<and> ws_suffix t = 0" if "\<forall>b \<in> set t. plain_ascii b" for t
    using that n2 n3 unfolding ws_prefix_def ws_suffix_def
    by (simp add: plain_ascii_def split: list.split)
  then show ?thesis using assms by (simp add: trim_def strip.simps)
qed

text \<open>\<^verbatim>\<open>haystack.windows(needle.len()).position(|w| w == needle)\<close>\<close>

primrec find_from :: "'a list \<Rightarrow> nat \<Rightarrow> 'a list \<Rightarrow> nat option" where
  "find_from needle i [] = (if needle = [] then Some i else None)"
| "find_from needle i (x # xs) =
    (if take (length needle) (x # xs) = needle then Some i else find_from needle (i + 1) xs)"

definition find_sub :: "'a list \<Rightarrow> 'a list \<Rightarrow> nat option" where
  "find_sub haystack needle = find_from needle 0 haystack"

lemma find_from_Some:
  "find_from needle i xs = Some k \<Longrightarrow>
     i \<le> k \<and> k - i + length needle \<le> length xs \<and> take (length needle) (drop (k - i) xs) = needle"
proof (induction xs arbitrary: i)
  case (Cons x xs)
  show ?case
  proof (cases "take (length needle) (x # xs) = needle")
    case True
    then have "length needle \<le> length (x # xs)" by (metis length_take min.cobounded1)
    then show ?thesis using True Cons.prems by simp
  next
    case False
    then have "find_from needle (i + 1) xs = Some k" using Cons.prems by simp
    note IH = Cons.IH [OF this]
    then have "k - i = Suc (k - (i + 1))" by linarith
    with IH show ?thesis by simp
  qed
qed (simp split: if_splits)

end
