(* ===== verification/Keys.thy ===== *)
theory Keys
  imports Rust_Text
begin

text \<open>
  Keys as text and in storage: \<open>hex_lower\<close> and the key store of \<^verbatim>\<open>src/keys.rs\<close>, the decoders of
  \<^verbatim>\<open>core/src/peers.rs\<close> (\<open>parse_keyed_hex\<close>) and \<^verbatim>\<open>src/control/mod.rs\<close> (\<open>hex_decode_32\<close>).
  The flash storage (ESP-IDF's NVS) and the curve are parameters, random bytes arguments.
  Shown: both decoders invert the encoder and accept exactly 64 hex digits, and a node keeps
  the identity it once stored.
\<close>

subsection \<open>Hexadecimal\<close>

text \<open>\<open>char::from_digit(d, 16)\<close>.\<close>

definition from_digit16 :: "nat \<Rightarrow> char option" where
  "from_digit16 d =
    (if d < 10 then Some (char_of (48 + d)) else if d < 16 then Some (char_of (87 + d)) else None)"

primrec hex_lower :: "bytes \<Rightarrow> string panics" where
  "hex_lower [] = Some []"
| "hex_lower (b # bs) = do {
     hi \<leftarrow> from_digit16 (unat (drop_bit 4 b));
     lo \<leftarrow> from_digit16 (unat (b AND 0xf));
     s \<leftarrow> hex_lower bs;
     Some (hi # lo # s) }"

definition hex_val :: "u8 \<Rightarrow> u8 option" where
  "hex_val c =
    (if 48 \<le> c \<and> c \<le> 57 then Some (c - 48)
     else if 97 \<le> c \<and> c \<le> 102 then Some (c - 97 + 10)
     else if 65 \<le> c \<and> c \<le> 70 then Some (c - 65 + 10)
     else None)"

text \<open>The loop \<^verbatim>\<open>for i in 0..32\<close> of the decoders; \<open>None\<close> inside is the early return of \<open>?\<close>.\<close>

primrec hex_loop :: "bytes \<Rightarrow> nat list \<Rightarrow> bytes \<Rightarrow> bytes option panics" where
  "hex_loop bs [] out = Some (Some out)"
| "hex_loop bs (i # is) out = do {
     c \<leftarrow> idx bs (i * 2);
     (case hex_val c of None \<Rightarrow> Some None | Some hi \<Rightarrow> do {
     c' \<leftarrow> idx bs (i * 2 + 1);
     (case hex_val c' of None \<Rightarrow> Some None | Some lo \<Rightarrow> do {
     out \<leftarrow> store out i (push_bit 4 hi OR lo);
     hex_loop bs is out })}) }"

definition parse_keyed_hex :: "string \<Rightarrow> bytes option panics" where
  "parse_keyed_hex s =
    (let hex = last (split_on CHR '':'' s) in
     if length hex \<noteq> 64 then Some None
     else hex_loop (ascii hex) [0..<32] (replicate 32 0))"

definition hex_decode_32 :: "string \<Rightarrow> bytes option panics" where
  "hex_decode_32 s =
    (let s = trim (ascii s) in
     if length s \<noteq> 64 then Some None
     else hex_loop s [0..<32] (replicate 32 0))"

subsection \<open>Key pairs and their storage\<close>

record keypair =
  kp_private :: bytes
  kp_public :: bytes

record node_keys =
  nk_machine :: keypair
  nk_node :: keypair
  nk_disco :: keypair

definition from_private :: "(bytes \<Rightarrow> bytes) \<Rightarrow> bytes \<Rightarrow> keypair" where
  "from_private x25519_pub priv = \<lparr> kp_private = priv, kp_public = x25519_pub priv \<rparr>"

definition public_hex :: "keypair \<Rightarrow> string panics" where
  "public_hex k = hex_lower (kp_public k)"

text \<open>
  The NVS partition: opening the namespace, which may fail, and reading and writing a blob there,
  which may too. \<open>get_blob\<close> is called with a 32-byte buffer.
\<close>

record 'n nvs_ops =
  nvs_open :: "'n \<Rightarrow> 'n \<times> bool"
  nvs_get_blob :: "'n \<Rightarrow> string \<Rightarrow> bytes option option"
  nvs_set_blob :: "'n \<Rightarrow> string \<Rightarrow> bytes \<Rightarrow> 'n option"

datatype keys_error = NvsOpen | NvsGet | NvsSet

definition load_or_make ::
  "'n nvs_ops \<Rightarrow> (bytes \<Rightarrow> bytes) \<Rightarrow> 'n \<Rightarrow> string \<Rightarrow> bytes \<Rightarrow> 'n \<times> (keys_error + keypair)" where
  "load_or_make N x25519_pub nvs key random_32 =
    (let make = (case nvs_set_blob N nvs key random_32 of
                   None \<Rightarrow> (nvs, Inl NvsSet)
                 | Some nvs' \<Rightarrow> (nvs', Inr (from_private x25519_pub random_32)))
     in case nvs_get_blob N nvs key of
          None \<Rightarrow> (nvs, Inl NvsGet)
        | Some (Some blob) \<Rightarrow>
            if length blob = 32 then (nvs, Inr (from_private x25519_pub blob)) else make
        | Some None \<Rightarrow> make)"

definition load_or_generate ::
  "'n nvs_ops \<Rightarrow> (bytes \<Rightarrow> bytes) \<Rightarrow> 'n \<Rightarrow> bytes \<Rightarrow> bytes \<Rightarrow> bytes \<Rightarrow> 'n \<times> (keys_error + node_keys)" where
  "load_or_generate N x25519_pub nvs r1 r2 r3 =
    (case nvs_open N nvs of
       (nvs, False) \<Rightarrow> (nvs, Inl NvsOpen)
     | (nvs, True) \<Rightarrow>
      (case load_or_make N x25519_pub nvs ''k_machine'' r1 of
         (nvs, Inl e) \<Rightarrow> (nvs, Inl e)
       | (nvs, Inr machine) \<Rightarrow>
        (case load_or_make N x25519_pub nvs ''k_node'' r2 of
           (nvs, Inl e) \<Rightarrow> (nvs, Inl e)
         | (nvs, Inr node) \<Rightarrow>
          (case load_or_make N x25519_pub nvs ''k_disco'' r3 of
             (nvs, Inl e) \<Rightarrow> (nvs, Inl e)
           | (nvs, Inr disco) \<Rightarrow>
              (nvs, Inr \<lparr> nk_machine = machine, nk_node = node, nk_disco = disco \<rparr>)))))"

subsection \<open>The decoders\<close>

fun hex_pairs :: "bytes \<Rightarrow> bytes option" where
  "hex_pairs (a # b # rest) =
    (case (hex_val a, hex_val b, hex_pairs rest) of
       (Some hi, Some lo, Some r) \<Rightarrow> Some ((push_bit 4 hi OR lo) # r)
     | _ \<Rightarrow> None)"
| "hex_pairs [a] = None"
| "hex_pairs [] = Some []"

lemma hex_loop_eq:
  assumes "length bs = 2 * m" and "length out = m" and "n \<le> m"
  shows "hex_loop bs [n..<m] out = Some (map_option (\<lambda>r. take n out @ r) (hex_pairs (drop (2 * n) bs)))"
  using assms
proof (induction "m - n" arbitrary: n out)
  case 0
  then show ?case by simp
next
  case (Suc d)
  then have n: "n < m" by simp
  have u: "[n..<m] = n # [Suc n..<m]" using n by (rule upt_conv_Cons)
  have d: "drop (2 * n) bs = bs ! (2 * n) # bs ! (2 * n + 1) # drop (2 * Suc n) bs"
    using n Suc.prems by (simp add: Cons_nth_drop_Suc add_2_eq_Suc)
  have IH: "hex_loop bs [Suc n..<m] (out[n := v]) =
      Some (map_option (\<lambda>r. take (Suc n) (out[n := v]) @ r) (hex_pairs (drop (2 * Suc n) bs)))" for v
    using Suc.hyps(2) Suc.prems n by (intro Suc.hyps(1)) auto
  have t: "take (Suc n) (out[n := v]) = take n out @ [v]" for v
    using n Suc.prems by (simp add: take_Suc_conv_app_nth)
  show ?case
    using n Suc.prems unfolding u d hex_pairs.simps
    by (auto simp: rust_simps IH t mult.commute option.map_comp comp_def split: option.split)
qed

lemma byte_nibbles: "push_bit 4 (drop_bit 4 (b :: u8)) OR (b AND 0xf) = b"
proof -
  have "b AND 0xf = take_bit 4 b" by (simp add: take_bit_eq_mask mask_eq_exp_minus_1)
  moreover have "push_bit 4 (drop_bit 4 b) OR take_bit 4 b = b"
    by (rule bit_word_eqI) (auto simp: bit_or_iff bit_push_bit_iff bit_drop_bit_eq bit_take_bit_iff)
  ultimately show ?thesis by simp
qed

lemma hex_digit_val:
  assumes "d < 16"
  shows "\<exists>c. from_digit16 d = Some c \<and> hex_val (of_char c) = Some (of_nat d) \<and> c \<noteq> CHR '':'' \<and> plain_ascii (of_char c)"
proof -
  have "d \<in> set [0..<16]" using assms by simp
  also have "[0..<16] = [0, 1, 2, 3, 4, 5, 6, 7, 8, 9, 10, 11, 12, 13, 14, 15 :: nat]" by (simp add: upt_rec)
  finally have "d \<in> {0, 1, 2, 3, 4, 5, 6, 7, 8, 9, 10, 11, 12, 13, 14, 15}" by simp
  then show ?thesis
    by (elim insertE) (simp_all add: from_digit16_def hex_val_def plain_ascii_def ascii_ws_def char_of_def bit_0)
qed

lemma hex_lower_pairs:
  "\<exists>s. hex_lower k = Some s \<and> length s = 2 * length k \<and> hex_pairs (ascii s) = Some k \<and>
     (\<forall>c \<in> set s. c \<noteq> CHR '':'' \<and> plain_ascii (of_char c))"
proof (induction k)
  case Nil
  show ?case by (simp add: ascii_def)
next
  case (Cons b bs)
  have hi: "unat (drop_bit 4 b) < 16"
    by (simp only: unat_drop_bit_eq) (simp add: drop_bit_eq_div less_mult_imp_div_less)
  have "b AND 0xf = take_bit 4 b" by (simp add: take_bit_eq_mask mask_eq_exp_minus_1)
  then have "unat (b AND 0xf) = take_bit 4 (unat b)" by (simp only: unsigned_take_bit_eq)
  then have lo: "unat (b AND 0xf) < 16" by (simp add: take_bit_eq_mod)
  obtain c1 c2 s where
      "from_digit16 (unat (drop_bit 4 b)) = Some c1" "hex_val (of_char c1) = Some (drop_bit 4 b)"
      "from_digit16 (unat (b AND 0xf)) = Some c2" "hex_val (of_char c2) = Some (b AND 0xf)"
      "hex_lower bs = Some s" "length s = 2 * length bs" "hex_pairs (ascii s) = Some bs"
      "\<forall>c \<in> set (c1 # c2 # s). c \<noteq> CHR '':'' \<and> plain_ascii (of_char c)"
    using Cons.IH hex_digit_val [OF hi] hex_digit_val [OF lo] by auto
  then show ?case by (simp add: ascii_def byte_nibbles)
qed

lemma hex_pairs_length: "hex_pairs bs = Some k \<Longrightarrow> length bs = 2 * length k"
  by (induction bs arbitrary: k rule: hex_pairs.induct) (auto split: option.splits)

lemma hex_loop_32: "length bs = 64 \<Longrightarrow> hex_loop bs [0..<32] (replicate 32 0) = Some (hex_pairs bs)"
  using hex_loop_eq [of bs 32 "replicate 32 0" 0] by (simp add: option.map_ident)

lemma parse_keyed_hex_eq:
  "parse_keyed_hex s = Some (let hex = last (split_on CHR '':'' s) in
     if length hex = 64 then hex_pairs (ascii hex) else None)"
  by (simp add: parse_keyed_hex_def hex_loop_32 Let_def)

lemma hex_decode_32_eq:
  "hex_decode_32 s = Some (if length (trim (ascii s)) = 64 then hex_pairs (trim (ascii s)) else None)"
  by (simp add: hex_decode_32_def hex_loop_32 Let_def)

subsection \<open>Properties\<close>

text \<open>
  Keys survive the trip through text: for every 32-byte key, printing it in hex never fails
  and gives 64 characters, and both decoders (the netmap's, with any type prefix, and the control
  client's) return the key. A decoder never panics and returns only 32-byte keys.
\<close>

theorem key_text_roundtrip:
  assumes "length k = 32"
  shows "\<exists>s. hex_lower k = Some s \<and> length s = 64 \<and>
    parse_keyed_hex (prefix_text @ CHR '':'' # s) = Some (Some k) \<and> hex_decode_32 s = Some (Some k) \<and>
    (\<forall>t k'. parse_keyed_hex t = Some (Some k') \<or> hex_decode_32 t = Some (Some k') \<longrightarrow> length k' = 32) \<and>
    (\<forall>t. parse_keyed_hex t \<noteq> None \<and> hex_decode_32 t \<noteq> None)"
proof -
  obtain s where s: "hex_lower k = Some s" "length s = 64" "hex_pairs (ascii s) = Some k"
      "\<forall>c \<in> set s. c \<noteq> CHR '':'' \<and> plain_ascii (of_char c)"
    using hex_lower_pairs [of k] assms by auto
  have "CHR '':'' \<notin> set s" using s(4) by blast
  then have "last (split_on CHR '':'' (prefix_text @ CHR '':'' # s)) = s"
    by (simp add: split_on_append split_on_none)
  moreover have "length k' = 32" if "length t = 64" "hex_pairs t = Some k'" for t k'
    using hex_pairs_length [OF that(2)] that(1) by simp
  moreover have "length k' = 32" if "length t = 64" "hex_pairs (ascii t) = Some k'" for t k'
    using hex_pairs_length [OF that(2)] that(1) by simp
  moreover have "trim (ascii s) = ascii s" using s(4) by (intro trim_id) (auto simp: ascii_def)
  ultimately show ?thesis
    using s(1-3) by (auto simp: parse_keyed_hex_eq hex_decode_32_eq Let_def split: if_splits)
qed

theorem key_text_roundtrip_witness:
  "\<exists>s. hex_lower (replicate 32 0xa5) = Some s \<and>
     parse_keyed_hex (''nodekey'' @ CHR '':'' # s) = Some (Some (replicate 32 0xa5))"
  using key_text_roundtrip [of "replicate 32 0xa5" "''nodekey''"] by auto

text \<open>
  What the NVS documents, in terms of its contents: opening the namespace leaves them alone, reading a
  key fails or returns what is stored under it, and writing stores the blob under its key only.
\<close>

definition nvs_ok :: "'n nvs_ops \<Rightarrow> ('n \<Rightarrow> string \<Rightarrow> bytes option) \<Rightarrow> bool" where
  "nvs_ok N contents \<longleftrightarrow>
    (\<forall>n. contents (fst (nvs_open N n)) = contents n) \<and>
    (\<forall>n k. nvs_get_blob N n k = None \<or> nvs_get_blob N n k = Some (contents n k)) \<and>
    (\<forall>n k v n'. nvs_set_blob N n k v = Some n' \<longrightarrow> contents n' = (contents n)(k \<mapsto> v))"

lemma load_or_make_stored:
  assumes "nvs_ok N c" and "length r = 32" and "load_or_make N X n k r = (n', Inr kp)"
  shows "\<exists>priv. length priv = 32 \<and> c n' k = Some priv \<and> kp = from_private X priv"
    and "k' \<noteq> k \<Longrightarrow> c n' k' = c n k'"
proof -
  have g: "nvs_get_blob N n k = None \<or> nvs_get_blob N n k = Some (c n k)" using assms(1) by (simp add: nvs_ok_def)
  have s: "c n2 = (c n)(k \<mapsto> r)" if "nvs_set_blob N n k r = Some n2" for n2 using assms(1) that unfolding nvs_ok_def by blast
  show "\<exists>priv. length priv = 32 \<and> c n' k = Some priv \<and> kp = from_private X priv"
    and "k' \<noteq> k \<Longrightarrow> c n' k' = c n k'"
    using assms(2,3) g s by (auto simp: load_or_make_def Let_def split: option.splits if_splits)
qed

lemma load_or_make_again:
  assumes "nvs_ok N c" and "c n k = Some priv" and "length priv = 32"
  shows "load_or_make N X n k r = (n, if nvs_get_blob N n k = None then Inl NvsGet else Inr (from_private X priv))"
proof -
  have "nvs_get_blob N n k = None \<or> nvs_get_blob N n k = Some (c n k)" using assms(1) by (simp add: nvs_ok_def)
  then show ?thesis using assms(2,3) by (elim disjE) (simp_all add: load_or_make_def Let_def)
qed

text \<open>The keys are in the storage; then they are what a call returns, unless opening or reading fails.\<close>

definition stored :: "('n \<Rightarrow> string \<Rightarrow> bytes option) \<Rightarrow> (bytes \<Rightarrow> bytes) \<Rightarrow> 'n \<Rightarrow> node_keys \<Rightarrow> bool" where
  "stored contents X n ks \<longleftrightarrow> (\<exists>p1 p2 p3. length p1 = 32 \<and> length p2 = 32 \<and> length p3 = 32 \<and>
     contents n ''k_machine'' = Some p1 \<and> contents n ''k_node'' = Some p2 \<and> contents n ''k_disco'' = Some p3 \<and>
     ks = \<lparr> nk_machine = from_private X p1, nk_node = from_private X p2, nk_disco = from_private X p3 \<rparr>)"

lemma generated_stored:
  assumes "nvs_ok N c" and "length r1 = 32" and "length r2 = 32" and "length r3 = 32"
    and "load_or_generate N X n r1 r2 r3 = (n', Inr ks)"
  shows "stored c X n' ks"
proof -
  obtain n0 n1 n2 m d f where
      1: "load_or_make N X n0 ''k_machine'' r1 = (n1, Inr m)" and
      2: "load_or_make N X n1 ''k_node'' r2 = (n2, Inr d)" and
      3: "load_or_make N X n2 ''k_disco'' r3 = (n', Inr f)" and
      ks: "ks = \<lparr> nk_machine = m, nk_node = d, nk_disco = f \<rparr>"
    using assms(5) by (auto simp: load_or_generate_def split: prod.splits sum.splits bool.splits)
  note s1 = load_or_make_stored [OF assms(1,2) 1] and s2 = load_or_make_stored [OF assms(1,3) 2]
    and s3 = load_or_make_stored [OF assms(1,4) 3]
  show ?thesis
    using s1(1) s2(1) s3(1) s2(2) [of "''k_machine''"] s3(2) [of "''k_machine''"] s3(2) [of "''k_node''"]
    by (auto simp: stored_def ks)
qed

lemma stored_returned:
  assumes "nvs_ok N c" and "stored c X n ks" and "nvs_open N n = (n', opened)"
  shows "\<exists>r. load_or_generate N X n q1 q2 q3 = (n', r) \<and> r \<in> {Inr ks, Inl NvsOpen, Inl NvsGet} \<and>
      (opened \<longrightarrow> (\<forall>k. nvs_get_blob N n' k \<noteq> None) \<longrightarrow> r = Inr ks)"
    and "stored c X n' ks"
proof -
  have "c n' = c n" using assms(1,3) unfolding nvs_ok_def by (metis fst_conv)
  then show s: "stored c X n' ks" using assms(2) by (simp add: stored_def)
  then obtain p1 p2 p3 where p: "length p1 = 32" "length p2 = 32" "length p3 = 32" "c n' ''k_machine'' = Some p1"
      "c n' ''k_node'' = Some p2" "c n' ''k_disco'' = Some p3"
      "ks = \<lparr> nk_machine = from_private X p1, nk_node = from_private X p2, nk_disco = from_private X p3 \<rparr>"
    by (auto simp: stored_def)
  note again = load_or_make_again [OF assms(1), OF p(4,1)] load_or_make_again [OF assms(1), OF p(5,2)]
    load_or_make_again [OF assms(1), OF p(6,3)]
  show "\<exists>r. load_or_generate N X n q1 q2 q3 = (n', r) \<and> r \<in> {Inr ks, Inl NvsOpen, Inl NvsGet} \<and>
      (opened \<longrightarrow> (\<forall>k. nvs_get_blob N n' k \<noteq> None) \<longrightarrow> r = Inr ks)"
    by (cases opened) (auto simp: load_or_generate_def assms(3) again p(7))
qed

text \<open>The results of successive calls, one per start of the device, each with its random draws.\<close>

primrec restarts ::
  "'n nvs_ops \<Rightarrow> (bytes \<Rightarrow> bytes) \<Rightarrow> 'n \<Rightarrow> (bytes \<times> bytes \<times> bytes) list \<Rightarrow> (keys_error + node_keys) list" where
  "restarts N X n [] = []"
| "restarts N X n (q # qs) =
    (case q of (q1, q2, q3) \<Rightarrow> (case load_or_generate N X n q1 q2 q3 of (n, r) \<Rightarrow> r # restarts N X n qs))"

text \<open>
  C27. A node keeps its identity: once \<open>load_or_generate\<close> has returned keys, every later call, on
  the storage as the calls before left it and whatever fresh randomness it would draw, returns the
  same three key pairs, or fails because the namespace cannot be opened or a key cannot be read; it
  never returns others and never replaces them, and it returns them always if opening and reading
  succeed.
\<close>

theorem identity_is_stable:
  assumes "nvs_ok N contents" and "length r1 = 32" and "length r2 = 32" and "length r3 = 32"
    and "load_or_generate N X n r1 r2 r3 = (n', Inr ks)"
  shows "set (restarts N X n' qs) \<subseteq> {Inr ks, Inl NvsOpen, Inl NvsGet} \<and>
    ((\<forall>n k. snd (nvs_open N n) \<and> nvs_get_blob N n k \<noteq> None) \<longrightarrow> restarts N X n' qs = replicate (length qs) (Inr ks))"
proof -
  have "stored contents X n' ks" by (rule generated_stored [OF assms])
  then show ?thesis
  proof (induction qs arbitrary: n')
    case (Cons q qs)
    obtain q1 q2 q3 where q: "q = (q1, q2, q3)" by (cases q)
    obtain n2 opened where o: "nvs_open N n' = (n2, opened)" by fastforce
    note s = stored_returned [OF assms(1) Cons.prems o]
    obtain r where r: "load_or_generate N X n' q1 q2 q3 = (n2, r)" "r \<in> {Inr ks, Inl NvsOpen, Inl NvsGet}"
        "opened \<Longrightarrow> \<forall>k. nvs_get_blob N n2 k \<noteq> None \<Longrightarrow> r = Inr ks"
      using s(1) by blast
    have "opened" if "\<forall>n k. snd (nvs_open N n) \<and> nvs_get_blob N n k \<noteq> None" using that o by (metis snd_conv)
    then show ?case using Cons.IH [OF s(2)] r by (auto simp: q)
  qed simp
qed

definition toy_nvs :: "(string \<rightharpoonup> bytes) nvs_ops" where
  "toy_nvs = \<lparr> nvs_open = (\<lambda>n. (n, True)), nvs_get_blob = (\<lambda>n k. Some (n k)), nvs_set_blob = (\<lambda>n k v. Some (n(k \<mapsto> v))) \<rparr>"

text \<open>A storage that cannot be opened, or not be read, at every second start.\<close>

definition flaky_nvs :: "(nat \<times> (string \<rightharpoonup> bytes)) nvs_ops" where
  "flaky_nvs = \<lparr> nvs_open = (\<lambda>(s, m). ((Suc s, m), s mod 4 \<noteq> 1)), nvs_get_blob = (\<lambda>(s, m) k. if s mod 4 = 0 then None else Some (m k)),
     nvs_set_blob = (\<lambda>(s, m) k v. Some (s, m(k \<mapsto> v))) \<rparr>"

lemma flaky_nvs_ok: "nvs_ok flaky_nvs snd"
  by (auto simp: nvs_ok_def flaky_nvs_def split: if_splits prod.splits)

abbreviation flaky_keys :: node_keys where
  "flaky_keys \<equiv> \<lparr> nk_machine = from_private id (replicate 32 1), nk_node = from_private id (replicate 32 2),
     nk_disco = from_private id (replicate 32 3) \<rparr>"

abbreviation flaky_stored :: "string \<rightharpoonup> bytes" where
  "flaky_stored \<equiv> [''k_machine'' \<mapsto> replicate 32 1, ''k_node'' \<mapsto> replicate 32 2, ''k_disco'' \<mapsto> replicate 32 3]"

lemma flaky_nvs_first:
  "load_or_generate flaky_nvs id (0, Map.empty) (replicate 32 1) (replicate 32 2) (replicate 32 3) =
    ((1, flaky_stored), Inr flaky_keys)"
  by (simp add: load_or_generate_def load_or_make_def flaky_nvs_def)

lemma flaky_nvs_later:
  "load_or_generate flaky_nvs id (s, flaky_stored) q1 q2 q3 =
    ((Suc s, flaky_stored), if s mod 4 = 1 then Inl NvsOpen else if Suc s mod 4 = 0 then Inl NvsGet else Inr flaky_keys)"
  by (simp add: load_or_generate_def load_or_make_def flaky_nvs_def)

theorem identity_is_stable_witness:
  "(\<forall>qs. set (restarts flaky_nvs id (1, flaky_stored) qs) \<subseteq> {Inr flaky_keys, Inl NvsOpen, Inl NvsGet}) \<and>
     restarts flaky_nvs id (1, flaky_stored) [([], [], []), ([], [], []), ([], [], []), ([], [], [])] =
       [Inl NvsOpen, Inr flaky_keys, Inl NvsGet, Inr flaky_keys]"
  using identity_is_stable [OF flaky_nvs_ok _ _ _ flaky_nvs_first] by (simp add: flaky_nvs_later)

end
