(* ===== verification/Peers.thy ===== *)
theory Peers
  imports Keys
begin

text \<open>
  \<^verbatim>\<open>core/src/peers.rs\<close> and the packet filter of \<^verbatim>\<open>core/src/node.rs\<close>: what the node takes from
  the control server's map. The JSON decoder (serde_json into the typed structs) is a
  parameter. Shown: the access list the code compiles decides exactly as a reference reading of
  the rules does, CIDR text is read as it is printed, and every peer kept has usable keys.
\<close>

subsection \<open>The wire structs\<close>

record net_info_t =
  ni_mapping_varies_by_dest_ip :: "bool option"

record hostinfo_t =
  hi_hostname :: "string option"
  hi_net_info :: "net_info_t option"

record peer_t =
  pt_key :: "string option"
  pt_disco_key :: "string option"
  pt_addresses :: "string list option"
  pt_endpoints :: "string list option"
  pt_hostinfo :: "hostinfo_t option"

record map_resp =
  mr_peers :: "peer_t list option"

record net_port_range =
  npr_ip :: "string option"

record filter_rule =
  fr_src_ips :: "string list option"
  fr_dst_ports :: "net_port_range list option"

record filter_resp =
  fr_packet_filter :: "filter_rule list option"

record peer_info =
  pi_node_key :: bytes
  pi_disco_key :: bytes
  pi_tailscale_ip :: "string option"
  pi_endpoints :: "string list"
  pi_hostname :: string
  pi_mapping_varies :: "bool option"

type_synonym cidr = "u32 \<times> u32"

subsection \<open>The packet filter\<close>

definition parse_cidr :: "string \<Rightarrow> cidr option" where
  "parse_cidr s = do {
     (ip, bits) \<leftarrow> (case split_once CHR ''/'' s of
        Some (i, b) \<Rightarrow> (case parse_u32 b of None \<Rightarrow> None | Some n \<Rightarrow> Some (i, n))
      | None \<Rightarrow> Some (s, 32));
     v \<leftarrow> parse_ipv4 ip;
     let net = from_be_bytes (to_be_bytes v);
     let msk = (if bits = 0 then 0 else push_bit (32 - unat (min bits 32)) (- 1));
     Some (net, msk)
   }"

definition cidr_match :: "cidr list \<Rightarrow> u32 \<Rightarrow> bool" where
  "cidr_match allowed ip = list_ex (\<lambda>(net, msk). ip AND msk = net AND msk) allowed"

definition cidr_contains :: "cidr option \<Rightarrow> u32 \<Rightarrow> bool" where
  "cidr_contains c ip =
    (case c of Some (net, msk) \<Rightarrow> ip AND msk = net AND msk | None \<Rightarrow> False)"

definition unwrap_or_default :: "'a list option \<Rightarrow> 'a list" where
  "unwrap_or_default x = (case x of Some l \<Rightarrow> l | None \<Rightarrow> [])"

definition covers_us :: "u32 \<Rightarrow> filter_rule \<Rightarrow> bool" where
  "covers_us our rule =
     list_ex (\<lambda>ip. ip = ''*'' \<or> cidr_contains (parse_cidr ip) our)
       (List.map_filter npr_ip (unwrap_or_default (fr_dst_ports rule)))"

primrec push_srcs :: "cidr list \<Rightarrow> string list \<Rightarrow> cidr list" where
  "push_srcs out [] = out"
| "push_srcs out (s # ss) =
    (if s = ''*'' then push_srcs (out @ [(0, 0)]) ss
     else case parse_cidr s of Some c \<Rightarrow> push_srcs (out @ [c]) ss | None \<Rightarrow> push_srcs out ss)"

primrec rule_loop :: "u32 \<Rightarrow> cidr list \<Rightarrow> filter_rule list \<Rightarrow> cidr list" where
  "rule_loop our out [] = out"
| "rule_loop our out (rule # rules) =
    (if \<not> covers_us our rule then rule_loop our out rules
     else rule_loop our (push_srcs out (unwrap_or_default (fr_src_ips rule))) rules)"

definition parse_allowed_srcs :: "(bytes \<Rightarrow> filter_resp option) \<Rightarrow> bytes \<Rightarrow> string \<Rightarrow> cidr list option" where
  "parse_allowed_srcs json raw our_ip = do {
     f \<leftarrow> json raw;
     rules \<leftarrow> fr_packet_filter f;
     our \<leftarrow> parse_cidr (our_ip @ ''/32'');
     Some (rule_loop (fst our) [] rules)
   }"

definition src_allowed :: "cidr list option \<Rightarrow> bytes \<Rightarrow> bool panics" where
  "src_allowed allowed inner =
    (case allowed of None \<Rightarrow> Some True | Some cidrs \<Rightarrow>
      if length inner < 16 then Some True else do {
      b0 \<leftarrow> idx inner 0;
      if drop_bit 4 b0 \<noteq> 4 then Some True else do {
      s0 \<leftarrow> idx inner 12; s1 \<leftarrow> idx inner 13; s2 \<leftarrow> idx inner 14; s3 \<leftarrow> idx inner 15;
      let src = (from_be_bytes [s0, s1, s2, s3] :: u32);
      Some (cidr_match cidrs src) }})"

subsection \<open>The peer list\<close>

definition as_deref_and_then :: "string option \<Rightarrow> (string \<Rightarrow> bytes option panics) \<Rightarrow> bytes option panics" where
  "as_deref_and_then x f = (case x of None \<Rightarrow> Some None | Some s \<Rightarrow> f s)"

definition starts_with :: "string \<Rightarrow> string \<Rightarrow> bool" where
  "starts_with s p = (take (length p) s = p)"

definition parse_peer :: "peer_t \<Rightarrow> peer_info option panics" where
  "parse_peer p = do {
     nk \<leftarrow> as_deref_and_then (pt_key p) parse_keyed_hex;
     (case nk of None \<Rightarrow> Some None | Some node_key \<Rightarrow> do {
     dk \<leftarrow> as_deref_and_then (pt_disco_key p) parse_keyed_hex;
     (case dk of None \<Rightarrow> Some None | Some disco_key \<Rightarrow>
      let tailscale_ip = List.find (\<lambda>a. starts_with a ''100.'')
            (map (\<lambda>a. hd (split_on CHR ''/'' a)) (unwrap_or_default (pt_addresses p)));
          hm = (case pt_hostinfo p of
                  Some h \<Rightarrow> (case hi_hostname h of Some n \<Rightarrow> n | None \<Rightarrow> ''?'',
                             case hi_net_info h of Some n \<Rightarrow> ni_mapping_varies_by_dest_ip n | None \<Rightarrow> None)
                | None \<Rightarrow> (''?'', None))
      in Some (Some \<lparr> pi_node_key = node_key, pi_disco_key = disco_key, pi_tailscale_ip = tailscale_ip,
           pi_endpoints = unwrap_or_default (pt_endpoints p), pi_hostname = fst hm,
           pi_mapping_varies = snd hm \<rparr>)) }) }"

datatype peers_error = ParseMapResponse

definition parse_peers :: "(bytes \<Rightarrow> map_resp option) \<Rightarrow> bytes \<Rightarrow> (peers_error + peer_info list) panics" where
  "parse_peers json raw =
    (case json raw of
       None \<Rightarrow> Some (Inl ParseMapResponse)
     | Some m \<Rightarrow> do {
         out \<leftarrow> filter_map_p parse_peer (unwrap_or_default (mr_peers m));
         Some (Inr out) })"

subsection \<open>The reference reading of the rules\<close>

text \<open>
  A rule entry is the wildcard or an address with a prefix length; the entry covers an address
  when the address agrees with it on the prefix. A prefix longer than 32 counts as 32.
\<close>

definition entry_prefix :: "string \<Rightarrow> (ipv4addr \<times> nat) option" where
  "entry_prefix s =
    (case split_once CHR ''/'' s of
       None \<Rightarrow> map_option (\<lambda>ip. (ip, 32)) (parse_ipv4 s)
     | Some (i, b) \<Rightarrow>
        (case (parse_ipv4 i, parse_u32 b) of
           (Some ip, Some n) \<Rightarrow> Some (ip, min (unat n) 32) | _ \<Rightarrow> None))"

definition entry_covers :: "string \<Rightarrow> ipv4addr \<Rightarrow> bool" where
  "entry_covers s ip \<longleftrightarrow> s = ''*'' \<or>
    (\<exists>net n. entry_prefix s = Some (net, n) \<and> drop_bit (32 - n) ip = drop_bit (32 - n) net)"

definition rule_permits :: "ipv4addr \<Rightarrow> ipv4addr \<Rightarrow> filter_rule \<Rightarrow> bool" where
  "rule_permits our src rule \<longleftrightarrow>
    (\<exists>d \<in> set (unwrap_or_default (fr_dst_ports rule)). \<exists>ip. npr_ip d = Some ip \<and> entry_covers ip our) \<and>
    (\<exists>s \<in> set (unwrap_or_default (fr_src_ips rule)). entry_covers s src)"

lemma mask_agree:
  fixes x y :: u32
  shows "x AND NOT (mask n) = y AND NOT (mask n) \<longleftrightarrow> drop_bit n x = drop_bit n y"
proof -
  have a: "z AND NOT (mask n) = push_bit n (drop_bit n z)" for z :: u32
    by (rule bit_word_eqI) (auto simp: bit_and_iff bit_not_iff bit_mask_iff bit_push_bit_iff bit_drop_bit_eq)
  have "drop_bit n (push_bit n (drop_bit n z)) = drop_bit n z" for z :: u32
    by (rule bit_word_eqI) (auto simp: bit_push_bit_iff bit_drop_bit_eq dest: bit_imp_le_length)
  then show ?thesis unfolding a by metis
qed

lemma parse_cidr_eq:
  "parse_cidr s = map_option (\<lambda>(net, n). (net, if n = 0 then 0 else push_bit (32 - n) (- 1))) (entry_prefix s)"
proof -
  have m: "unat (min b (32 :: u32)) = min (unat b) 32" for b
    by (simp add: min_def word_le_nat_alt)
  have z: "min (unat b) 32 = 0 \<longleftrightarrow> b = 0" for b :: u32
    by (auto simp: min_def unsigned_eq_0_iff)
  show ?thesis
    by (cases "parse_ipv4 s")
      (auto simp: parse_cidr_def entry_prefix_def m z [symmetric] Let_def split: option.splits)
qed

lemma entry_prefix_le: "entry_prefix s = Some (net, n) \<Longrightarrow> n \<le> 32"
  by (auto simp: entry_prefix_def split: option.splits)

lemma cidr_contains_entry:
  "s = ''*'' \<or> cidr_contains (parse_cidr s) ip \<longleftrightarrow> entry_covers s ip"
proof -
  have "(ip AND (if n = 0 then 0 else push_bit (32 - n) (- 1)) = net AND (if n = 0 then 0 else push_bit (32 - n) (- 1))) \<longleftrightarrow>
      drop_bit (32 - n) ip = drop_bit (32 - n) net" for n net
  proof (cases "n = 0")
    case True
    have "drop_bit 32 z = 0" for z :: u32
      by (rule bit_word_eqI) (auto simp: bit_drop_bit_eq dest: bit_imp_le_length)
    with True show ?thesis by simp
  next
    case False
    then show ?thesis by (simp add: mask_agree)
  qed
  then show ?thesis
    by (auto simp: cidr_contains_def parse_cidr_eq entry_covers_def split: option.splits)
qed

lemma cidr_match_append: "cidr_match (xs @ ys) ip \<longleftrightarrow> cidr_match xs ip \<or> cidr_match ys ip"
  by (simp add: cidr_match_def)

lemma cidr_match_single: "cidr_match [c] ip \<longleftrightarrow> cidr_contains (Some c) ip"
  by (simp add: cidr_match_def cidr_contains_def split: prod.split)

lemma push_srcs_match:
  "cidr_match (push_srcs out ss) ip \<longleftrightarrow> cidr_match out ip \<or> (\<exists>s \<in> set ss. entry_covers s ip)"
proof (induction ss arbitrary: out)
  case (Cons s ss)
  have any: "cidr_match [(0, 0)] ip" by (simp add: cidr_match_def)
  show ?case
  proof (cases "s = ''*''")
    case True
    then have "entry_covers s ip" by (simp add: entry_covers_def)
    with True show ?thesis using any by (auto simp: Cons.IH cidr_match_append)
  next
    case False
    then show ?thesis using cidr_contains_entry [of s ip]
      by (auto simp: Cons.IH cidr_match_append cidr_match_single cidr_contains_def split: option.splits)
  qed
qed (simp add: cidr_match_def)

lemma covers_us_iff:
  "covers_us our rule \<longleftrightarrow>
    (\<exists>d \<in> set (unwrap_or_default (fr_dst_ports rule)). \<exists>ip. npr_ip d = Some ip \<and> entry_covers ip our)"
  by (force simp: covers_us_def list_ex_iff cidr_contains_entry List.map_filter_def)

lemma rule_loop_match:
  "cidr_match (rule_loop our out rules) ip \<longleftrightarrow>
     cidr_match out ip \<or> (\<exists>rule \<in> set rules. rule_permits our ip rule)"
  by (induction rules arbitrary: out) (auto simp: rule_permits_def covers_us_iff push_srcs_match)

lemma parse_cidr_host: "parse_cidr (show_ipv4 ip @ ''/32'') = Some (ip, - 1)"
proof -
  have "CHR ''/'' \<notin> set (show_ipv4 ip)"
    using not_in_show_nat [of "CHR ''/''"] by (simp add: show_ipv4_def is_digit_def to_be_bytes_32)
  moreover have "parse_u32 ''32'' = Some 32" by (simp add: parse_u32_def is_digit_def)
  ultimately show ?thesis
    by (simp add: parse_cidr_eq entry_prefix_def split_once_sep parse_show_ipv4)
qed

lemma src_allowed_eq:
  "src_allowed allowed p =
    Some (case allowed of None \<Rightarrow> True
          | Some cs \<Rightarrow> \<not> (16 \<le> length p \<and> drop_bit 4 (p ! 0) = 4) \<or> cidr_match cs (from_be_bytes (sub p 12 16)))"
  by (auto simp: src_allowed_def rust_simps sub_4_eq split: option.split)

subsection \<open>The reference reading of the peers\<close>

text \<open>
  A key's text is 64 hexadecimal digits, of either case, after the last colon if there is one;
  digits \<open>2 i\<close> and \<open>2 i + 1\<close> are the halves of byte \<open>i\<close>. An entry of the map describes a peer when
  both keys are named by their texts, the Tailscale address is the first address that starts with
  \<open>100.\<close>, up to the slash, and the other fields are the entry's own, with the defaults.
\<close>

definition digit_value :: "char \<Rightarrow> nat option" where
  "digit_value = map_of (zip ''0123456789abcdefABCDEF'' [0, 1, 2, 3, 4, 5, 6, 7, 8, 9, 10, 11, 12, 13, 14, 15, 10, 11, 12, 13, 14, 15])"

definition spells :: "string \<Rightarrow> bytes \<Rightarrow> bool" where
  "spells hex k \<longleftrightarrow> length hex = 2 * length k \<and>
     (\<forall>i < length k. digit_value (hex ! (2 * i)) = Some (unat (k ! i) div 16) \<and>
        digit_value (hex ! (2 * i + 1)) = Some (unat (k ! i) mod 16))"

definition key_named :: "string option \<Rightarrow> bytes \<Rightarrow> bool" where
  "key_named s k \<longleftrightarrow> length k = 32 \<and>
     (\<exists>kind hex. (s = Some hex \<or> s = Some (kind @ CHR '':'' # hex)) \<and> CHR '':'' \<notin> set hex \<and> spells hex k)"

definition describes :: "peer_t \<Rightarrow> peer_info \<Rightarrow> bool" where
  "describes p q \<longleftrightarrow>
     key_named (pt_key p) (pi_node_key q) \<and> key_named (pt_disco_key p) (pi_disco_key q) \<and>
     pi_tailscale_ip q =
       (case filter (\<lambda>a. take 4 a = ''100.'') (case pt_addresses p of Some l \<Rightarrow> l | None \<Rightarrow> []) of
          [] \<Rightarrow> None | a # _ \<Rightarrow> Some (takeWhile (\<lambda>c. c \<noteq> CHR ''/'') a)) \<and>
     pi_endpoints q = (case pt_endpoints p of Some l \<Rightarrow> l | None \<Rightarrow> []) \<and>
     pi_hostname q = (case Option.bind (pt_hostinfo p) hi_hostname of Some n \<Rightarrow> n | None \<Rightarrow> ''?'') \<and>
     pi_mapping_varies q = Option.bind (Option.bind (pt_hostinfo p) hi_net_info) ni_mapping_varies_by_dest_ip"

lemma hex_range:
  assumes "lo \<le> of_char c" and "of_char c \<le> (hi :: nat)"
  shows "c \<in> set (map char_of [lo..<Suc hi])"
proof -
  have "c = char_of (of_char c :: nat)" by simp
  then show ?thesis using assms unfolding set_map by (intro image_eqI [of c char_of "of_char c"]) auto
qed

lemma hex_val_digit: "hex_val (of_char c) = map_option of_nat (digit_value c)"
proof (cases "c \<in> set ''0123456789abcdefABCDEF''")
  case True
  then show ?thesis by (elim set_ConsD [THEN disjE]) (auto simp: hex_val_def digit_value_def)
next
  case False
  define n :: nat where "n = of_char c"
  have n: "(of_char c :: u8) = of_nat n" "n < 256" by (cases c; simp add: n_def)+
  have le: "a \<le> (of_char c :: u8) \<longleftrightarrow> unat a \<le> n" "(of_char c :: u8) \<le> a \<longleftrightarrow> n \<le> unat a" for a
    using n by (simp_all add: word_le_nat_alt take_bit_eq_mod unat_of_nat)
  have "set (map char_of [48..<Suc 57]) \<union> set (map char_of [97..<Suc 102]) \<union> set (map char_of [65..<Suc 70]) =
      set ''0123456789abcdefABCDEF''"
    by code_simp
  then have "\<not> (48 \<le> n \<and> n \<le> 57)" "\<not> (97 \<le> n \<and> n \<le> 102)" "\<not> (65 \<le> n \<and> n \<le> 70)"
    using False hex_range [of 48 c 57] hex_range [of 97 c 102] hex_range [of 65 c 70] unfolding n_def by blast+
  then have "hex_val (of_char c) = None" by (simp add: hex_val_def le)
  moreover have "digit_value c = None" using False by (simp add: digit_value_def)
  ultimately show ?thesis by simp
qed

lemma digit_value_less: "digit_value c = Some v \<Longrightarrow> v < 16"
  by (drule map_of_SomeD [OF fun_cong [OF digit_value_def, symmetric, THEN trans]]) auto

lemma byte_of_digits:
  assumes "hi < 16" and "lo < 16"
  shows "push_bit 4 (of_nat hi) OR of_nat lo = (b :: u8) \<longleftrightarrow> hi = unat b div 16 \<and> lo = unat b mod 16"
proof -
  define x :: u8 where "x = of_nat (16 * hi + lo)"
  have x: "unat x = 16 * hi + lo" using assms unfolding x_def unat_of_nat by simp
  have m: "x AND 0xf = take_bit 4 x" by (simp add: take_bit_eq_mask mask_eq_exp_minus_1)
  have "unat (drop_bit 4 x) = hi" using assms by (simp only: unat_drop_bit_eq x) (simp add: drop_bit_eq_div)
  then have hi: "drop_bit 4 x = of_nat hi" by (metis of_nat_unat ucast_id)
  have "unat (x AND 0xf) = lo"
    unfolding m using assms by (simp only: unsigned_take_bit_eq x) (simp add: take_bit_eq_mod)
  then have lo: "x AND 0xf = of_nat lo" by (metis of_nat_unat ucast_id)
  have "x = b \<longleftrightarrow> 16 * hi + lo = unat b" unfolding x [symmetric] by (rule word_eq_iff_unsigned)
  also have "16 * hi + lo = u \<longleftrightarrow> hi = u div 16 \<and> lo = u mod 16" for u using assms by auto
  finally show ?thesis using byte_nibbles [of x] unfolding hi lo by simp
qed

lemma spells_Cons:
  "spells hex (b # k) \<longleftrightarrow> (\<exists>c d r. hex = c # d # r \<and> digit_value c = Some (unat b div 16) \<and>
     digit_value d = Some (unat b mod 16) \<and> spells r k)"
proof -
  have "length hex = 2 * length (b # k) \<longleftrightarrow> (\<exists>c d r. hex = c # d # r \<and> length r = 2 * length k)"
    by (cases hex; cases "tl hex") auto
  then show ?thesis by (auto simp: spells_def All_less_Suc2)
qed

lemma hex_pairs_spells: "hex_pairs (ascii hex) = Some k \<longleftrightarrow> spells hex k"
proof (induction k arbitrary: hex)
  case Nil
  have "hex_pairs (ascii hex) = Some [] \<longleftrightarrow> hex = []"
    using hex_pairs_length [of "ascii hex" "[]"] by (auto simp: ascii_def)
  then show ?case by (simp add: spells_def)
next
  case (Cons b k)
  have "hex_pairs (ascii (c # d # r)) = Some (b # k) \<longleftrightarrow>
      digit_value c = Some (unat b div 16) \<and> digit_value d = Some (unat b mod 16) \<and> spells r k" for c d r
    using digit_value_less [of c] digit_value_less [of d]
    by (auto simp: ascii_def hex_val_digit byte_of_digits simp flip: Cons.IH split: option.splits)
  moreover have "\<exists>c d r. hex = c # d # r" if "hex_pairs (ascii hex) = Some (b # k)"
    using that hex_pairs_length [OF that] by (cases hex; cases "tl hex") (auto simp: ascii_def)
  ultimately show ?case unfolding spells_Cons by blast
qed

subsection \<open>The peer list in closed form\<close>

definition usable_key :: "string option \<Rightarrow> bytes option" where
  "usable_key k = (case k of None \<Rightarrow> None | Some s \<Rightarrow>
     let hex = last (split_on CHR '':'' s) in if length hex = 64 then hex_pairs (ascii hex) else None)"

lemma as_deref_parse: "as_deref_and_then k parse_keyed_hex = Some (usable_key k)"
  by (simp add: as_deref_and_then_def usable_key_def parse_keyed_hex_eq split: option.split)

lemma usable_key_length: "usable_key k = Some b \<Longrightarrow> length b = 32"
  by (auto simp: usable_key_def Let_def dest: hex_pairs_length split: option.splits if_splits)

lemma usable_key_iff: "usable_key s = Some k \<longleftrightarrow> key_named s k"
proof (cases s)
  case (Some t)
  let ?hex = "last (split_on CHR '':'' t)"
  have "?hex = hex" if "t = hex \<or> t = kind @ CHR '':'' # hex" "CHR '':'' \<notin> set hex" for kind hex
    using that by (auto simp: split_on_append split_on_none)
  moreover have "CHR '':'' \<notin> set ?hex" using split_on_parts [OF last_in_set [OF split_on_nonempty]] .
  moreover obtain kind where "t = ?hex \<or> t = kind @ CHR '':'' # ?hex" using last_split_on [of t "CHR '':''"] by metis
  ultimately have "key_named s k \<longleftrightarrow> length k = 32 \<and> spells ?hex k"
    unfolding key_named_def Some option.inject by metis
  moreover have "usable_key s = Some k \<longleftrightarrow> length ?hex = 64 \<and> spells ?hex k"
    by (simp add: usable_key_def Some Let_def flip: hex_pairs_spells)
  moreover have "length ?hex = 2 * length k" if "spells ?hex k" using that unfolding spells_def by blast
  ultimately show ?thesis by auto
qed (simp add: usable_key_def key_named_def)

lemma key_named_usable: "(\<exists>k. key_named s k) \<longleftrightarrow> usable_key s \<noteq> None"
  by (simp flip: usable_key_iff)

lemma first_address_cut:
  "List.find (\<lambda>a. starts_with a ''100.'') (map (\<lambda>a. hd (split_on CHR ''/'' a)) as) =
    (case filter (\<lambda>a. take 4 a = ''100.'') as of [] \<Rightarrow> None | a # _ \<Rightarrow> Some (takeWhile (\<lambda>c. c \<noteq> CHR ''/'') a))"
proof -
  have "starts_with (takeWhile (\<lambda>c. c \<noteq> CHR ''/'') a) ''100.'' \<longleftrightarrow> take 4 a = ''100.''" for a
    by (cases a; cases "tl a"; cases "tl (tl a)"; cases "tl (tl (tl a))") (auto simp: starts_with_def)
  then show ?thesis by (induction as) (simp_all add: hd_split_on)
qed

lemma parse_peer_total: "\<exists>r. parse_peer p = Some r"
  by (simp add: parse_peer_def as_deref_parse Let_def split: option.split)

lemma parse_peer_kept:
  assumes "parse_peer p = Some (Some q)"
  shows "usable_key (pt_key p) = Some (pi_node_key q)" and "usable_key (pt_disco_key p) = Some (pi_disco_key q)"
    and "pi_endpoints q = unwrap_or_default (pt_endpoints p)"
    and "pi_tailscale_ip q = Some ip \<Longrightarrow> starts_with ip ''100.'' \<and> CHR ''/'' \<notin> set ip"
proof -
  show "usable_key (pt_key p) = Some (pi_node_key q)" and "usable_key (pt_disco_key p) = Some (pi_disco_key q)"
    and "pi_endpoints q = unwrap_or_default (pt_endpoints p)"
    using assms by (auto simp: parse_peer_def as_deref_parse Let_def split: option.splits)
  assume "pi_tailscale_ip q = Some ip"
  then have "List.find (\<lambda>a. starts_with a ''100.'')
      (map (\<lambda>a. hd (split_on CHR ''/'' a)) (unwrap_or_default (pt_addresses p))) = Some ip"
    using assms by (auto simp: parse_peer_def as_deref_parse Let_def split: option.splits)
  then have "starts_with ip ''100.''" "\<exists>a. ip = hd (split_on CHR ''/'' a)"
    by (auto simp: find_Some_iff nth_map)
  then show "starts_with ip ''100.'' \<and> CHR ''/'' \<notin> set ip"
    using split_on_parts [OF hd_in_set [OF split_on_nonempty]] by auto
qed

lemma parse_peer_dropped:
  "parse_peer p = Some None \<longleftrightarrow> usable_key (pt_key p) = None \<or> usable_key (pt_disco_key p) = None"
  by (auto simp: parse_peer_def as_deref_parse Let_def split: option.splits)

lemma parse_peers_list:
  "filter_map_p parse_peer ps = Some out \<Longrightarrow>
     length out = length (filter (\<lambda>p. usable_key (pt_key p) \<noteq> None \<and> usable_key (pt_disco_key p) \<noteq> None) ps) \<and>
     (\<forall>q \<in> set out. \<exists>p \<in> set ps. parse_peer p = Some (Some q))"
proof (induction ps arbitrary: out)
  case (Cons p ps)
  obtain r rs where r: "parse_peer p = Some r" "filter_map_p parse_peer ps = Some rs"
      "out = (case r of Some y \<Rightarrow> y # rs | None \<Rightarrow> rs)"
    using Cons.prems by (auto simp: bind_eq_Some_conv)
  show ?case
  proof (cases r)
    case None
    then show ?thesis using r Cons.IH [OF r(2)] parse_peer_dropped [of p] by auto
  next
    case (Some q)
    then have "usable_key (pt_key p) \<noteq> None" "usable_key (pt_disco_key p) \<noteq> None"
      using parse_peer_kept(1,2) [of p q] r(1) by simp_all
    then show ?thesis using Some r Cons.IH [OF r(2)] by auto
  qed
qed simp

lemma parse_peer_describes:
  assumes "parse_peer p = Some (Some q)"
  shows "describes p q"
proof -
  have "pi_tailscale_ip q = List.find (\<lambda>a. starts_with a ''100.'')
      (map (\<lambda>a. hd (split_on CHR ''/'' a)) (unwrap_or_default (pt_addresses p)))"
    and "pi_hostname q = (case Option.bind (pt_hostinfo p) hi_hostname of Some n \<Rightarrow> n | None \<Rightarrow> ''?'')"
    and "pi_mapping_varies q = Option.bind (Option.bind (pt_hostinfo p) hi_net_info) ni_mapping_varies_by_dest_ip"
    using assms by (auto simp: parse_peer_def as_deref_parse Let_def split: option.splits)
  then show ?thesis using parse_peer_kept(1-3) [OF assms]
    unfolding describes_def first_address_cut usable_key_iff unwrap_or_default_def by blast
qed

lemma parse_peers_describe:
  "filter_map_p parse_peer ps = Some out \<Longrightarrow>
     list_all2 describes (filter (\<lambda>p. (\<exists>k. key_named (pt_key p) k) \<and> (\<exists>k. key_named (pt_disco_key p) k)) ps) out"
proof (induction ps arbitrary: out)
  case (Cons p ps)
  obtain r rs where r: "parse_peer p = Some r" "filter_map_p parse_peer ps = Some rs"
      "out = (case r of Some y \<Rightarrow> y # rs | None \<Rightarrow> rs)"
    using Cons.prems by (auto simp: bind_eq_Some_conv)
  show ?case
    using r Cons.IH [OF r(2)] parse_peer_dropped [of p] parse_peer_describes [of p]
    by (cases r) (auto simp: key_named_usable)
qed simp

subsection \<open>Properties\<close>

text \<open>
  C20. The packet filter decides as the netmap's rules say: when the map carries rules, an inner
  IPv4 packet passes exactly if some rule has a destination that is the wildcard or a prefix
  containing our address and a source that is the wildcard or a prefix containing the packet's
  source address; and a prefix \<open>a.b.c.d/n\<close> is read as it is written. The check never panics.
\<close>

theorem acl_decides:
  assumes "json raw = Some f" and "fr_packet_filter f = Some rules"
    and "16 \<le> length p" and "drop_bit 4 (p ! 0) = 4"
  shows "src_allowed (parse_allowed_srcs json raw (show_ipv4 our)) p =
      Some (\<exists>rule \<in> set rules. rule_permits our (from_be_bytes (sub p 12 16)) rule) \<and>
    (n \<le> 32 \<longrightarrow> entry_prefix (show_ipv4 net @ CHR ''/'' # show_nat n) = Some (net, n))"
proof -
  have "parse_allowed_srcs json raw (show_ipv4 our) = Some (rule_loop our [] rules)"
    using assms(1,2) by (simp add: parse_allowed_srcs_def parse_cidr_host)
  moreover have "cidr_match [] ip = False" for ip by (simp add: cidr_match_def)
  moreover have "entry_prefix (show_ipv4 net @ CHR ''/'' # show_nat n) = Some (net, n)" if "n \<le> 32"
  proof -
    have "CHR ''/'' \<notin> set (show_ipv4 net)"
      using not_in_show_nat [of "CHR ''/''"] by (simp add: show_ipv4_def is_digit_def to_be_bytes_32)
    then show ?thesis
      using that by (simp add: entry_prefix_def split_once_sep parse_show_ipv4 parse_show_u32 unat_of_nat)
  qed
  ultimately show ?thesis using assms(3,4) by (simp add: src_allowed_eq rule_loop_match)
qed

definition sample_rule :: filter_rule where
  "sample_rule = \<lparr> fr_src_ips = Some [''100.64.0.0/10''], fr_dst_ports = Some [\<lparr> npr_ip = Some ''*'' \<rparr>] \<rparr>"

definition sample_filter :: filter_resp where
  "sample_filter = \<lparr> fr_packet_filter = Some [sample_rule] \<rparr>"

definition sample_inner :: bytes where
  "sample_inner = [0x45, 0, 0, 20, 0, 0, 0, 0, 64, 6, 0, 0, 10, 0, 0, 1, 100, 64, 0, 2]"

lemma sample_rule_denies: "\<not> rule_permits 0x64400002 (from_be_bytes [10, 0, 0, 1]) sample_rule"
proof -
  have "entry_prefix ''100.64.0.0/10'' = Some (0x64400000, 10)"
    by (simp add: entry_prefix_def parse_ipv4_def parse_octet_def parse_u32_def is_digit_def
        from_be_bytes_def from_le_bytes.simps push_bit_eq_mult)
  moreover have "drop_bit 22 (0x0a000001 :: u32) \<noteq> drop_bit 22 0x64400000" by simp
  ultimately show ?thesis
    by (simp add: rule_permits_def sample_rule_def unwrap_or_default_def entry_covers_def
        from_be_bytes_def from_le_bytes.simps push_bit_eq_mult)
qed

theorem acl_decides_witness:
  "src_allowed (parse_allowed_srcs (\<lambda>_. Some sample_filter) [] (show_ipv4 0x64400002)) sample_inner = Some False"
proof -
  have p: "sub sample_inner 12 16 = [10, 0, 0, 1]" by (simp add: sample_inner_def sub_def)
  with sample_rule_denies acl_decides [of "\<lambda>_. Some sample_filter" "[]" sample_filter "[sample_rule]" sample_inner "0x64400002"]
  show ?thesis by (simp add: sample_filter_def, simp add: sample_inner_def)
qed

text \<open>
  What the filter does not cover: with whatever access list, a packet that is not IPv4 (an
  IPv6 packet of the tunnel, in particular) is let through; and when our own address is not known
  as an IPv4 address, or the map cannot be decoded, the list is off and everything passes, even
  if the map carries rules.
\<close>

theorem acl_gaps:
  "(drop_bit 4 (p ! 0) \<noteq> 4 \<longrightarrow> src_allowed allowed p = Some True) \<and>
   (json raw = None \<or> parse_cidr (our_ip @ ''/32'') = None \<longrightarrow>
      src_allowed (parse_allowed_srcs json raw our_ip) q = Some True)"
  by (cases "json raw"; cases allowed) (auto simp: src_allowed_eq parse_allowed_srcs_def bind_eq_None_conv split: option.split)

theorem acl_gaps_witness:
  "src_allowed (Some []) [0x60, 0, 0, 0, 0, 0, 0, 0, 0, 0, 0, 0, 0, 0, 0, 0] = Some True \<and>
   src_allowed (parse_allowed_srcs (\<lambda>_. Some sample_filter) [] ''100.64.0'') sample_inner = Some True"
  using acl_gaps [of "[0x60, 0, 0, 0, 0, 0, 0, 0, 0, 0, 0, 0, 0, 0, 0, 0]" "Some []"
      "\<lambda>_. Some sample_filter" "[]" "''100.64.0''" sample_inner]
  by (simp add: parse_cidr_def parse_ipv4_def parse_u32_def is_digit_def)

text \<open>
  C26. The peer list is what the map says: decoding never panics, a map that is no JSON of the
  expected shape is an error, and otherwise exactly the peers are kept, in order, whose node key
  and disco key are both 64 hexadecimal digits after the type prefix. Each one has the two keys
  these digits spell, its first address that starts with \<open>100.\<close> without the prefix length, and the
  endpoints, host name and NAT class of its entry, with the defaults for what is missing.
\<close>

theorem peers_usable:
  "(json raw = None \<longrightarrow> parse_peers json raw = Some (Inl ParseMapResponse)) \<and>
   (\<forall>m. json raw = Some m \<longrightarrow> (\<exists>out. parse_peers json raw = Some (Inr out) \<and>
      list_all2 describes
        (filter (\<lambda>p. (\<exists>k. key_named (pt_key p) k) \<and> (\<exists>k. key_named (pt_disco_key p) k))
          (case mr_peers m of Some ps \<Rightarrow> ps | None \<Rightarrow> [])) out))"
proof -
  have "\<exists>out. filter_map_p parse_peer ps = Some out" for ps
    using parse_peer_total filter_map_p_total [of parse_peer "\<lambda>p. the (parse_peer p)" ps] by fastforce
  then obtain out where "filter_map_p parse_peer ps = Some (out ps)" for ps by metis
  then show ?thesis using parse_peers_describe [of _ "out _"]
    by (simp add: parse_peers_def unwrap_or_default_def)
qed

definition sample_peer :: peer_t where
  "sample_peer = \<lparr> pt_key = Some (''nodekey:'' @ concat (replicate 32 ''a5'')),
     pt_disco_key = Some (concat (replicate 32 ''0F'')),
     pt_addresses = Some [''fd7a::1/128'', ''100.64.0.9/32''], pt_endpoints = None, pt_hostinfo = None \<rparr>"

lemma spells_replicate:
  "digit_value c = Some (unat b div 16) \<Longrightarrow> digit_value d = Some (unat b mod 16) \<Longrightarrow>
     spells (concat (replicate n [c, d])) (replicate n b)"
  by (induction n) (simp_all add: spells_Cons, simp add: spells_def)

lemma sample_peer_keys: "key_named (pt_key sample_peer) (replicate 32 0xa5)" "key_named (pt_disco_key sample_peer) (replicate 32 0x0f)"
proof -
  have c: "CHR '':'' \<notin> set (concat (replicate n [c, d]))" if "c \<noteq> CHR '':''" "d \<noteq> CHR '':''" for n and c d :: char
    using that by (induction n) auto
  have "spells (concat (replicate 32 ''a5'')) (replicate 32 0xa5)" "spells (concat (replicate 32 ''0F'')) (replicate 32 0x0f)"
    by (intro spells_replicate; simp add: digit_value_def)+
  moreover have "pt_key sample_peer = Some (''nodekey'' @ CHR '':'' # concat (replicate 32 ''a5''))"
      "pt_disco_key sample_peer = Some (concat (replicate 32 ''0F''))" by (simp_all add: sample_peer_def)
  moreover have "CHR '':'' \<notin> set (concat (replicate 32 ''a5''))" "CHR '':'' \<notin> set (concat (replicate 32 ''0F''))"
    by (intro c; simp)+
  ultimately show "key_named (pt_key sample_peer) (replicate 32 0xa5)" "key_named (pt_disco_key sample_peer) (replicate 32 0x0f)"
    unfolding key_named_def length_replicate by metis+
qed

theorem peers_usable_witness:
  "parse_peers (\<lambda>_. Some \<lparr> mr_peers = Some [sample_peer, sample_peer\<lparr>pt_key := None\<rparr>] \<rparr>) [] =
     Some (Inr [\<lparr> pi_node_key = replicate 32 0xa5, pi_disco_key = replicate 32 0x0f, pi_tailscale_ip = Some ''100.64.0.9'',
       pi_endpoints = [], pi_hostname = ''?'', pi_mapping_varies = None \<rparr>])"
proof -
  let ?m = "\<lparr> mr_peers = Some [sample_peer, sample_peer\<lparr>pt_key := None\<rparr>] \<rparr>"
  have "\<not> Ex (key_named None)" by (auto simp: key_named_def)
  moreover have "Ex (key_named (pt_key sample_peer))" "Ex (key_named (pt_disco_key sample_peer))"
    using sample_peer_keys by blast+
  ultimately obtain q where q: "parse_peers (\<lambda>_. Some ?m) [] = Some (Inr [q])" "describes sample_peer q"
    using peers_usable [of "\<lambda>_. Some ?m" "[]"] by (auto simp: list_all2_Cons1 simp del: not_ex split: if_splits)
  have "pi_node_key q = replicate 32 0xa5" "pi_disco_key q = replicate 32 0x0f"
    using q(2) sample_peer_keys unfolding describes_def by (metis option.inject usable_key_iff)+
  then have "q = \<lparr> pi_node_key = replicate 32 0xa5, pi_disco_key = replicate 32 0x0f, pi_tailscale_ip = Some ''100.64.0.9'',
       pi_endpoints = [], pi_hostname = ''?'', pi_mapping_varies = None \<rparr>"
    using q(2) by (simp add: describes_def sample_peer_def)
  with q(1) show ?thesis by simp
qed

end
