(* ===== verification/Wg.thy ===== *)
theory Wg
  imports Rust_Text
begin

text \<open>
  \<^verbatim>\<open>core/src/wg.rs\<close>: the WireGuard handshake (\<open>Noise_IKpsk2\<close>, initiator and responder) and the
  transport packets. The hash, the Diffie-Hellman function and the AEAD come from the
  crates \<open>blake2\<close>, \<open>x25519-dalek\<close> and \<open>chacha20poly1305\<close>; they are the fields of the
  record \<open>wg_crypto\<close>, an argument of every operation, and \<open>wg_crypto_ok\<close> collects the
  documented laws the code relies on (output lengths, commutation of Diffie-Hellman,
  opening what was sealed). Randomness is an argument too: the ephemeral private key
  and the local index that the code draws from \<open>getrandom\<close>.
\<close>

subsection \<open>The cryptographic crates\<close>

record wg_crypto =
  blake2s :: "bytes \<Rightarrow> bytes"
  blake2s_mac :: "bytes \<Rightarrow> bytes \<Rightarrow> bytes"
  x25519 :: "bytes \<Rightarrow> bytes \<Rightarrow> bytes"
  x25519_public :: "bytes \<Rightarrow> bytes"
  chacha_encrypt :: "bytes \<Rightarrow> bytes \<Rightarrow> bytes \<Rightarrow> bytes \<Rightarrow> bytes"
  chacha_decrypt :: "bytes \<Rightarrow> bytes \<Rightarrow> bytes \<Rightarrow> bytes \<Rightarrow> bytes option"

definition wg_crypto_lengths :: "wg_crypto \<Rightarrow> bool" where
  "wg_crypto_lengths C \<longleftrightarrow>
     (\<forall>d. length (blake2s C d) = 32) \<and>
     (\<forall>k d. length (blake2s_mac C k d) = 16) \<and>
     (\<forall>a b. length (x25519 C a b) = 32) \<and>
     (\<forall>a. length (x25519_public C a) = 32) \<and>
     (\<forall>k n aad m. length (chacha_encrypt C k n aad m) = length m + 16)"

definition wg_crypto_ok :: "wg_crypto \<Rightarrow> bool" where
  "wg_crypto_ok C \<longleftrightarrow> wg_crypto_lengths C \<and>
     (\<forall>a b. length a = 32 \<longrightarrow> length b = 32 \<longrightarrow>
        x25519 C a (x25519_public C b) = x25519 C b (x25519_public C a)) \<and>
     (\<forall>k n aad m. chacha_decrypt C k n aad (chacha_encrypt C k n aad m) = Some m)"

subsection \<open>Constants, errors and state\<close>

definition CONSTRUCTION :: bytes where
  "CONSTRUCTION = ascii ''Noise_IKpsk2_25519_ChaChaPoly_BLAKE2s''"

definition IDENTIFIER :: bytes where
  "IDENTIFIER = ascii ''WireGuard v1 zx2c4 Jason@zx2c4.com''"

definition LABEL_MAC1 :: bytes where
  "LABEL_MAC1 = ascii ''mac1----''"

definition ZERO_PSK :: bytes where
  "ZERO_PSK = replicate 32 0"

abbreviation MSG_INITIATION :: u8 where "MSG_INITIATION \<equiv> 1"
abbreviation MSG_RESPONSE :: u8 where "MSG_RESPONSE \<equiv> 2"
abbreviation MSG_TRANSPORT :: u8 where "MSG_TRANSPORT \<equiv> 4"

datatype wg_error =
    InitTooShort nat
  | NotInitiation u8
  | InitStaticDecrypt
  | InitStaticSize
  | InitTimestampDecrypt
  | ResponseTooShort nat
  | NotResponse u8
  | ReceiverIndex u32 u32
  | ResponseAuthFailed
  | ResponsePayloadNotEmpty
  | TransportTooShort nat
  | NotTransport
  | TransportAuthFailed

record handshake =
  hs_chaining :: bytes
  hs_hash :: bytes
  hs_eph_priv :: bytes
  hs_our_static_priv :: bytes
  hs_our_index :: u32

record tunnel =
  tun_send_key :: bytes
  tun_recv_key :: bytes
  tun_their_index :: u32
  tun_our_index :: u32
  tun_tx_counter :: u64

subsection \<open>Primitives\<close>

definition hash :: "wg_crypto \<Rightarrow> bytes list \<Rightarrow> bytes" where
  "hash C parts = blake2s C (concat parts)"

definition mac16 :: "wg_crypto \<Rightarrow> bytes \<Rightarrow> bytes \<Rightarrow> bytes" where
  "mac16 C key data = blake2s_mac C key data"

definition hmac :: "wg_crypto \<Rightarrow> bytes \<Rightarrow> bytes \<Rightarrow> bytes" where
  "hmac C key data =
    (let k = (if length key > 64 then put (replicate 64 0) 0 (hash C [key])
              else put (replicate 64 0) 0 key);
         ipad = map2 (XOR) (replicate 64 0x36) k;
         opad = map2 (XOR) (replicate 64 0x5c) k;
         inner = hash C [ipad, data]
     in hash C [opad, inner])"

definition kdf1 :: "wg_crypto \<Rightarrow> bytes \<Rightarrow> bytes \<Rightarrow> bytes" where
  "kdf1 C key input = (let t0 = hmac C key input in hmac C t0 [0x01])"

definition kdf2 :: "wg_crypto \<Rightarrow> bytes \<Rightarrow> bytes \<Rightarrow> bytes \<times> bytes" where
  "kdf2 C key input =
    (let t0 = hmac C key input;
         t1 = hmac C t0 [0x01];
         t2 = hmac C t0 (t1 @ [0x02])
     in (t1, t2))"

definition kdf3 :: "wg_crypto \<Rightarrow> bytes \<Rightarrow> bytes \<Rightarrow> bytes \<times> bytes \<times> bytes" where
  "kdf3 C key input =
    (let t0 = hmac C key input;
         t1 = hmac C t0 [0x01];
         t2 = hmac C t0 (t1 @ [0x02]);
         t3 = hmac C t0 (t2 @ [0x03])
     in (t1, t2, t3))"

definition dh :: "wg_crypto \<Rightarrow> bytes \<Rightarrow> bytes \<Rightarrow> bytes" where
  "dh C priv pub = x25519 C priv pub"

definition pubkey :: "wg_crypto \<Rightarrow> bytes \<Rightarrow> bytes" where
  "pubkey C priv = x25519_public C priv"

definition le_nonce :: "u64 \<Rightarrow> bytes" where
  "le_nonce counter = put (replicate 12 0) 4 (to_le_bytes counter)"

definition seal :: "wg_crypto \<Rightarrow> bytes \<Rightarrow> u64 \<Rightarrow> bytes \<Rightarrow> bytes \<Rightarrow> bytes" where
  "seal C key counter pt aad = chacha_encrypt C key (le_nonce counter) aad pt"

definition wg_open :: "wg_crypto \<Rightarrow> bytes \<Rightarrow> u64 \<Rightarrow> bytes \<Rightarrow> bytes \<Rightarrow> bytes option" where
  "wg_open C key counter ct aad = chacha_decrypt C key (le_nonce counter) aad ct"

definition tai64n :: "u64 \<Rightarrow> u32 \<Rightarrow> bytes" where
  "tai64n unix_secs nanos =
    (let secs = 0x400000000000000a + unix_secs;
         out = replicate 12 0;
         out = put out 0 (to_be_bytes secs)
     in put out 8 (to_be_bytes nanos))"

subsection \<open>The handshake\<close>

definition build_initiation ::
  "wg_crypto \<Rightarrow> bytes \<Rightarrow> bytes \<Rightarrow> bytes \<Rightarrow> bytes \<Rightarrow> u32 \<Rightarrow> bytes \<Rightarrow> (bytes \<times> handshake) panics" where
  "build_initiation C our_static_priv our_static_pub peer_static_pub timestamp our_index eph_priv = do {
     let msg = (replicate 148 0)[0 := MSG_INITIATION];
     msg \<leftarrow> copy_from msg 4 8 (to_le_bytes our_index);
     let c = hash C [CONSTRUCTION];
     let h = hash C [c, IDENTIFIER];
     let h = hash C [h, peer_static_pub];
     let eph_pub = pubkey C eph_priv;
     let c = kdf1 C c eph_pub;
     msg \<leftarrow> copy_from msg 8 40 eph_pub;
     let h = hash C [h, eph_pub];
     let (c, k) = kdf2 C c (dh C eph_priv peer_static_pub);
     let enc_static = seal C k 0 our_static_pub h;
     msg \<leftarrow> copy_from msg 40 88 enc_static;
     let h = hash C [h, enc_static];
     let (c, k2) = kdf2 C c (dh C our_static_priv peer_static_pub);
     let enc_ts = seal C k2 0 timestamp h;
     msg \<leftarrow> copy_from msg 88 116 enc_ts;
     let h = hash C [h, enc_ts];
     let mac1_key = hash C [LABEL_MAC1, peer_static_pub];
     covered \<leftarrow> subslice msg 0 116;
     let mac1 = mac16 C mac1_key covered;
     msg \<leftarrow> copy_from msg 116 132 mac1;
     Some (msg, \<lparr>hs_chaining = c, hs_hash = h, hs_eph_priv = eph_priv,
                 hs_our_static_priv = our_static_priv, hs_our_index = our_index\<rparr>)
   }"

definition consume_initiation ::
  "wg_crypto \<Rightarrow> bytes \<Rightarrow> bytes \<Rightarrow> bytes \<Rightarrow> u32 \<Rightarrow> bytes \<Rightarrow>
   (wg_error + bytes \<times> tunnel \<times> bytes) panics" where
  "consume_initiation C our_static_priv our_static_pub init our_index er_priv =
    (if \<not> length init \<ge> 148 then Some (Inl (InitTooShort (length init))) else do {
     typ \<leftarrow> idx init 0;
     if typ \<noteq> MSG_INITIATION then Some (Inl (NotInitiation typ)) else do {
     i4 \<leftarrow> idx init 4;
     i5 \<leftarrow> idx init 5;
     i6 \<leftarrow> idx init 6;
     i7 \<leftarrow> idx init 7;
     let their_index = from_le_bytes [i4, i5, i6, i7];
     e_i \<leftarrow> subslice init 8 40;
     enc_static \<leftarrow> subslice init 40 88;
     enc_ts \<leftarrow> subslice init 88 116;
     let c = hash C [CONSTRUCTION];
     let h = hash C [c, IDENTIFIER];
     let h = hash C [h, our_static_pub];
     let c = kdf1 C c e_i;
     let h = hash C [h, e_i];
     let (c, k) = kdf2 C c (dh C our_static_priv e_i);
     case wg_open C k 0 enc_static h of
       None \<Rightarrow> Some (Inl InitStaticDecrypt)
     | Some s_i \<Rightarrow>
     if length s_i \<noteq> 32 then Some (Inl InitStaticSize) else do {
     let h = hash C [h, enc_static];
     let (c, k2) = kdf2 C c (dh C our_static_priv s_i);
     case wg_open C k2 0 enc_ts h of
       None \<Rightarrow> Some (Inl InitTimestampDecrypt)
     | Some ts \<Rightarrow> do {
     let h = hash C [h, enc_ts];
     let resp = (replicate 92 0)[0 := MSG_RESPONSE];
     resp \<leftarrow> copy_from resp 4 8 (to_le_bytes our_index);
     resp \<leftarrow> copy_from resp 8 12 (to_le_bytes their_index);
     let er_pub = pubkey C er_priv;
     let c = kdf1 C c er_pub;
     resp \<leftarrow> copy_from resp 12 44 er_pub;
     let h = hash C [h, er_pub];
     let c = kdf1 C c (dh C er_priv e_i);
     let c = kdf1 C c (dh C er_priv s_i);
     let (c, tau, k3) = kdf3 C c ZERO_PSK;
     let h = hash C [h, tau];
     let enc_empty = seal C k3 0 [] h;
     resp \<leftarrow> copy_from resp 44 60 enc_empty;
     let mac1_key = hash C [LABEL_MAC1, s_i];
     covered \<leftarrow> subslice resp 0 60;
     let mac1 = mac16 C mac1_key covered;
     resp \<leftarrow> copy_from resp 60 76 mac1;
     let (recv_key, send_key) = kdf2 C c [];
     Some (Inr (resp,
        \<lparr>tun_send_key = send_key, tun_recv_key = recv_key, tun_their_index = their_index,
         tun_our_index = our_index, tun_tx_counter = 0\<rparr>, s_i))
     }}}})"

definition consume_response :: "wg_crypto \<Rightarrow> handshake \<Rightarrow> bytes \<Rightarrow> (wg_error + tunnel) panics" where
  "consume_response C self resp =
    (if \<not> length resp \<ge> 92 then Some (Inl (ResponseTooShort (length resp))) else do {
     typ \<leftarrow> idx resp 0;
     if typ \<noteq> MSG_RESPONSE then Some (Inl (NotResponse typ)) else do {
     r4 \<leftarrow> idx resp 4;
     r5 \<leftarrow> idx resp 5;
     r6 \<leftarrow> idx resp 6;
     r7 \<leftarrow> idx resp 7;
     let their_index = from_le_bytes [r4, r5, r6, r7];
     r8 \<leftarrow> idx resp 8;
     r9 \<leftarrow> idx resp 9;
     r10 \<leftarrow> idx resp 10;
     r11 \<leftarrow> idx resp 11;
     let recv_index = from_le_bytes [r8, r9, r10, r11];
     if recv_index \<noteq> hs_our_index self then Some (Inl (ReceiverIndex recv_index (hs_our_index self))) else do {
     eph_pub_r \<leftarrow> subslice resp 12 44;
     enc_empty \<leftarrow> subslice resp 44 60;
     let c = hs_chaining self;
     let h = hs_hash self;
     let c = kdf1 C c eph_pub_r;
     let h = hash C [h, eph_pub_r];
     let c = kdf1 C c (dh C (hs_eph_priv self) eph_pub_r);
     let c = kdf1 C c (dh C (hs_our_static_priv self) eph_pub_r);
     let (c, tau, k) = kdf3 C c ZERO_PSK;
     let h = hash C [h, tau];
     case wg_open C k 0 enc_empty h of
       None \<Rightarrow> Some (Inl ResponseAuthFailed)
     | Some pt \<Rightarrow>
     if pt \<noteq> [] then Some (Inl ResponsePayloadNotEmpty) else do {
     let (send_key, recv_key) = kdf2 C c [];
     Some (Inr \<lparr>tun_send_key = send_key, tun_recv_key = recv_key, tun_their_index = their_index,
                tun_our_index = hs_our_index self, tun_tx_counter = 0\<rparr>)
     }}}})"

subsection \<open>Transport packets\<close>

text \<open>The padding loop \<^verbatim>\<open>while pt.len() % 16 != 0 { pt.push(0) }\<close>.\<close>

function pad_loop :: "bytes \<Rightarrow> bytes" where
  "pad_loop pt = (if length pt mod 16 \<noteq> 0 then pad_loop (pt @ [0]) else pt)"
  by pat_completeness auto
termination
proof (relation "measure (\<lambda>pt. (16 - length pt mod 16) mod 16)")
  show "wf (measure (\<lambda>pt::bytes. (16 - length pt mod 16) mod 16))" by simp
  fix pt :: bytes
  define r where "r = length pt mod 16"
  assume "length pt mod 16 \<noteq> 0"
  then have r: "r \<noteq> 0" "r < 16" by (simp_all add: r_def)
  have "Suc (length pt) mod 16 = (if Suc r = 16 then 0 else Suc r)"
    by (simp add: mod_Suc r_def)
  with r have "(16 - Suc (length pt) mod 16) mod 16 < (16 - r) mod 16" by auto
  then show "(pt @ [0], pt) \<in> measure (\<lambda>pt. (16 - length pt mod 16) mod 16)" by (simp add: r_def)
qed

declare pad_loop.simps [simp del]

definition encrypt :: "wg_crypto \<Rightarrow> tunnel \<Rightarrow> bytes \<Rightarrow> tunnel \<times> bytes" where
  "encrypt C self inner =
    (let pt = pad_loop inner;
         ct = seal C (tun_send_key self) (tun_tx_counter self) pt [];
         out = [MSG_TRANSPORT] @ [0, 0, 0] @ to_le_bytes (tun_their_index self) @
               to_le_bytes (tun_tx_counter self) @ ct
     in (self\<lparr>tun_tx_counter := tun_tx_counter self + 1\<rparr>, out))"

definition keepalive :: "wg_crypto \<Rightarrow> tunnel \<Rightarrow> tunnel \<times> bytes" where
  "keepalive C self = encrypt C self []"

definition decrypt :: "wg_crypto \<Rightarrow> tunnel \<Rightarrow> bytes \<Rightarrow> (wg_error + bytes) panics" where
  "decrypt C self pkt =
    (if \<not> length pkt \<ge> 32 then Some (Inl (TransportTooShort (length pkt))) else do {
     typ \<leftarrow> idx pkt 0;
     if typ \<noteq> MSG_TRANSPORT then Some (Inl NotTransport) else do {
     ctr \<leftarrow> subslice pkt 8 16;
     let counter = from_le_bytes ctr;
     ct \<leftarrow> subslice pkt 16 (length pkt);
     case wg_open C (tun_recv_key self) counter ct [] of
       None \<Rightarrow> Some (Inl TransportAuthFailed)
     | Some pt \<Rightarrow> Some (Inr pt)
     }})"

definition decrypt_transport :: "wg_crypto \<Rightarrow> bytes \<Rightarrow> bytes \<Rightarrow> bytes option panics" where
  "decrypt_transport C recv_key pkt =
    (if length pkt < 32 then Some None else do {
     typ \<leftarrow> idx pkt 0;
     if typ \<noteq> MSG_TRANSPORT then Some None else do {
     ctr \<leftarrow> subslice pkt 8 16;
     let counter = from_le_bytes ctr;
     ct \<leftarrow> subslice pkt 16 (length pkt);
     Some (wg_open C recv_key counter ct [])
     }})"

subsection \<open>Lemmas\<close>

lemma wg_lengths:
  assumes "wg_crypto_lengths C"
  shows "length (hash C ps) = 32" and "length (mac16 C k d) = 16" and "length (hmac C k d) = 32"
    and "length (kdf1 C k d) = 32" and "length (dh C a b) = 32" and "length (pubkey C a) = 32"
    and "length (seal C k n m aad) = length m + 16"
  using assms by (simp_all add: wg_crypto_lengths_def hash_def mac16_def hmac_def kdf1_def dh_def
      pubkey_def seal_def Let_def)

lemma open_seal: "wg_crypto_ok C \<Longrightarrow> wg_open C k n (seal C k n m aad) aad = Some m"
  by (simp add: wg_crypto_ok_def wg_open_def seal_def)

lemma dh_commute:
  "wg_crypto_ok C \<Longrightarrow> length a = 32 \<Longrightarrow> length b = 32 \<Longrightarrow> dh C a (pubkey C b) = dh C b (pubkey C a)"
  by (simp add: wg_crypto_ok_def dh_def pubkey_def)

lemma wg_crypto_ok_lengths: "wg_crypto_ok C \<Longrightarrow> wg_crypto_lengths C"
  by (simp add: wg_crypto_ok_def)

lemma sub4: "i + 4 \<le> length xs \<Longrightarrow> sub xs i (i + 4) = [xs ! i, xs ! (i + 1), xs ! (i + 2), xs ! (i + 3)]"
  by (rule nth_equalityI) (auto simp: less_Suc_eq numeral_eq_Suc)

subsection \<open>The transcript both sides compute\<close>

text \<open>
  The chaining keys and hashes of the Noise pattern as functions of what both sides know:
  the responder's static key \<open>rs\<close>, the ephemeral keys \<open>E\<close> and \<open>F\<close>, the encrypted fields
  \<open>es\<close> and \<open>et\<close>, and the four Diffie-Hellman values \<open>d1\<close> (es), \<open>d2\<close> (ss), \<open>d3\<close> (ee), \<open>d4\<close> (se).
\<close>

definition hash_e :: "wg_crypto \<Rightarrow> bytes \<Rightarrow> bytes \<Rightarrow> bytes" where
  "hash_e C rs E = hash C [hash C [hash C [hash C [CONSTRUCTION], IDENTIFIER], rs], E]"

definition key_es :: "wg_crypto \<Rightarrow> bytes \<Rightarrow> bytes \<Rightarrow> bytes \<times> bytes" where
  "key_es C E d1 = kdf2 C (kdf1 C (hash C [CONSTRUCTION]) E) d1"

definition key_ss :: "wg_crypto \<Rightarrow> bytes \<Rightarrow> bytes \<Rightarrow> bytes \<Rightarrow> bytes \<times> bytes" where
  "key_ss C E d1 d2 = kdf2 C (fst (key_es C E d1)) d2"

definition hash_ss :: "wg_crypto \<Rightarrow> bytes \<Rightarrow> bytes \<Rightarrow> bytes \<Rightarrow> bytes \<Rightarrow> bytes" where
  "hash_ss C rs E es et = hash C [hash C [hash_e C rs E, es], et]"

definition key_psk :: "wg_crypto \<Rightarrow> bytes \<Rightarrow> bytes \<Rightarrow> bytes \<Rightarrow> bytes \<Rightarrow> bytes \<times> bytes \<times> bytes" where
  "key_psk C c F d3 d4 = kdf3 C (kdf1 C (kdf1 C (kdf1 C c F) d3) d4) ZERO_PSK"

definition hash_psk :: "wg_crypto \<Rightarrow> bytes \<Rightarrow> bytes \<Rightarrow> bytes \<Rightarrow> bytes" where
  "hash_psk C h F tau = hash C [hash C [h, F], tau]"

lemmas transcript_defs = hash_e_def key_es_def key_ss_def hash_ss_def key_psk_def hash_psk_def

definition init_wire :: "wg_crypto \<Rightarrow> u32 \<Rightarrow> bytes \<Rightarrow> bytes \<Rightarrow> bytes \<Rightarrow> bytes \<Rightarrow> bytes" where
  "init_wire C i rs E es et =
    (let m = put (put (put (put ((replicate 148 0)[0 := MSG_INITIATION]) 4 (to_le_bytes i)) 8 E) 40 es) 88 et
     in put m 116 (mac16 C (hash C [LABEL_MAC1, rs]) (sub m 0 116)))"

definition resp_wire :: "wg_crypto \<Rightarrow> u32 \<Rightarrow> u32 \<Rightarrow> bytes \<Rightarrow> bytes \<Rightarrow> bytes \<Rightarrow> bytes" where
  "resp_wire C i j s F ee =
    (let m = put (put (put (put ((replicate 92 0)[0 := MSG_RESPONSE]) 4 (to_le_bytes i)) 8 (to_le_bytes j)) 12 F) 44 ee
     in put m 60 (mac16 C (hash C [LABEL_MAC1, s]) (sub m 0 60)))"

lemma build_initiation_eq:
  fixes C e_i s_i rs S ts
  defines "E \<equiv> pubkey C e_i" and "d1 \<equiv> dh C e_i rs" and "d2 \<equiv> dh C s_i rs"
  defines "es \<equiv> seal C (snd (key_es C E d1)) 0 S (hash_e C rs E)"
  defines "et \<equiv> seal C (snd (key_ss C E d1 d2)) 0 ts (hash C [hash_e C rs E, es])"
  assumes ok: "wg_crypto_lengths C" and "length S = 32" and "length ts = 12"
  shows "build_initiation C s_i S rs ts i e_i =
    Some (init_wire C i rs E es et,
      \<lparr>hs_chaining = fst (key_ss C E d1 d2), hs_hash = hash_ss C rs E es et, hs_eph_priv = e_i,
       hs_our_static_priv = s_i, hs_our_index = i\<rparr>)"
  using assms(7,8)
  by (simp add: build_initiation_def init_wire_def rust_simps wg_lengths [OF ok] split_beta Let_def
      transcript_defs E_def d1_def d2_def es_def et_def)

lemma consume_initiation_eq:
  fixes C init s_r S e_r i
  defines "E \<equiv> sub init 8 40" and "es \<equiv> sub init 40 88" and "et \<equiv> sub init 88 116"
  defines "d1 \<equiv> dh C s_r E" and "F \<equiv> pubkey C e_r"
    and "j \<equiv> from_le_bytes [init ! 4, init ! 5, init ! 6, init ! 7]"
  assumes ok: "wg_crypto_lengths C" and init: "148 \<le> length init" "init ! 0 = MSG_INITIATION"
    and st: "wg_open C (snd (key_es C E d1)) 0 es (hash_e C S E) = Some s_i" "length s_i = 32"
    and ts: "wg_open C (snd (key_ss C E d1 (dh C s_r s_i))) 0 et (hash C [hash_e C S E, es]) = Some stamp"
  defines "K \<equiv> key_psk C (fst (key_ss C E d1 (dh C s_r s_i))) F (dh C e_r E) (dh C e_r s_i)"
  defines "ee \<equiv> seal C (snd (snd K)) 0 [] (hash_psk C (hash_ss C S E es et) F (fst (snd K)))"
  shows "consume_initiation C s_r S init i e_r =
    Some (Inr (resp_wire C i j s_i F ee,
      \<lparr>tun_send_key = snd (kdf2 C (fst K) []), tun_recv_key = fst (kdf2 C (fst K) []),
       tun_their_index = j, tun_our_index = i, tun_tx_counter = 0\<rparr>, s_i))"
  using init st ts
  by (simp add: consume_initiation_def resp_wire_def rust_simps wg_lengths [OF ok] split_beta Let_def
      transcript_defs E_def es_def et_def d1_def F_def j_def K_def ee_def)

lemma consume_response_eq:
  fixes C resp hs
  defines "F \<equiv> sub resp 12 44" and "ee \<equiv> sub resp 44 60"
  defines "K \<equiv> key_psk C (hs_chaining hs) F (dh C (hs_eph_priv hs) F) (dh C (hs_our_static_priv hs) F)"
  assumes resp: "92 \<le> length resp" "resp ! 0 = MSG_RESPONSE"
    and ix: "from_le_bytes [resp ! 8, resp ! 9, resp ! 10, resp ! 11] = hs_our_index hs"
    and op: "wg_open C (snd (snd K)) 0 ee (hash_psk C (hs_hash hs) F (fst (snd K))) = Some []"
  shows "consume_response C hs resp =
    Some (Inr \<lparr>tun_send_key = fst (kdf2 C (fst K) []), tun_recv_key = snd (kdf2 C (fst K) []),
      tun_their_index = from_le_bytes [resp ! 4, resp ! 5, resp ! 6, resp ! 7],
      tun_our_index = hs_our_index hs, tun_tx_counter = 0\<rparr>)"
  using resp ix op
  by (simp add: consume_response_def rust_simps split_beta Let_def key_psk_def hash_psk_def F_def ee_def K_def)

lemma init_wire_fields:
  assumes "wg_crypto_lengths C" "length E = 32" "length es = 48" "length et = 28"
  shows "length (init_wire C i rs E es et) = 148" and "init_wire C i rs E es et ! 0 = MSG_INITIATION"
    and "sub (init_wire C i rs E es et) 4 8 = to_le_bytes i"
    and "sub (init_wire C i rs E es et) 8 40 = E"
    and "sub (init_wire C i rs E es et) 40 88 = es"
    and "sub (init_wire C i rs E es et) 88 116 = et"
    and "sub (init_wire C i rs E es et) 116 132 =
           mac16 C (hash C [LABEL_MAC1, rs]) (sub (init_wire C i rs E es et) 0 116)"
  using assms(2-4)
  by (simp_all add: init_wire_def Let_def wg_lengths [OF assms(1)])

lemma init_wire_mac2:
  assumes "wg_crypto_lengths C" "length E = 32" "length es = 48" "length et = 28"
  shows "sub (init_wire C i rs E es et) 132 148 = replicate 16 0"
  using assms(2-4)
  by (intro nth_equalityI) (simp_all add: init_wire_def Let_def wg_lengths [OF assms(1)])

lemma resp_wire_fields:
  assumes "wg_crypto_lengths C" "length F = 32" "length ee = 16"
  shows "length (resp_wire C i j s F ee) = 92" and "resp_wire C i j s F ee ! 0 = MSG_RESPONSE"
    and "sub (resp_wire C i j s F ee) 4 8 = to_le_bytes i"
    and "sub (resp_wire C i j s F ee) 8 12 = to_le_bytes j"
    and "sub (resp_wire C i j s F ee) 12 44 = F"
    and "sub (resp_wire C i j s F ee) 44 60 = ee"
  using assms(2-3)
  by (simp_all add: resp_wire_def Let_def wg_lengths [OF assms(1)])

lemma index_field:
  assumes "i + 4 \<le> length xs" and "sub xs i (i + 4) = to_le_bytes (w :: u32)"
  shows "from_le_bytes [xs ! i, xs ! (i + 1), xs ! (i + 2), xs ! (i + 3)] = w"
  using assms sub4 [of i xs] by (metis bytes_roundtrip(5))

lemma key_lengths:
  assumes "wg_crypto_lengths C"
  shows "length (hash_e C rs E) = 32"
  using assms by (simp add: hash_e_def wg_lengths)

subsection \<open>Properties\<close>

lemma handshake_completes:
  assumes ok: "wg_crypto_ok C"
    and len: "length s_i = 32" "length s_r = 32" "length e_i = 32" "length e_r = 32" "length ts = 12"
  shows "\<exists>msg hs resp t_i t_r.
    build_initiation C s_i (pubkey C s_i) (pubkey C s_r) ts i e_i = Some (msg, hs) \<and>
    consume_initiation C s_r (pubkey C s_r) msg j e_r = Some (Inr (resp, t_r, pubkey C s_i)) \<and>
    consume_response C hs resp = Some (Inr t_i) \<and>
    length msg = 148 \<and> msg ! 0 = MSG_INITIATION \<and> sub msg 4 8 = to_le_bytes i \<and>
    length resp = 92 \<and> resp ! 0 = MSG_RESPONSE \<and> sub resp 4 8 = to_le_bytes j \<and> sub resp 8 12 = to_le_bytes i \<and>
    tun_send_key t_i = tun_recv_key t_r \<and> tun_recv_key t_i = tun_send_key t_r \<and>
    tun_their_index t_i = j \<and> tun_our_index t_i = i \<and>
    tun_their_index t_r = i \<and> tun_our_index t_r = j \<and>
    tun_tx_counter t_i = 0 \<and> tun_tx_counter t_r = 0"
proof -
  note lens = wg_crypto_ok_lengths [OF ok]
  let ?E = "pubkey C e_i" and ?S = "pubkey C s_i" and ?R = "pubkey C s_r" and ?F = "pubkey C e_r"
  define d1 where "d1 = dh C e_i ?R"
  define d2 where "d2 = dh C s_i ?R"
  define es where "es = seal C (snd (key_es C ?E d1)) 0 ?S (hash_e C ?R ?E)"
  define et where "et = seal C (snd (key_ss C ?E d1 d2)) 0 ts (hash C [hash_e C ?R ?E, es])"
  define msg where "msg = init_wire C i ?R ?E es et"
  define hs where "hs = \<lparr>hs_chaining = fst (key_ss C ?E d1 d2), hs_hash = hash_ss C ?R ?E es et,
     hs_eph_priv = e_i, hs_our_static_priv = s_i, hs_our_index = i\<rparr>"
  have l: "length ?E = 32" "length ?S = 32" "length ?F = 32" "length es = 48" "length et = 28"
    using len by (simp_all add: wg_lengths [OF lens] es_def et_def)
  have b: "build_initiation C s_i ?S ?R ts i e_i = Some (msg, hs)"
    unfolding msg_def hs_def es_def et_def d1_def d2_def
    by (rule build_initiation_eq) (use lens len l in simp_all)
  note f = init_wire_fields [OF lens l(1,4,5), of i ?R, folded msg_def]
  have j: "from_le_bytes [msg ! 4, msg ! 5, msg ! 6, msg ! 7] = i"
    using index_field [of 4 msg i] f by simp
  have dhs: "dh C s_r ?E = d1" "dh C s_r ?S = d2" "dh C e_r ?E = dh C e_i ?F" "dh C e_r ?S = dh C s_i ?F"
    using len by (simp_all add: d1_def d2_def dh_commute [OF ok])
  define K where "K = key_psk C (fst (key_ss C ?E d1 d2)) ?F (dh C e_i ?F) (dh C s_i ?F)"
  define ee where "ee = seal C (snd (snd K)) 0 [] (hash_psk C (hash_ss C ?R ?E es et) ?F (fst (snd K)))"
  define resp where "resp = resp_wire C j i ?S ?F ee"
  have c: "consume_initiation C s_r ?R msg j e_r = Some (Inr (resp,
      \<lparr>tun_send_key = snd (kdf2 C (fst K) []), tun_recv_key = fst (kdf2 C (fst K) []),
       tun_their_index = i, tun_our_index = j, tun_tx_counter = 0\<rparr>, ?S))"
    using consume_initiation_eq [OF lens, of msg s_r ?R ?S ts j e_r] f l dhs j
    by (simp add: open_seal [OF ok] es_def et_def K_def ee_def resp_def)
  have lee: "length ee = 16" by (simp add: ee_def wg_lengths [OF lens])
  note g = resp_wire_fields [OF lens l(3) lee, of j i ?S, folded resp_def]
  have ix: "from_le_bytes [resp ! 4, resp ! 5, resp ! 6, resp ! 7] = j"
      "from_le_bytes [resp ! 8, resp ! 9, resp ! 10, resp ! 11] = i"
    using index_field [of 4 resp j] index_field [of 8 resp i] g by simp_all
  have "wg_open C (snd (snd K)) 0 ee (hash_psk C (hs_hash hs) ?F (fst (snd K))) = Some []"
    by (simp add: ee_def hs_def open_seal [OF ok])
  then have r: "consume_response C hs resp = Some (Inr
      \<lparr>tun_send_key = fst (kdf2 C (fst K) []), tun_recv_key = snd (kdf2 C (fst K) []),
       tun_their_index = j, tun_our_index = i, tun_tx_counter = 0\<rparr>)"
    using consume_response_eq [of resp hs C] g ix by (simp add: hs_def K_def)
  from b c r f(1-3) g(1-4) show ?thesis by auto
qed

text \<open>
  C15. The handshake of two honest nodes completes and they agree. With any ephemeral keys,
  timestamp and indices, the initiation that \<open>build_initiation\<close> produces is accepted by
  \<open>consume_initiation\<close> at the node it is addressed to, which learns the initiator's static
  public key; the response is accepted by \<open>consume_response\<close>; each side's send key is the
  other's receive key, each side's peer index is the other's own index, and both send
  counters start at zero. No step panics.
\<close>

theorem handshake_agreement:
  assumes ok: "wg_crypto_ok C"
    and len: "length s_i = 32" "length s_r = 32" "length e_i = 32" "length e_r = 32" "length ts = 12"
  shows "\<exists>msg hs resp t_i t_r.
    build_initiation C s_i (pubkey C s_i) (pubkey C s_r) ts i e_i = Some (msg, hs) \<and>
    consume_initiation C s_r (pubkey C s_r) msg j e_r = Some (Inr (resp, t_r, pubkey C s_i)) \<and>
    consume_response C hs resp = Some (Inr t_i) \<and>
    length msg = 148 \<and> length resp = 92 \<and>
    tun_send_key t_i = tun_recv_key t_r \<and> tun_recv_key t_i = tun_send_key t_r \<and>
    tun_their_index t_i = j \<and> tun_our_index t_i = i \<and>
    tun_their_index t_r = i \<and> tun_our_index t_r = j \<and>
    tun_tx_counter t_i = 0 \<and> tun_tx_counter t_r = 0"
proof -
  obtain msg hs resp t_i t_r where
    "build_initiation C s_i (pubkey C s_i) (pubkey C s_r) ts i e_i = Some (msg, hs)"
    "consume_initiation C s_r (pubkey C s_r) msg j e_r = Some (Inr (resp, t_r, pubkey C s_i))"
    "consume_response C hs resp = Some (Inr t_i)" "length msg = 148" "length resp = 92"
    "tun_send_key t_i = tun_recv_key t_r" "tun_recv_key t_i = tun_send_key t_r"
    "tun_their_index t_i = j" "tun_our_index t_i = i" "tun_their_index t_r = i" "tun_our_index t_r = j"
    "tun_tx_counter t_i = 0" "tun_tx_counter t_r = 0"
    using handshake_completes [OF assms] by blast
  then show ?thesis by blast
qed

text \<open>A small instance of the crates' interface that satisfies every law, for the witnesses.\<close>

definition toy_crypto :: wg_crypto where
  "toy_crypto = \<lparr>
     blake2s = (\<lambda>d. replicate 32 (sum_list d)),
     blake2s_mac = (\<lambda>k d. replicate 16 (sum_list k + sum_list d)),
     x25519 = (\<lambda>a b. replicate 32 (sum_list a + sum_list b)),
     x25519_public = (\<lambda>a. sum_list a # replicate 31 0),
     chacha_encrypt = (\<lambda>k n aad m. m @ replicate 16 (sum_list k + sum_list n + sum_list aad + sum_list m)),
     chacha_decrypt = (\<lambda>k n aad ct.
       let m = take (length ct - 16) ct in
       if drop (length ct - 16) ct = replicate 16 (sum_list k + sum_list n + sum_list aad + sum_list m)
       then Some m else None)\<rparr>"

lemma toy_crypto_ok: "wg_crypto_ok toy_crypto"
proof -
  have "sum_list (replicate 31 (0 :: u8)) = 0" by (simp only: sum_list_replicate mult_zero_right)
  then show ?thesis
    by (auto simp: wg_crypto_ok_def wg_crypto_lengths_def toy_crypto_def Let_def
        intro: arg_cong [where f = "replicate 32"] add.commute)
qed

theorem handshake_agreement_witness:
  "\<exists>msg hs resp t_i t_r.
    build_initiation toy_crypto (replicate 32 1) (pubkey toy_crypto (replicate 32 1))
      (pubkey toy_crypto (replicate 32 2)) (tai64n 1700000000 5) 7 (replicate 32 3) = Some (msg, hs) \<and>
    consume_initiation toy_crypto (replicate 32 2) (pubkey toy_crypto (replicate 32 2)) msg 9 (replicate 32 4)
      = Some (Inr (resp, t_r, pubkey toy_crypto (replicate 32 1))) \<and>
    consume_response toy_crypto hs resp = Some (Inr t_i) \<and> tun_send_key t_i = tun_recv_key t_r"
proof -
  have "length (tai64n 1700000000 5) = 12" by (simp add: tai64n_def)
  then show ?thesis
    using handshake_agreement [OF toy_crypto_ok, of "replicate 32 1" "replicate 32 2" "replicate 32 3"
        "replicate 32 4" "tai64n 1700000000 5" 7 9]
    by fastforce
qed

subsection \<open>Transport\<close>

lemma pad_loop_eq: "pad_loop pt = pt @ replicate ((16 - length pt mod 16) mod 16) 0"
proof (induction pt rule: pad_loop.induct)
  case (1 pt)
  define r where "r = length pt mod 16"
  have r: "r < 16" by (simp add: r_def)
  show ?case
  proof (cases "r = 0")
    case True
    then show ?thesis by (simp add: pad_loop.simps [of pt] r_def)
  next
    case False
    have m: "Suc (length pt) mod 16 = (if Suc r = 16 then 0 else Suc r)"
      by (simp add: mod_Suc r_def)
    have "(16 - r) mod 16 = Suc ((16 - Suc (length pt) mod 16) mod 16)"
      using False r m by auto
    with 1 False show ?thesis
      by (simp add: pad_loop.simps [of pt] r_def)
  qed
qed

lemma length_pad_loop: "length (pad_loop pt) mod 16 = 0" "length pt \<le> length (pad_loop pt)"
proof -
  show "length (pad_loop pt) mod 16 = 0"
  proof (induction pt rule: pad_loop.induct)
    case (1 pt)
    then show ?case by (cases "length pt mod 16 = 0") (simp_all add: pad_loop.simps [of pt])
  qed
  show "length pt \<le> length (pad_loop pt)" by (simp add: pad_loop_eq)
qed

lemma take_pad_loop: "take (length pt) (pad_loop pt) = pt"
  by (simp add: pad_loop_eq)

text \<open>The layout of a transport packet: type, reserved bytes, receiver index, counter, box.\<close>

lemma encrypt_wire:
  assumes "encrypt C t inner = (t', out)"
  shows "t' = t\<lparr>tun_tx_counter := tun_tx_counter t + 1\<rparr>"
    and "sub out 0 4 = [MSG_TRANSPORT, 0, 0, 0]"
    and "sub out 4 8 = to_le_bytes (tun_their_index t)"
    and "sub out 8 16 = to_le_bytes (tun_tx_counter t)"
    and "drop 16 out = seal C (tun_send_key t) (tun_tx_counter t) (pad_loop inner) []"
    and "16 \<le> length out"
  using assms by (auto simp: encrypt_def Let_def sub_def)

lemma decrypt_eq:
  "decrypt C t pkt = Some (
     if length pkt < 32 then Inl (TransportTooShort (length pkt))
     else if pkt ! 0 \<noteq> MSG_TRANSPORT then Inl NotTransport
     else case wg_open C (tun_recv_key t) (from_le_bytes (sub pkt 8 16)) (drop 16 pkt) [] of
            None \<Rightarrow> Inl TransportAuthFailed | Some pt \<Rightarrow> Inr pt)"
  by (auto simp: decrypt_def rust_simps Let_def sub_def split: option.splits)

lemma decrypt_transport_eq:
  "decrypt_transport C k pkt = Some (
     if length pkt < 32 \<or> pkt ! 0 \<noteq> MSG_TRANSPORT then None
     else wg_open C k (from_le_bytes (sub pkt 8 16)) (drop 16 pkt) [])"
  by (auto simp: decrypt_transport_def rust_simps Let_def sub_def)

lemma decrypt_encrypt:
  assumes ok: "wg_crypto_ok C" and e: "encrypt C t inner = (t', out)"
    and k: "tun_recv_key u = tun_send_key t"
  shows "decrypt C u out = Some (Inr (pad_loop inner))"
proof -
  note w = encrypt_wire [OF e]
  have "out ! 0 = sub out 0 4 ! 0" using w(6) by simp
  then have t: "out ! 0 = MSG_TRANSPORT" using w(2) by simp
  have "length (drop 16 out) = length (pad_loop inner) + 16"
    using w(5) wg_lengths(7) [OF wg_crypto_ok_lengths [OF ok]] by simp
  then have "32 \<le> length out" by simp
  with t w(4,5) k show ?thesis by (simp add: decrypt_eq open_seal [OF ok])
qed

text \<open>Sending a list of inner packets through one tunnel, in order.\<close>

primrec encrypt_all :: "wg_crypto \<Rightarrow> tunnel \<Rightarrow> bytes list \<Rightarrow> tunnel \<times> bytes list" where
  "encrypt_all C t [] = (t, [])"
| "encrypt_all C t (p # ps) =
     (let (t, w) = encrypt C t p; (t, ws) = encrypt_all C t ps in (t, w # ws))"

lemma encrypt_all_counters:
  assumes "encrypt_all C t ps = (t', ws)"
  shows "length ws = length ps"
    and "k < length ps \<Longrightarrow> sub (ws ! k) 8 16 = to_le_bytes (tun_tx_counter t + of_nat k)"
    and "t' = t\<lparr>tun_tx_counter := tun_tx_counter t + of_nat (length ps)\<rparr>"
    and "k < length ps \<Longrightarrow>
      drop 16 (ws ! k) = seal C (tun_send_key t) (tun_tx_counter t + of_nat k) (pad_loop (ps ! k)) []"
proof -
  have "length ws = length ps \<and> t' = t\<lparr>tun_tx_counter := tun_tx_counter t + of_nat (length ps)\<rparr> \<and>
      (\<forall>k < length ps. sub (ws ! k) 8 16 = to_le_bytes (tun_tx_counter t + of_nat k) \<and>
        drop 16 (ws ! k) = seal C (tun_send_key t) (tun_tx_counter t + of_nat k) (pad_loop (ps ! k)) [])"
    using assms
  proof (induction ps arbitrary: t t' ws)
    case (Cons p ps)
    obtain t1 w where e: "encrypt C t p = (t1, w)" by fastforce
    obtain t2 ws' where r: "encrypt_all C t1 ps = (t2, ws')" by fastforce
    have ws: "ws = w # ws'" "t' = t2" using Cons.prems e r by simp_all
    note w = encrypt_wire [OF e]
    show ?case using Cons.IH [OF r] ws w(1,4,5)
      by (auto simp: nth_Cons less_Suc_eq_0_disj add.assoc split: nat.splits)
  qed simp
  then show "length ws = length ps"
    and "k < length ps \<Longrightarrow> sub (ws ! k) 8 16 = to_le_bytes (tun_tx_counter t + of_nat k)"
    and "t' = t\<lparr>tun_tx_counter := tun_tx_counter t + of_nat (length ps)\<rparr>"
    and "k < length ps \<Longrightarrow>
      drop 16 (ws ! k) = seal C (tun_send_key t) (tun_tx_counter t + of_nat k) (pad_loop (ps ! k)) []"
    by simp_all
qed

text \<open>The nonce of a box is four zero bytes and the counter that stands in the packet's header.\<close>

lemma le_nonce_eq: "le_nonce c = replicate 4 0 @ to_le_bytes c"
  by (simp add: le_nonce_def put_def)

text \<open>
  C16. Transport round trip: whatever one end encrypts, the other end (whose receive key is
  the sender's send key) decrypts, without panic, to the inner packet followed by at most
  fifteen zero bytes; the packet names the receiver's index and the counter used, and the
  sender's counter advances by one.
\<close>

theorem transport_roundtrip:
  assumes "wg_crypto_ok C" and "tun_recv_key u = tun_send_key t"
    and "encrypt C t inner = (t', out)"
  shows "\<exists>pt. decrypt C u out = Some (Inr pt) \<and> take (length inner) pt = inner \<and>
      (\<forall>b \<in> set (drop (length inner) pt). b = 0) \<and>
      length pt mod 16 = 0 \<and> length pt < length inner + 16 \<and>
      sub out 4 8 = to_le_bytes (tun_their_index t) \<and>
      sub out 8 16 = to_le_bytes (tun_tx_counter t) \<and>
      tun_tx_counter t' = tun_tx_counter t + 1"
proof -
  have "length (pad_loop inner) < length inner + 16"
    using mod_less_divisor [of 16 "16 - length inner mod 16"] by (simp add: pad_loop_eq)
  then show ?thesis
    using decrypt_encrypt [OF assms(1,3,2)] encrypt_wire [OF assms(3)] length_pad_loop [of inner]
      take_pad_loop [of inner]
    by (auto simp: pad_loop_eq)
qed

definition toy_tunnel :: tunnel where
  "toy_tunnel = \<lparr>tun_send_key = replicate 32 1, tun_recv_key = replicate 32 1,
     tun_their_index = 7, tun_our_index = 9, tun_tx_counter = 5\<rparr>"

theorem transport_roundtrip_witness:
  "\<exists>pt. decrypt toy_crypto toy_tunnel (snd (encrypt toy_crypto toy_tunnel [1, 2, 3])) = Some (Inr pt) \<and>
        take 3 pt = [1, 2, 3]"
proof -
  have "tun_recv_key toy_tunnel = tun_send_key toy_tunnel" by (simp add: toy_tunnel_def)
  from transport_roundtrip [OF toy_crypto_ok this, of "[1, 2, 3]"] show ?thesis
    by (metis length_Cons list.size(3) numeral_3_eq_3 prod.collapse)
qed

text \<open>
  C17. No AEAD nonce is used twice under a tunnel's key. When any sequence of up to \<open>2^64\<close>
  inner packets is sent through one tunnel, every packet's box is the encryption of that
  packet, padded, under the tunnel's send key and the nonce made of four zero bytes and the
  counter in the packet's own header; and these nonces are pairwise distinct.
\<close>

theorem transport_counters_distinct:
  assumes "encrypt_all C t ps = (t', ws)" and "length ps \<le> 2 ^ 64"
  shows "length ws = length ps \<and>
    (\<forall>k < length ps. drop 16 (ws ! k) =
       chacha_encrypt C (tun_send_key t) (replicate 4 0 @ sub (ws ! k) 8 16) [] (pad_loop (ps ! k))) \<and>
    distinct (map (\<lambda>w. replicate 4 0 @ sub w 8 16) ws)"
proof -
  note c = encrypt_all_counters [OF assms(1)]
  have "tun_tx_counter t + of_nat a \<noteq> tun_tx_counter t + of_nat b"
    if "a < length ps" "b < length ps" "a \<noteq> b" for a b
  proof -
    have "(of_nat a :: u64) \<noteq> of_nat b"
      using that assms(2) by (simp add: word_of_nat_eq_iff take_bit_nat_eq_self)
    then show ?thesis by simp
  qed
  then have "distinct (map (\<lambda>w. replicate 4 0 @ sub w 8 16) ws)" using c(1,2) by (simp add: distinct_conv_nth)
  then show ?thesis using c(1,2,4) by (simp add: seal_def le_nonce_eq)
qed

theorem transport_counters_distinct_witness:
  "\<exists>t ws. encrypt_all toy_crypto toy_tunnel [[1], [1], []] = (t, ws) \<and> length ws = 3 \<and>
     distinct (map (\<lambda>w. replicate 4 0 @ sub w 8 16) ws) \<and>
     drop 16 (ws ! 1) = chacha_encrypt toy_crypto (replicate 32 1) [0, 0, 0, 0, 6, 0, 0, 0, 0, 0, 0, 0] [] (pad_loop [1])"
proof -
  obtain t ws where e: "encrypt_all toy_crypto toy_tunnel [[1], [1], []] = (t, ws)" by fastforce
  have l: "length [[1], [1], [] :: bytes] \<le> 2 ^ 64" by simp
  have "sub (ws ! 1) 8 16 = [6, 0, 0, 0, 0, 0, 0, 0]"
    using encrypt_all_counters(2) [OF e, of 1] by (simp add: toy_tunnel_def to_le_bytes_def upt_rec)
  then show ?thesis using transport_counters_distinct [OF e l] e by (auto simp: toy_tunnel_def numeral_eq_Suc)
qed

text \<open>
  The lock-free decryption of the dual-core path is the tunnel's own: for every packet,
  \<open>decrypt_transport\<close> with the tunnel's receive key returns a plaintext exactly when
  \<open>decrypt\<close> does, and the same one; neither ever panics.
\<close>

theorem decrypt_transport_equiv:
  "decrypt_transport C (tun_recv_key t) pkt =
     map_option (\<lambda>r. case r of Inl _ \<Rightarrow> None | Inr pt \<Rightarrow> Some pt) (decrypt C t pkt) \<and>
   decrypt C t pkt \<noteq> None"
  by (simp add: decrypt_eq decrypt_transport_eq split: option.splits)

lemma consume_initiation_early:
  "length init < 148 \<Longrightarrow> consume_initiation C sp pp init i e = Some (Inl (InitTooShort (length init)))"
  "148 \<le> length init \<Longrightarrow> init ! 0 \<noteq> MSG_INITIATION \<Longrightarrow>
     consume_initiation C sp pp init i e = Some (Inl (NotInitiation (init ! 0)))"
  by (simp_all add: consume_initiation_def rust_simps)

lemma consume_initiation_cases:
  fixes C init sp pp e i
  defines "E \<equiv> sub init 8 40" and "es \<equiv> sub init 40 88" and "et \<equiv> sub init 88 116"
  defines "d1 \<equiv> dh C sp E"
  assumes "148 \<le> length init" "init ! 0 = MSG_INITIATION"
  shows "wg_open C (snd (key_es C E d1)) 0 es (hash_e C pp E) = None \<Longrightarrow>
      consume_initiation C sp pp init i e = Some (Inl InitStaticDecrypt)"
    and "wg_open C (snd (key_es C E d1)) 0 es (hash_e C pp E) = Some s_i \<Longrightarrow> length s_i \<noteq> 32 \<Longrightarrow>
      consume_initiation C sp pp init i e = Some (Inl InitStaticSize)"
    and "wg_open C (snd (key_es C E d1)) 0 es (hash_e C pp E) = Some s_i \<Longrightarrow> length s_i = 32 \<Longrightarrow>
      wg_open C (snd (key_ss C E d1 (dh C sp s_i))) 0 et (hash C [hash_e C pp E, es]) = None \<Longrightarrow>
      consume_initiation C sp pp init i e = Some (Inl InitTimestampDecrypt)"
  using assms(5,6)
  by (simp_all add: consume_initiation_def rust_simps split_beta Let_def transcript_defs
      E_def es_def et_def d1_def)

text \<open>What the callers rely on: the handshake operations return, with messages of fixed size.\<close>

lemma build_initiation_total:
  assumes "wg_crypto_lengths C" and "length S = 32" and "length ts = 12"
  shows "\<exists>msg hs. build_initiation C s_i S rs ts i e_i = Some (msg, hs) \<and> length msg = 148 \<and>
    msg ! 0 = MSG_INITIATION \<and> sub msg 4 8 = to_le_bytes i \<and> hs_our_index hs = i"
  using build_initiation_eq [OF assms, of s_i rs i e_i] assms
  by (simp add: init_wire_fields [OF assms(1)] wg_lengths [OF assms(1)])

lemma consume_initiation_total:
  assumes ok: "wg_crypto_lengths C"
  shows "\<exists>r. consume_initiation C sp pp init i e = Some r \<and>
    (\<forall>resp t s. r = Inr (resp, t, s) \<longrightarrow> length resp = 92 \<and> resp ! 0 = MSG_RESPONSE \<and> tun_our_index t = i)"
proof (cases "148 \<le> length init \<and> init ! 0 = MSG_INITIATION")
  case False
  then consider "length init < 148" | "148 \<le> length init" "init ! 0 \<noteq> MSG_INITIATION" by linarith
  then show ?thesis by cases (simp_all add: consume_initiation_early)
next
  case True
  then have init: "148 \<le> length init" "init ! 0 = MSG_INITIATION" by simp_all
  define E es where "E = sub init 8 40" and "es = sub init 40 88"
  note cs = consume_initiation_cases [OF init, of C sp pp, folded E_def es_def]
  show ?thesis
  proof (cases "wg_open C (snd (key_es C E (dh C sp E))) 0 es (hash_e C pp E)")
    case (Some s)
    note st = Some
    show ?thesis
    proof (cases "length s = 32")
      case l: True
      show ?thesis
      proof (cases "wg_open C (snd (key_ss C E (dh C sp E) (dh C sp s))) 0 (sub init 88 116) (hash C [hash_e C pp E, es])")
        case (Some ts)
        show ?thesis
          using consume_initiation_eq [OF ok init, folded E_def es_def, OF st l Some, of i e]
          by (simp add: resp_wire_fields [OF ok] wg_lengths [OF ok])
      qed (simp add: cs(3) [OF st l])
    qed (simp add: cs(2) [OF st])
  qed (simp add: cs(1))
qed

lemma consume_response_total:
  "\<exists>r. consume_response C hs resp = Some r \<and> (\<forall>t. r = Inr t \<longrightarrow> tun_our_index t = hs_our_index hs)"
proof -
  consider "length resp < 92" | "92 \<le> length resp" "resp ! 0 \<noteq> MSG_RESPONSE"
    | "92 \<le> length resp" "resp ! 0 = MSG_RESPONSE" by linarith
  then show ?thesis
    by cases (auto simp: consume_response_def rust_simps split_beta Let_def split: option.splits)
qed

lemma consume_initiation_iff:
  fixes C init sp pp e i
  defines "E \<equiv> sub init 8 40" and "es \<equiv> sub init 40 88" and "et \<equiv> sub init 88 116"
  assumes ok: "wg_crypto_lengths C"
  shows "(\<exists>r. consume_initiation C sp pp init i e = Some r) \<and>
   ((\<exists>resp t. consume_initiation C sp pp init i e = Some (Inr (resp, t, s_i))) \<longleftrightarrow>
      148 \<le> length init \<and> init ! 0 = MSG_INITIATION \<and> length s_i = 32 \<and>
      wg_open C (snd (key_es C E (dh C sp E))) 0 es (hash_e C pp E) = Some s_i \<and>
      wg_open C (snd (key_ss C E (dh C sp E) (dh C sp s_i))) 0 et (hash C [hash_e C pp E, es]) \<noteq> None)"
proof -
  let ?c = "consume_initiation C sp pp init i e"
  let ?o = "wg_open C (snd (key_es C E (dh C sp E))) 0 es (hash_e C pp E)"
  consider "length init < 148" | "148 \<le> length init" "init ! 0 \<noteq> MSG_INITIATION"
    | "148 \<le> length init" "init ! 0 = MSG_INITIATION" by linarith
  then show ?thesis
  proof cases
    case 3
    note cs = consume_initiation_cases [OF 3, of C sp pp, folded E_def es_def et_def]
    show ?thesis
    proof (cases ?o)
      case None
      then show ?thesis using cs(1) by simp
    next
      case (Some s)
      let ?p = "wg_open C (snd (key_ss C E (dh C sp E) (dh C sp s))) 0 et (hash C [hash_e C pp E, es])"
      show ?thesis
      proof (cases "length s = 32 \<and> ?p \<noteq> None")
        case True
        then obtain ts where "?p = Some ts" by blast
        with True Some 3 show ?thesis
          using consume_initiation_eq [OF ok 3, of sp pp s ts, folded E_def es_def et_def] by auto
      next
        case False
        then obtain x where "?c = Some (Inl x)" using cs(2,3) [OF Some] by blast
        with False Some show ?thesis by auto
      qed
    qed
  qed (simp_all add: consume_initiation_early)
qed

lemma consume_initiation_indices:
  assumes ok: "wg_crypto_lengths C" and c: "consume_initiation C sp pp init i e = Some (Inr (resp, t, s_i))"
  shows "tun_our_index t = i \<and> to_le_bytes (tun_their_index t) = sub init 4 8"
proof -
  note a = consume_initiation_iff [OF ok, of sp pp init i e s_i]
  then have init: "148 \<le> length init" "init ! 0 = MSG_INITIATION" "length s_i = 32" using c by blast+
  then have "tun_our_index t = i \<and> tun_their_index t = from_le_bytes [init ! 4, init ! 5, init ! 6, init ! 7]"
    using a c consume_initiation_eq [OF ok init(1,2), of sp pp s_i _ i e] by auto
  then show ?thesis using init sub4 [of 4 init] by (simp add: to_from_le_bytes)
qed

text \<open>
  C18. An initiation is accepted only with proof of the sender's static key. For any bytes
  from the network \<open>consume_initiation\<close> returns (it never panics); it returns a tunnel exactly
  when the message is long enough and of the right type, the static box opens, under the key
  derived from our private key and the sender's ephemeral key, to a 32-byte static key, and
  the timestamp box opens under the key that also mixes in the Diffie-Hellman value with
  that static key. The peer key handed to the caller is the authenticated one and the tunnel
  records the sender's index and ours. The timestamp itself is not looked at: whatever was
  accepted once is accepted again, under every index and ephemeral key, although the comments
  on \<open>tai64n\<close> and in \<open>main\<close> expect a responder that refuses a stamp that does not increase.
\<close>

theorem consume_initiation_accepts_iff:
  fixes C init sp pp e i
  defines "E \<equiv> sub init 8 40" and "es \<equiv> sub init 40 88" and "et \<equiv> sub init 88 116"
  assumes ok: "wg_crypto_lengths C"
  shows "(\<exists>r. consume_initiation C sp pp init i e = Some r) \<and>
   ((\<exists>resp t. consume_initiation C sp pp init i e = Some (Inr (resp, t, s_i))) \<longleftrightarrow>
      148 \<le> length init \<and> init ! 0 = MSG_INITIATION \<and> length s_i = 32 \<and>
      wg_open C (snd (key_es C E (dh C sp E))) 0 es (hash_e C pp E) = Some s_i \<and>
      wg_open C (snd (key_ss C E (dh C sp E) (dh C sp s_i))) 0 et (hash C [hash_e C pp E, es]) \<noteq> None) \<and>
   (\<forall>resp t. consume_initiation C sp pp init i e = Some (Inr (resp, t, s_i)) \<longrightarrow>
      tun_our_index t = i \<and> to_le_bytes (tun_their_index t) = sub init 4 8 \<and>
      (\<forall>i' e'. \<exists>resp' t'. consume_initiation C sp pp init i' e' = Some (Inr (resp', t', s_i))))"
proof -
  note a = consume_initiation_iff [OF ok, of sp pp init _ _ s_i, folded E_def es_def et_def]
  show ?thesis using a consume_initiation_indices [OF ok] by meson
qed

theorem consume_initiation_accepts_iff_witness:
  "\<exists>msg hs resp t resp' t'.
     build_initiation toy_crypto (replicate 32 1) (pubkey toy_crypto (replicate 32 1)) (pubkey toy_crypto (replicate 32 2))
       (replicate 12 0) 5 (replicate 32 3) = Some (msg, hs) \<and>
     consume_initiation toy_crypto (replicate 32 2) (pubkey toy_crypto (replicate 32 2)) msg 9 (replicate 32 4) =
       Some (Inr (resp, t, pubkey toy_crypto (replicate 32 1))) \<and> tun_our_index t = 9 \<and>
     consume_initiation toy_crypto (replicate 32 2) (pubkey toy_crypto (replicate 32 2)) msg 11 (replicate 32 6) =
       Some (Inr (resp', t', pubkey toy_crypto (replicate 32 1)))"
proof -
  obtain msg hs resp t where m: "build_initiation toy_crypto (replicate 32 1) (pubkey toy_crypto (replicate 32 1))
       (pubkey toy_crypto (replicate 32 2)) (replicate 12 0) 5 (replicate 32 3) = Some (msg, hs)"
    "consume_initiation toy_crypto (replicate 32 2) (pubkey toy_crypto (replicate 32 2)) msg 9 (replicate 32 4) =
       Some (Inr (resp, t, pubkey toy_crypto (replicate 32 1)))"
    using handshake_completes [OF toy_crypto_ok, of "replicate 32 1" "replicate 32 2" "replicate 32 3" "replicate 32 4"
        "replicate 12 0" 5 9] by auto
  with consume_initiation_accepts_iff [OF wg_crypto_ok_lengths [OF toy_crypto_ok],
      of "replicate 32 2" "pubkey toy_crypto (replicate 32 2)" msg 9 "replicate 32 4" "pubkey toy_crypto (replicate 32 1)"]
  show ?thesis by blast
qed

text \<open>
  C19. A response completes a handshake only if it answers that handshake: \<open>consume_response\<close>
  never panics, and a tunnel comes out only for a message of at least 92 bytes and of the
  response type whose receiver index is the one we sent and whose empty box authenticates
  under the keys of this handshake; a response to another index is refused as such.
\<close>

theorem consume_response_accepts:
  fixes C hs resp
  defines "F \<equiv> sub resp 12 44"
  defines "K \<equiv> key_psk C (hs_chaining hs) F (dh C (hs_eph_priv hs) F) (dh C (hs_our_static_priv hs) F)"
    and "ix \<equiv> from_le_bytes [resp ! 8, resp ! 9, resp ! 10, resp ! 11]"
  shows "consume_response C hs resp \<noteq> None \<and>
   ((\<exists>t. consume_response C hs resp = Some (Inr t)) \<longleftrightarrow>
      92 \<le> length resp \<and> resp ! 0 = MSG_RESPONSE \<and> ix = hs_our_index hs \<and>
      wg_open C (snd (snd K)) 0 (sub resp 44 60) (hash_psk C (hs_hash hs) F (fst (snd K))) = Some []) \<and>
   (92 \<le> length resp \<and> resp ! 0 = MSG_RESPONSE \<and> ix \<noteq> hs_our_index hs \<longrightarrow>
      consume_response C hs resp = Some (Inl (ReceiverIndex ix (hs_our_index hs))))"
proof -
  consider "length resp < 92" | "92 \<le> length resp" "resp ! 0 \<noteq> MSG_RESPONSE"
    | "92 \<le> length resp" "resp ! 0 = MSG_RESPONSE" by linarith
  then show ?thesis
    by cases (auto simp: consume_response_def rust_simps split_beta Let_def key_psk_def hash_psk_def
        F_def K_def ix_def split: option.splits)
qed

theorem consume_response_accepts_witness:
  "consume_response toy_crypto \<lparr>hs_chaining = [], hs_hash = [], hs_eph_priv = [], hs_our_static_priv = [],
     hs_our_index = 7\<rparr> (MSG_RESPONSE # replicate 91 0) = Some (Inl (ReceiverIndex 0 7))"
  using consume_response_accepts [of toy_crypto "\<lparr>hs_chaining = [], hs_hash = [], hs_eph_priv = [],
     hs_our_static_priv = [], hs_our_index = 7\<rparr>" "MSG_RESPONSE # replicate 91 0"]
  by (simp add: from_le_bytes.simps)

text \<open>
  Timestamps are ordered: until the seconds overflow, comparing two TAI64N stamps byte
  by byte, as a responder does, is comparing the clock readings they were made from.
\<close>

theorem tai64n_order:
  assumes "unat s < 0xbffffffffffffff6" and "unat s' < 0xbffffffffffffff6"
  shows "ord_class.lexordp (tai64n s n) (tai64n s' n') \<longleftrightarrow>
    unat s < unat s' \<or> s = s' \<and> unat n < unat n'"
proof -
  have v: "be_value (tai64n s n) = (0x400000000000000a + unat s) * 256 ^ 4 + unat n"
    if "unat s < 0xbffffffffffffff6" for s n
  proof -
    have "tai64n s n = to_be_bytes (0x400000000000000a + s) @ to_be_bytes n"
      by (simp add: tai64n_def put_def Let_def)
    moreover have "unat (0x400000000000000a + s) = 0x400000000000000a + unat s"
      using that by (simp add: unat_word_ariths)
    ultimately show ?thesis by (simp add: be_value_append be_value_to_be_bytes)
  qed
  have l: "length (tai64n a b) = 12" for a b by (simp add: tai64n_def)
  have "ord_class.lexordp (tai64n s n) (tai64n s' n') \<longleftrightarrow>
      (0x400000000000000a + unat s) * 256 ^ 4 + unat n < (0x400000000000000a + unat s') * 256 ^ 4 + unat n'"
    using lexordp_be_value [of "tai64n s n" "tai64n s' n'"] v [OF assms(1)] v [OF assms(2)] by (simp add: l)
  also have "\<dots> \<longleftrightarrow> unat s < unat s' \<or> unat s = unat s' \<and> unat n < unat n'"
    by (subst mixed_radix_less) simp_all
  finally show ?thesis by (simp add: word_eq_iff_unsigned [where ?'a = nat])
qed

theorem tai64n_order_witness: "ord_class.lexordp (tai64n 1700000000 5) (tai64n 1700000001 0)"
  using tai64n_order [of 1700000000 1700000001 5 0] by simp

end
