(* ===== verification/Disco.thy ===== *)
theory Disco
  imports Rust_Prelude
begin

text \<open>
  \<^verbatim>\<open>core/src/disco.rs\<close>: the path-discovery messages that share the UDP socket with
  WireGuard. The NaCl box (\<open>crypto_box::SalsaBox\<close>) is a parameter, the random nonce an
  argument. Shown: \<open>open\<close> returns for every datagram and yields a message only if the box
  authenticates under the sender key in the packet; every kind of message the program sends
  is read back by the receiver, endpoint lists through the fixed-width codec of the prelude.
\<close>

subsection \<open>The box\<close>

text \<open>
  \<open>box_encrypt sk pk nonce m\<close> is \<open>SalsaBox::new(&pk, &sk).encrypt(nonce, m)\<close> and likewise
  \<open>box_decrypt\<close>; \<open>box_public\<close> derives the public key of a secret key.
\<close>

record box_crypto =
  box_encrypt :: "bytes \<Rightarrow> bytes \<Rightarrow> bytes \<Rightarrow> bytes \<Rightarrow> bytes option"
  box_decrypt :: "bytes \<Rightarrow> bytes \<Rightarrow> bytes \<Rightarrow> bytes \<Rightarrow> bytes option"
  box_public :: "bytes \<Rightarrow> bytes"

text \<open>
  What \<open>crypto_box\<close> documents: a box is sixteen bytes (the tag) longer than its plaintext,
  public keys have 32 bytes, and the owner of the other key pair opens it.
\<close>

definition box_crypto_ok :: "box_crypto \<Rightarrow> bool" where
  "box_crypto_ok B \<longleftrightarrow>
    (\<forall>a. length (box_public B a) = 32) \<and>
    (\<forall>a b nonce m ct. box_encrypt B a (box_public B b) nonce m = Some ct \<longrightarrow>
       length ct = length m + 16 \<and> box_decrypt B b (box_public B a) nonce ct = Some m)"

subsection \<open>Constants and messages\<close>

definition MAGIC :: bytes where "MAGIC = [0x54, 0x53, 0xf0, 0x9f, 0x92, 0xac]"

definition PING :: u8 where "PING = 0x01"
definition PONG :: u8 where "PONG = 0x02"
definition CALL_ME_MAYBE :: u8 where "CALL_ME_MAYBE = 0x03"
definition REVERSE_CONNECT :: u8 where "REVERSE_CONNECT = 0x04"
definition VERSION :: u8 where "VERSION = 0x00"
definition HDR :: nat where "HDR = 6 + 32 + 24"

datatype disco_error = NotDisco | SealFailed | OpenFailed | PlaintextTooShort

record incoming =
  inc_sender_disco_pub :: bytes
  inc_msg_type :: u8
  inc_txid :: bytes
  inc_endpoints :: "socket_addr list"
  inc_observed_src :: "socket_addr option"

definition is_disco :: "bytes \<Rightarrow> bool panics" where
  "is_disco buf =
    (if \<not> 6 \<le> length buf then Some False else do {
     h \<leftarrow> subslice buf 0 6;
     Some (h = MAGIC) })"

definition addr_to_bytes :: "socket_addr \<Rightarrow> bytes panics" where
  "addr_to_bytes addr = do {
     let out = replicate 18 0;
     out \<leftarrow> (case addr of
        V4 ip port \<Rightarrow> do {
          out \<leftarrow> store out 10 0xff;
          out \<leftarrow> store out 11 0xff;
          copy_from out 12 16 (to_be_bytes ip) }
      | V6 ip port flow scope \<Rightarrow> copy_from out 0 16 (to_be_bytes ip));
     copy_from out 16 18 (to_be_bytes (port_of addr))
   }"

definition bytes_to_addr :: "bytes \<Rightarrow> socket_addr option panics" where
  "bytes_to_addr b =
    (if length b < 18 then Some None else do {
     p0 \<leftarrow> idx b 16; p1 \<leftarrow> idx b 17;
     let port = (from_be_bytes [p0, p1] :: u16);
     z \<leftarrow> subslice b 0 10;
     b10 \<leftarrow> idx b 10; b11 \<leftarrow> idx b 11;
     if list_all (\<lambda>x. x = 0) z \<and> b10 = 0xff \<and> b11 = 0xff then do {
       a0 \<leftarrow> idx b 12; a1 \<leftarrow> idx b 13; a2 \<leftarrow> idx b 14; a3 \<leftarrow> idx b 15;
       Some (Some (V4 (from_be_bytes [a0, a1, a2, a3]) port)) }
     else Some None })"

text \<open>The loop \<^verbatim>\<open>for e in eps\<close> of the two endpoint messages.\<close>

primrec extend_addrs :: "bytes \<Rightarrow> socket_addr list \<Rightarrow> bytes panics" where
  "extend_addrs p [] = Some p"
| "extend_addrs p (e # eps) = do { a \<leftarrow> addr_to_bytes e; extend_addrs (p @ a) eps }"

definition ping_plaintext :: "bytes \<Rightarrow> bytes \<Rightarrow> bytes" where
  "ping_plaintext txid node_pub = [PING, VERSION] @ txid @ node_pub"

definition pong_plaintext :: "bytes \<Rightarrow> socket_addr \<Rightarrow> bytes panics" where
  "pong_plaintext txid src = do {
     a \<leftarrow> addr_to_bytes src;
     Some ([PONG, VERSION] @ txid @ a) }"

definition call_me_maybe_plaintext :: "socket_addr list \<Rightarrow> bytes panics" where
  "call_me_maybe_plaintext eps = extend_addrs [CALL_ME_MAYBE, VERSION] eps"

definition reverse_connect_plaintext :: "socket_addr list \<Rightarrow> bytes panics" where
  "reverse_connect_plaintext eps = extend_addrs [REVERSE_CONNECT, VERSION] eps"

definition disco_seal :: "box_crypto \<Rightarrow> bytes \<Rightarrow> bytes \<Rightarrow> bytes \<Rightarrow> bytes \<Rightarrow> bytes \<Rightarrow> disco_error + bytes" where
  "disco_seal B my_disco_priv my_disco_pub peer_disco_pub plaintext nbytes =
    (case box_encrypt B my_disco_priv peer_disco_pub nbytes plaintext of
       None \<Rightarrow> Inl SealFailed
     | Some ct \<Rightarrow> Inr (MAGIC @ my_disco_pub @ nbytes @ ct))"

definition disco_open :: "box_crypto \<Rightarrow> bytes \<Rightarrow> bytes \<Rightarrow> (disco_error + incoming) panics" where
  "disco_open B my_disco_priv wire =
    (if length wire < HDR + 16 then Some (Inl NotDisco) else do {
     m \<leftarrow> subslice wire 0 6;
     if m \<noteq> MAGIC then Some (Inl NotDisco) else do {
     sender \<leftarrow> subslice wire 6 38;
     nonce \<leftarrow> subslice wire 38 62;
     box \<leftarrow> subslice wire 62 (length wire);
     (case box_decrypt B my_disco_priv sender nonce box of
        None \<Rightarrow> Some (Inl OpenFailed)
      | Some pt \<Rightarrow>
          if length pt < 14 then Some (Inl PlaintextTooShort) else do {
          txid \<leftarrow> subslice pt 2 14;
          t \<leftarrow> idx pt 0;
          endpoints \<leftarrow>
            (if t = CALL_ME_MAYBE \<or> t = REVERSE_CONNECT then do {
               tl \<leftarrow> subslice pt 2 (length pt);
               filter_map_p bytes_to_addr (chunks 18 tl) }
             else Some []);
          observed_src \<leftarrow>
            (if t = PONG \<and> 32 \<le> length pt then do {
               s \<leftarrow> subslice pt 14 32;
               bytes_to_addr s }
             else Some None);
          Some (Inr \<lparr> inc_sender_disco_pub = sender, inc_msg_type = t, inc_txid = txid,
                      inc_endpoints = endpoints, inc_observed_src = observed_src \<rparr>) })
     }})"

lemmas disco_types = PING_def PONG_def CALL_ME_MAYBE_def REVERSE_CONNECT_def VERSION_def

subsection \<open>The address codec\<close>

definition v4_mapped_prefix :: bytes where
  "v4_mapped_prefix = replicate 10 0 @ [0xff, 0xff]"

definition enc_addr :: "socket_addr \<Rightarrow> bytes" where
  "enc_addr a =
    (case a of V4 ip p \<Rightarrow> v4_mapped_prefix @ to_be_bytes ip
             | V6 ip p fl sc \<Rightarrow> to_be_bytes ip) @ to_be_bytes (port_of a)"

definition dec_addr :: "bytes \<Rightarrow> socket_addr option" where
  "dec_addr b =
    (if 18 \<le> length b \<and> sub b 0 12 = v4_mapped_prefix
     then Some (V4 (from_be_bytes (sub b 12 16)) (from_be_bytes (sub b 16 18))) else None)"

text \<open>
  What a receiver makes of an endpoint: an IPv4 endpoint is itself, an IPv4-mapped IPv6
  endpoint its IPv4 form, any other IPv6 endpoint is skipped.
\<close>

definition canon_addr :: "socket_addr \<Rightarrow> socket_addr option" where
  "canon_addr a =
    (case a of V4 ip p \<Rightarrow> Some (V4 ip p)
     | V6 ip p fl sc \<Rightarrow>
        if sub (to_be_bytes ip) 0 12 = v4_mapped_prefix
        then Some (V4 (from_be_bytes (sub (to_be_bytes ip) 12 16)) p) else None)"

lemma length_v4_mapped_prefix [simp]: "length v4_mapped_prefix = 12"
  by (simp add: v4_mapped_prefix_def)

lemma addr_to_bytes_eq: "addr_to_bytes a = Some (enc_addr a)"
  by (cases a) (simp_all add: addr_to_bytes_def enc_addr_def v4_mapped_prefix_def rust_simps
      list_update_put put_def)

lemma mapped_prefix_iff:
  assumes "12 \<le> length b"
  shows "sub b 0 12 = v4_mapped_prefix \<longleftrightarrow>
    list_all (\<lambda>x. x = 0) (sub b 0 10) \<and> b ! 10 = 0xff \<and> b ! 11 = 0xff"
proof -
  have "sub b 0 12 = sub b 0 10 @ [b ! 10, b ! 11]"
    using assms sub_append_split [of 0 10 12 b] by (simp add: sub_2_eq)
  moreover have "list_all (\<lambda>x. x = 0) (sub b 0 10) \<longleftrightarrow> sub b 0 10 = replicate 10 0"
    using assms by (auto simp: list_all_iff intro: replicate_eqI)
  ultimately show ?thesis by (simp add: v4_mapped_prefix_def)
qed

lemma bytes_to_addr_eq: "bytes_to_addr b = Some (dec_addr b)"
  by (cases "length b < 18")
    (simp_all add: bytes_to_addr_def dec_addr_def mapped_prefix_iff rust_simps sub_2_eq sub_4_eq Let_def)

interpretation addr_port: chunk_codec enc_addr dec_addr canon_addr 18
proof
  show "length (enc_addr a) = 18" for a
    by (cases a) (simp_all add: enc_addr_def)
  show "dec_addr (enc_addr a) = canon_addr a" for a
    by (cases a) (simp_all add: enc_addr_def dec_addr_def canon_addr_def)
qed simp

lemma extend_addrs_eq: "extend_addrs p eps = Some (p @ concat (map enc_addr eps))"
  by (induction eps arbitrary: p) (simp_all add: addr_to_bytes_eq)

subsection \<open>Opening what was sealed\<close>

definition read_plaintext :: "bytes \<Rightarrow> bytes \<Rightarrow> disco_error + incoming" where
  "read_plaintext sender pt =
    (if length pt < 14 then Inl PlaintextTooShort
     else Inr \<lparr> inc_sender_disco_pub = sender, inc_msg_type = pt ! 0, inc_txid = sub pt 2 14,
       inc_endpoints = (if pt ! 0 \<in> {CALL_ME_MAYBE, REVERSE_CONNECT}
                        then List.map_filter dec_addr (chunks 18 (sub pt 2 (length pt))) else []),
       inc_observed_src = (if pt ! 0 = PONG \<and> 32 \<le> length pt then dec_addr (sub pt 14 32) else None) \<rparr>)"

lemma disco_open_eq:
  "disco_open B sk wire =
    Some (if length wire < 78 \<or> sub wire 0 6 \<noteq> MAGIC then Inl NotDisco
     else case box_decrypt B sk (sub wire 6 38) (sub wire 38 62) (sub wire 62 (length wire)) of
            None \<Rightarrow> Inl OpenFailed
          | Some pt \<Rightarrow> read_plaintext (sub wire 6 38) pt)"
  by (auto simp: disco_open_def HDR_def rust_simps read_plaintext_def bytes_to_addr_eq
      filter_map_p_total split: option.split)

lemma is_disco_eq: "is_disco buf = Some (6 \<le> length buf \<and> sub buf 0 6 = MAGIC)"
  by (simp add: is_disco_def rust_simps)

lemma length_MAGIC [simp]: "length MAGIC = 6"
  by (simp add: MAGIC_def)

lemma disco_open_seal:
  assumes "box_crypto_ok B" and "length nonce = 24"
    and "disco_seal B a (box_public B a) (box_public B b) pt nonce = Inr wire"
  shows "disco_open B b wire = Some (read_plaintext (box_public B a) pt)"
    and "is_disco wire = Some True"
proof -
  obtain ct where ct: "box_encrypt B a (box_public B b) nonce pt = Some ct"
      "wire = MAGIC @ box_public B a @ nonce @ ct"
    using assms(3) by (auto simp: disco_seal_def split: option.splits)
  have pub: "length (box_public B a) = 32"
    and ct_len: "length ct = length pt + 16"
    and dec: "box_decrypt B b (box_public B a) nonce ct = Some pt"
    using assms(1) ct(1) by (auto simp: box_crypto_ok_def)
  show "disco_open B b wire = Some (read_plaintext (box_public B a) pt)"
    unfolding disco_open_eq using assms(2) pub ct_len dec by (simp add: ct(2))
  show "is_disco wire = Some True" by (simp add: is_disco_eq ct(2))
qed

subsection \<open>Properties\<close>

text \<open>
  C24. Disco round trip: whatever nonce is drawn, a sealed packet is recognised as disco and the
  node it is addressed to reads back exactly what was sent, with the sender's key: of a ping its
  transaction id; of a pong the transaction id and the observed source; of CALL_ME_MAYBE and
  REVERSE_CONNECT, when at least one endpoint is sent, the endpoints in order, IPv6 ones skipped.
  Without endpoints these two do not arrive: the plaintext is two bytes long, and \<open>open\<close>, though
  the box authenticates, refuses every plaintext shorter than a ping's header as too short.
\<close>

theorem disco_roundtrip:
  assumes "box_crypto_ok B" and "length nonce = 24" and "length txid = 12" and "length node_pub = 32"
    and "disco_seal B a (box_public B a) (box_public B b) pt nonce = Inr wire"
  shows "is_disco wire = Some True \<and>
    (pt = ping_plaintext txid node_pub \<longrightarrow>
       disco_open B b wire = Some (Inr \<lparr> inc_sender_disco_pub = box_public B a, inc_msg_type = PING,
         inc_txid = txid, inc_endpoints = [], inc_observed_src = None \<rparr>)) \<and>
    (pong_plaintext txid src = Some pt \<longrightarrow>
       disco_open B b wire = Some (Inr \<lparr> inc_sender_disco_pub = box_public B a, inc_msg_type = PONG,
         inc_txid = txid, inc_endpoints = [], inc_observed_src = canon_addr src \<rparr>)) \<and>
    (eps \<noteq> [] \<and> call_me_maybe_plaintext eps = Some pt \<longrightarrow>
       (\<exists>m. disco_open B b wire = Some (Inr m) \<and> inc_sender_disco_pub m = box_public B a \<and>
         inc_msg_type m = CALL_ME_MAYBE \<and> inc_endpoints m = List.map_filter canon_addr eps)) \<and>
    (eps \<noteq> [] \<and> reverse_connect_plaintext eps = Some pt \<longrightarrow>
       (\<exists>m. disco_open B b wire = Some (Inr m) \<and> inc_sender_disco_pub m = box_public B a \<and>
         inc_msg_type m = REVERSE_CONNECT \<and> inc_endpoints m = List.map_filter canon_addr eps)) \<and>
    (call_me_maybe_plaintext [] = Some pt \<or> reverse_connect_plaintext [] = Some pt \<longrightarrow>
       disco_open B b wire = Some (Inl PlaintextTooShort))"
proof -
  note o = disco_open_seal [OF assms(1,2,5)]
  have eps: "14 \<le> length (concat (map enc_addr eps)) + 2" if "eps \<noteq> []"
    using that by (cases eps) (simp_all add: addr_port.enc_length)
  show ?thesis
    unfolding o using assms(3,4) eps
    by (auto simp: read_plaintext_def ping_plaintext_def pong_plaintext_def addr_to_bytes_eq
        call_me_maybe_plaintext_def reverse_connect_plaintext_def extend_addrs_eq disco_types
        addr_port.enc_length addr_port.dec_enc addr_port.list_roundtrip)
qed

text \<open>A box that authenticates nothing but has the documented shape, for the witnesses.\<close>

definition toy_box :: box_crypto where
  "toy_box = \<lparr> box_encrypt = (\<lambda>sk pk nonce m. Some (m @ replicate 16 0)),
     box_decrypt = (\<lambda>sk pk nonce ct. if length ct < 16 then None else Some (take (length ct - 16) ct)),
     box_public = (\<lambda>sk. take 32 (sk @ replicate 32 0)) \<rparr>"

lemma toy_box_ok: "box_crypto_ok toy_box"
  by (auto simp: box_crypto_ok_def toy_box_def)

definition toy_wire :: "bytes \<Rightarrow> bytes" where
  "toy_wire pt = MAGIC @ box_public toy_box [1] @ replicate 24 5 @ pt @ replicate 16 0"

lemma toy_seal: "disco_seal toy_box [1] (box_public toy_box [1]) (box_public toy_box [2]) pt (replicate 24 5) = Inr (toy_wire pt)"
  by (simp add: disco_seal_def toy_box_def toy_wire_def)

theorem disco_roundtrip_witness:
  "(\<exists>m. disco_open toy_box [2] (toy_wire (the (call_me_maybe_plaintext [V4 0xC0A80102 41641, V6 1 2 0 0]))) = Some (Inr m) \<and>
     inc_endpoints m = [V4 0xC0A80102 41641]) \<and>
   disco_open toy_box [2] (toy_wire [CALL_ME_MAYBE, VERSION]) = Some (Inl PlaintextTooShort)"
proof -
  obtain pt where pt: "call_me_maybe_plaintext [V4 0xC0A80102 41641, V6 1 2 0 0] = Some pt"
    by (simp add: call_me_maybe_plaintext_def extend_addrs_eq)
  have "canon_addr (V6 1 2 0 0) = None"
    by (simp add: canon_addr_def v4_mapped_prefix_def to_be_bytes_def to_le_bytes_def upt_rec)
  with pt disco_roundtrip [OF toy_box_ok _ _ _ toy_seal,
      of "replicate 12 0" "replicate 32 0" pt undefined "[V4 0xC0A80102 41641, V6 1 2 0 0]"]
    disco_roundtrip [OF toy_box_ok _ _ _ toy_seal,
      of "replicate 12 0" "replicate 32 0" "[CALL_ME_MAYBE, VERSION]" undefined "[]"]
  show ?thesis by (auto simp: canon_addr_def map_filter_simps call_me_maybe_plaintext_def)
qed

text \<open>
  Opening is total and authenticated: for any datagram and any key \<open>open\<close> returns, and it
  returns a message exactly when the packet starts with the magic, has room for header and tag,
  and its box opens, under our private key and the sender key named in the packet, to at least
  fourteen bytes; that key is the sender reported, and the type and transaction id are those of
  the authenticated plaintext.
\<close>

theorem disco_open_authentic:
  "\<exists>r. disco_open B sk wire = Some r \<and>
    ((\<exists>m. r = Inr m) \<longleftrightarrow> 78 \<le> length wire \<and> is_disco wire = Some True \<and>
       (\<exists>pt. box_decrypt B sk (sub wire 6 38) (sub wire 38 62) (sub wire 62 (length wire)) = Some pt \<and>
             14 \<le> length pt)) \<and>
    (\<forall>m. r = Inr m \<longrightarrow> inc_sender_disco_pub m = sub wire 6 38 \<and>
       (\<exists>pt. box_decrypt B sk (sub wire 6 38) (sub wire 38 62) (sub wire 62 (length wire)) = Some pt \<and>
             inc_msg_type m = pt ! 0 \<and> inc_txid m = sub pt 2 14))"
  by (auto simp: disco_open_eq is_disco_eq read_plaintext_def split: option.splits if_splits)

theorem disco_open_authentic_witness:
  "\<exists>r. disco_open toy_box [2] (toy_wire (ping_plaintext (replicate 12 9) [])) = Some (Inr r) \<and>
     inc_txid r = replicate 12 9"
  using disco_open_authentic [of toy_box "[2]" "toy_wire (ping_plaintext (replicate 12 9) [])"]
  by (auto simp: toy_wire_def is_disco_eq ping_plaintext_def toy_box_def)

end
