(* ===== verification/Node.thy ===== *)
theory Node
  imports Peers Wg Disco
begin

text \<open>
  \<^verbatim>\<open>core/src/node.rs\<close> and \<^verbatim>\<open>src/node.rs\<close>: what both transports (the UDP data plane and the
  DERP relay) share, the node's identity and the peers to be reached, and the part of the
  configuration that is chosen when the firmware is built. Cargo features are booleans of
  \<open>features\<close>, so that what is shown of the data plane holds for every combination of them;
  the \<open>bench\<close> feature, a load generator's counterpart, is left out.
\<close>

record identity =
  id_disco_priv :: bytes
  id_disco_pub :: bytes
  id_node_priv :: bytes
  id_node_pub :: bytes
  id_allowed_srcs :: "cidr list option"

record target =
  tg_name :: string
  tg_disco_pub :: bytes
  tg_node_pub :: bytes
  tg_endpoints :: "socket_addr list"
  tg_spray :: bool

record peer_dir =
  pd_node_pub :: bytes
  pd_disco_pub :: bytes
  pd_endpoints :: "socket_addr list"

record outbound_cfg =
  oc_our_ip :: ipv4addr
  oc_target_ip :: ipv4addr
  oc_target_node :: bytes
  oc_http_port :: u16
  oc_http_path :: string

record features =
  ft_icmp :: bool
  ft_http_server :: bool
  ft_outbound :: bool
  ft_mdns_forward :: bool
  ft_tcp_proxy :: bool
  ft_birthday :: bool

text \<open>
  What a handler needs besides its state: the cryptographic crates, the node's identity, the
  features, and for the proxy its port and the LAN service behind it.
\<close>

record node_cfg =
  cf_wg :: wg_crypto
  cf_box :: box_crypto
  cf_id :: identity
  cf_features :: features
  cf_proxy_port :: u16
  cf_fetch :: "bytes \<Rightarrow> bytes"

text \<open>The identity the firmware builds: keys of 32 bytes, the public ones derived.\<close>

definition identity_ok :: "node_cfg \<Rightarrow> bool" where
  "identity_ok cf \<longleftrightarrow> wg_crypto_lengths (cf_wg cf) \<and>
     length (id_node_priv (cf_id cf)) = 32 \<and> id_node_pub (cf_id cf) = pubkey (cf_wg cf) (id_node_priv (cf_id cf)) \<and>
     length (id_disco_priv (cf_id cf)) = 32 \<and> id_disco_pub (cf_id cf) = box_public (cf_box cf) (id_disco_priv (cf_id cf))"

end
