(* ===== verification/Checksum.thy ===== *)
theory Checksum
  imports Rust_Prelude
begin

text \<open>
  The Internet checksum (RFC 1071) as \<^verbatim>\<open>core/src/icmp.rs\<close> and \<^verbatim>\<open>core/src/outbound.rs\<close>
  compute it: a running \<open>u32\<close> sum of big-endian 16-bit words, folded to 16 bits by
  end-around carries and complemented. \<open>words16\<close> and \<open>ones_complement\<close> are the
  reference: the sum over the natural numbers and its representative modulo 65535.

  The locale \<open>internet_checksum\<close> is the contract every checksum routine of the program
  meets, and its client lemma is the one that matters to a receiver: writing the checksum
  into a zeroed, even-aligned field makes the checksum of the whole message zero. The
  routines of this theory and of the TCP server and proxy are interpretations of it.
\<close>

subsection \<open>The routines\<close>

text \<open>\<^verbatim>\<open>outbound.rs: sum16\<close>. \<open>sum +=\<close> on a \<open>u32\<close> wraps in a release build.\<close>

fun sum16 :: "bytes \<Rightarrow> u32 \<Rightarrow> u32" where
  "sum16 (a # b # rest) s = sum16 rest (s + ucast (from_be_bytes [a, b] :: u16))"
| "sum16 [a] s = s + push_bit 8 (ucast a)"
| "sum16 [] s = s"

text \<open>The fold loop \<^verbatim>\<open>while sum >> 16 != 0\<close>.\<close>

lemma unat_hi16: "unat (drop_bit 16 (s :: u32)) = unat s div 65536"
  by (simp only: unat_drop_bit_eq) (simp add: drop_bit_eq_div)

lemma unat_lo16: "unat ((s :: u32) AND 0xffff) = unat s mod 65536"
proof -
  have "s AND 0xffff = take_bit 16 s"
    by (simp add: take_bit_eq_mask mask_eq_exp_minus_1)
  then have "unat (s AND 0xffff) = take_bit 16 (unat s)" by (simp only: unsigned_take_bit_eq)
  then show ?thesis by (simp add: take_bit_eq_mod)
qed

lemma fold_step_decreases:
  fixes s :: u32
  assumes "drop_bit 16 s \<noteq> 0"
  shows "unat ((s AND 0xffff) + drop_bit 16 s) < unat s"
    and "unat ((s AND 0xffff) + drop_bit 16 s) = unat s mod 65536 + unat s div 65536"
proof -
  have hi0: "unat s div 65536 \<noteq> 0" using assms
    by (metis unat_hi16 unsigned_eq_0_iff)
  have "unat s div 65536 < 65536" by (rule less_mult_imp_div_less) simp
  moreover have "unat s mod 65536 < 65536" by simp
  ultimately have "unat s mod 65536 + unat s div 65536 < 4294967296" by linarith
  then show eq: "unat ((s AND 0xffff) + drop_bit 16 s) = unat s mod 65536 + unat s div 65536"
    by (simp only: unat_word_ariths unat_lo16 unat_hi16) simp
  have "unat s = 65536 * (unat s div 65536) + unat s mod 65536" by simp
  with hi0 show "unat ((s AND 0xffff) + drop_bit 16 s) < unat s"
    unfolding eq by linarith
qed

function fold16 :: "u32 \<Rightarrow> u32" where
  "fold16 s = (if drop_bit 16 s \<noteq> 0 then fold16 ((s AND 0xffff) + drop_bit 16 s) else s)"
  by pat_completeness auto
termination
  by (relation "measure unat") (simp_all only: wf_measure in_measure fold_step_decreases(1) not_False_eq_True)

declare fold16.simps [simp del]

text \<open>\<^verbatim>\<open>outbound.rs: finish\<close>, \<^verbatim>\<open>checksum\<close> and \<^verbatim>\<open>l4_checksum\<close>.\<close>

definition finish :: "u32 \<Rightarrow> u16" where
  "finish s = NOT (ucast (fold16 s))"

definition checksum :: "bytes \<Rightarrow> u16" where
  "checksum data = finish (sum16 data 0)"

definition pseudo_header :: "bytes \<Rightarrow> bytes \<Rightarrow> u8 \<Rightarrow> nat \<Rightarrow> bytes" where
  "pseudo_header src dst proto len =
     (let ph = replicate 12 0;
          ph = put ph 0 src;
          ph = put ph 4 dst;
          ph = ph[9 := proto]
      in put ph 10 (to_be_bytes (of_nat len :: u16)))"

definition l4_checksum :: "ipv4addr \<Rightarrow> ipv4addr \<Rightarrow> u8 \<Rightarrow> bytes \<Rightarrow> u16" where
  "l4_checksum src dst proto l4 =
     finish (sum16 l4 (sum16 (pseudo_header (to_be_bytes src) (to_be_bytes dst) proto (length l4)) 0))"

text \<open>\<^verbatim>\<open>icmp.rs: checksum\<close> and \<^verbatim>\<open>icmpv6_checksum\<close>, with their own copies of the loops.\<close>

fun icmp_add :: "u32 \<Rightarrow> bytes \<Rightarrow> u32" where
  "icmp_add s (a # b # rest) = icmp_add (s + ucast (from_be_bytes [a, b] :: u16)) rest"
| "icmp_add s [a] = s + push_bit 8 (ucast a)"
| "icmp_add s [] = s"

definition icmp_checksum :: "bytes \<Rightarrow> u16" where
  "icmp_checksum data = NOT (ucast (fold16 (icmp_add 0 data)))"

definition icmpv6_checksum :: "bytes \<Rightarrow> bytes \<Rightarrow> bytes \<Rightarrow> u16" where
  "icmpv6_checksum src dst msg =
     (let s = icmp_add 0 src;
          s = icmp_add s dst;
          len = (of_nat (length msg) :: u32);
          s = s + (drop_bit 16 len AND 0xffff);
          s = s + (len AND 0xffff);
          s = s + 58;
          s = icmp_add s msg
      in NOT (ucast (fold16 s)))"

subsection \<open>The reference: sums over the naturals, modulo 65535\<close>

fun words16 :: "bytes \<Rightarrow> nat" where
  "words16 (a # b # rest) = 256 * unat a + unat b + words16 rest"
| "words16 [a] = 256 * unat a"
| "words16 [] = 0"

definition ones_sum :: "nat \<Rightarrow> nat" where
  "ones_sum n = (if n = 0 then 0 else (n - 1) mod 65535 + 1)"

definition ones_complement :: "nat \<Rightarrow> u16" where
  "ones_complement n = NOT (of_nat (ones_sum n))"

lemma ones_sum_le: "ones_sum n \<le> 65535"
  unfolding ones_sum_def by (simp add: Suc_le_eq)

lemma unat_ones_complement: "unat (ones_complement n) = 65535 - ones_sum n"
proof -
  have "ones_sum n < 65536" using ones_sum_le [of n] by simp
  then have u: "unat (of_nat (ones_sum n) :: u16) = ones_sum n"
    by (simp add: unat_of_nat)
  have "unat (NOT w) = 65535 - unat w" for w :: u16
  proof -
    have "NOT w = - 1 - w" by (simp add: not_eq_complement)
    moreover have "w \<le> - 1" by simp
    ultimately have "unat (NOT w) = unat (- 1 :: u16) - unat w"
      by (simp only: unat_sub)
    also have "unat (- 1 :: u16) = 65535"
      by (simp only: unsigned_minus_1_eq_mask mask_eq_exp_minus_1) simp
    finally show ?thesis .
  qed
  with u show ?thesis by (simp add: ones_complement_def)
qed

lemma words16_le: "words16 xs \<le> 65535 * ((length xs + 1) div 2)"
proof (induction xs rule: words16.induct)
  case (1 a b rest)
  have "256 * unat a + unat b \<le> 65535"
    using unat_u8_less [of a] unat_u8_less [of b] by linarith
  with 1 show ?case by simp
next
  case (2 a)
  have "256 * unat a \<le> 65535" using unat_u8_less [of a] by linarith
  then show ?case by simp
qed simp

lemma words16_append: "even (length xs) \<Longrightarrow> words16 (xs @ ys) = words16 xs + words16 ys"
  by (induction xs rule: words16.induct) auto

lemma words16_be [simp]: "words16 (to_be_bytes (w :: u16)) = unat w"
proof -
  have "to_be_bytes w = [hd (to_be_bytes w), hd (tl (to_be_bytes w))]"
    by (simp add: to_be_bytes_16)
  then obtain a b where ab: "to_be_bytes w = [a, b]" by blast
  then have "w = from_be_bytes [a, b]" by (metis bytes_roundtrip(1))
  with ab show ?thesis by (simp add: unat_from_be_16)
qed

lemma words16_put:
  assumes "even i" and "i + 2 \<le> length xs" and "xs ! i = 0" and "xs ! Suc i = 0"
  shows "words16 (put xs i (to_be_bytes (w :: u16))) = words16 xs + unat w"
proof -
  have xs: "xs = take i xs @ xs ! i # xs ! Suc i # drop (i + 2) xs"
    using assms(2) by (simp add: Cons_nth_drop_Suc add_2_eq_Suc')
  have ev: "even (length (take i xs))" using assms by simp
  have "words16 xs = words16 (take i xs) + words16 (drop (i + 2) xs)"
    by (subst xs, subst words16_append [OF ev]) (simp add: assms)
  moreover have "words16 (put xs i (to_be_bytes w)) =
      words16 (take i xs) + (unat w + words16 (drop (i + 2) xs))"
    using assms(2) unfolding put_def by (simp add: words16_append [OF ev] words16_append)
  ultimately show ?thesis by simp
qed

text \<open>The machine sum is the reference sum as long as nothing carries out of 32 bits.\<close>

lemma unat_sum16:
  "unat s + words16 xs < 4294967296 \<Longrightarrow> unat (sum16 xs s) = unat s + words16 xs"
proof (induction xs s rule: sum16.induct)
  case (1 a b rest s)
  have "unat (s + ucast (from_be_bytes [a, b] :: u16)) = unat s + (256 * unat a + unat b)"
    using 1(2) by (simp add: unat_word_ariths unat_from_be_16)
  with 1 show ?case by simp
next
  case (2 a s)
  have "unat (push_bit 8 (ucast a) :: u32) = 256 * unat a"
  proof -
    have "256 * unat a < 4294967296" using unat_u8_less [of a] by linarith
    then show ?thesis by (simp add: push_bit_eq_mult unat_word_ariths mult.commute)
  qed
  with 2 show ?case by (simp add: unat_word_ariths)
qed simp

lemma ones_sum_small: "n < 65536 \<Longrightarrow> ones_sum n = n"
  by (auto simp: ones_sum_def)

lemma ones_sum_step: "ones_sum (n mod 65536 + n div 65536) = ones_sum n"
proof (cases "n = 0")
  case True
  then show ?thesis by (simp add: ones_sum_def)
next
  case False
  let ?m = "n mod 65536 + n div 65536"
  have n: "n = 65536 * (n div 65536) + n mod 65536" by simp
  have m: "?m \<noteq> 0" using False n by linarith
  have "n - 1 = (?m - 1) + 65535 * (n div 65536)" using m n by linarith
  then have "(n - 1) mod 65535 = (?m - 1) mod 65535" by simp
  then show ?thesis using False m by (simp add: ones_sum_def)
qed

lemma unat_fold16: "unat (fold16 s) = ones_sum (unat s)"
proof (induction s rule: fold16.induct)
  case (1 s)
  show ?case
  proof (cases "drop_bit 16 s = 0")
    case True
    then have "unat s div 65536 = 0" by (simp only: unat_hi16 [symmetric]) simp
    then have "unat s < 65536" by (simp add: div_eq_0_iff)
    with True show ?thesis by (simp only: fold16.simps [of s] ones_sum_small if_False simp_thms)
  next
    case False
    then have "unat (fold16 s) = unat (fold16 ((s AND 0xffff) + drop_bit 16 s))"
      by (simp only: fold16.simps [of s] if_True simp_thms)
    also have "\<dots> = ones_sum (unat s)"
      using 1 [OF False] by (simp only: fold_step_decreases(2) [OF False] ones_sum_step)
    finally show ?thesis .
  qed
qed

lemma finish_eq: "finish s = ones_complement (unat s)"
proof -
  have "of_nat (unat (fold16 s)) = (ucast (fold16 s) :: u16)"
    by simp
  then show ?thesis by (simp only: finish_def ones_complement_def unat_fold16)
qed

lemma icmp_add_eq: "icmp_add s xs = sum16 xs s"
  by (induction xs s rule: sum16.induct) simp_all

lemma ones_complement_eq_0: "ones_complement n = 0 \<longleftrightarrow> ones_sum n = 65535"
proof -
  have "ones_complement n = 0 \<longleftrightarrow> unat (ones_complement n) = 0"
    by (simp only: unsigned_eq_0_iff)
  also have "\<dots> \<longleftrightarrow> ones_sum n = 65535"
    using ones_sum_le [of n] unfolding unat_ones_complement by linarith
  finally show ?thesis .
qed

lemma ones_sum_complete: "ones_sum (n + (65535 - ones_sum n)) = 65535"
proof (cases "n = 0")
  case True
  then show ?thesis by (simp add: ones_sum_def)
next
  case False
  define q where "q = (n - 1) div 65535"
  define r where "r = (n - 1) mod 65535"
  have r: "r < 65535" by (simp add: r_def)
  have n: "n = 65535 * q + r + 1"
    using False mult_div_mod_eq [of 65535 "n - 1"] unfolding q_def r_def by linarith
  have o: "ones_sum n = r + 1" using r by (simp add: ones_sum_def n)
  have "n + (65535 - ones_sum n) = Suc (65534 + 65535 * q)"
    using r n unfolding o by linarith
  then show ?thesis by (simp add: ones_sum_def)
qed

subsection \<open>The contract of a checksum routine\<close>

text \<open>
  A routine \<open>csum\<close> is an Internet checksum with a prefix sum \<open>pre\<close> (the pseudo-header,
  which depends on the length of the message) for messages up to \<open>limit\<close> bytes.
\<close>

locale internet_checksum =
  fixes csum :: "bytes \<Rightarrow> u16"
    and pre :: "nat \<Rightarrow> nat"
    and limit :: nat
  assumes csum_spec: "length d \<le> limit \<Longrightarrow> csum d = ones_complement (pre (length d) + words16 d)"
begin

lemma insert_verifies:
  assumes "even i" and "i + 2 \<le> length d" and "length d \<le> limit"
    and "d ! i = 0" and "d ! Suc i = 0"
  shows "csum (put d i (to_be_bytes (csum d))) = 0"
proof -
  let ?n = "pre (length d) + words16 d"
  have c: "csum d = ones_complement ?n" using assms by (simp add: csum_spec)
  have "csum (put d i (to_be_bytes (csum d))) = ones_complement (?n + unat (csum d))"
    using assms by (simp add: csum_spec words16_put add.assoc)
  also have "\<dots> = 0"
    unfolding c by (simp add: ones_complement_eq_0 unat_ones_complement ones_sum_complete)
  finally show ?thesis .
qed

lemma accepted_iff: "length d \<le> limit \<Longrightarrow> csum d = 0 \<longleftrightarrow> ones_sum (pre (length d) + words16 d) = 65535"
  by (simp add: csum_spec ones_complement_eq_0)

end

lemma finish_sum16:
  "unat s + 65535 * ((length xs + 1) div 2) < 4294967296 \<Longrightarrow>
   finish (sum16 xs s) = ones_complement (unat s + words16 xs)"
  using words16_le [of xs] by (simp add: finish_eq unat_sum16)

interpretation ip: internet_checksum checksum "\<lambda>_. 0" 131072
  by unfold_locales (simp add: checksum_def finish_sum16)

interpretation icmp: internet_checksum icmp_checksum "\<lambda>_. 0" 131072
  by unfold_locales (simp add: icmp_checksum_def icmp_add_eq finish_sum16 flip: finish_def)

lemma length_pseudo_header [simp]:
  "length src = 4 \<Longrightarrow> length dst = 4 \<Longrightarrow> length (pseudo_header src dst proto n) = 12"
  by (simp add: pseudo_header_def)

lemma finish_pseudo:
  assumes "length src = 4" and "length dst = 4" and "length d \<le> 65535"
  shows "finish (sum16 d (sum16 (pseudo_header src dst proto (length d)) 0)) =
    ones_complement (words16 (pseudo_header src dst proto (length d)) + words16 d)"
proof -
  let ?ph = "pseudo_header src dst proto (length d)"
  have ph: "words16 ?ph \<le> 65535 * 6" using words16_le [of ?ph] assms by simp
  then have s: "unat (sum16 ?ph 0) = words16 ?ph" by (simp add: unat_sum16)
  have "(length d + 1) div 2 \<le> 32768" using assms by simp
  with s ph show ?thesis by (simp add: finish_sum16)
qed

interpretation l4: internet_checksum "l4_checksum src dst proto"
    "\<lambda>n. words16 (pseudo_header (to_be_bytes src) (to_be_bytes dst) proto n)" 65535
  for src dst :: ipv4addr and proto :: u8
  by unfold_locales (simp add: l4_checksum_def finish_pseudo)

lemma icmpv6_checksum_spec:
  assumes "length src = 16" and "length dst = 16" and "length d \<le> 65535"
  shows "icmpv6_checksum src dst d =
    ones_complement (words16 src + words16 dst + length d + 58 + words16 d)"
proof -
  let ?len = "of_nat (length d) :: u32"
  have len: "unat ?len = length d" using assms(3) by (simp add: unat_of_nat)
  have w: "words16 src \<le> 65535 * 8" "words16 dst \<le> 65535 * 8"
    using words16_le [of src] words16_le [of dst] assms by simp_all
  let ?s = "sum16 dst (sum16 src 0)"
  have s: "unat ?s = words16 src + words16 dst"
    using w by (simp add: unat_sum16)
  have hi: "drop_bit 16 ?len AND 0xffff = 0"
    using assms(3) by (intro unsigned_word_eqI [where ?'a = nat]) (simp only: unat_lo16 unat_hi16 len, simp)
  have lo: "unat (?len AND 0xffff) = length d"
    using assms(3) by (simp only: unat_lo16 len) simp
  have "unat (?s + (?len AND 0xffff)) = unat ?s + length d"
    using w assms(3) lo s by (simp add: unat_word_ariths)
  then have s': "unat (?s + (?len AND 0xffff) + 58) = words16 src + words16 dst + length d + 58"
    using w assms(3) s by (simp add: unat_word_ariths)
  have "icmpv6_checksum src dst d = finish (sum16 d (?s + (?len AND 0xffff) + 58))"
    by (simp only: icmpv6_checksum_def icmp_add_eq finish_def Let_def hi add_0_right)
  also have "\<dots> = ones_complement (unat (?s + (?len AND 0xffff) + 58) + words16 d)"
    using s' w assms(3) by (intro finish_sum16) simp
  finally show ?thesis by (simp only: s')
qed

interpretation icmpv6: internet_checksum "icmpv6_checksum (to_be_bytes src) (to_be_bytes dst)"
    "\<lambda>n. words16 (to_be_bytes src) + words16 (to_be_bytes dst) + n + 58" 65535
  for src dst :: ipv6addr
  by unfold_locales (simp add: icmpv6_checksum_spec)

end
