(* ===== verification/Ipv4.thy ===== *)
theory Ipv4
  imports Checksum
begin

text \<open>
  Reading an inner IPv4 packet: the header fields the handlers use, as total functions on byte
  lists (meaningful for packets of at least twenty bytes). The handlers themselves read them
  with checked indexing; their closed forms are stated with these.
\<close>

text \<open>The header length and total length an IPv4 packet claims.\<close>

definition ihl_of :: "bytes \<Rightarrow> nat" where
  "ihl_of p = unat (p ! 0 AND 0x0f) * 4"

definition total_len_of :: "bytes \<Rightarrow> nat" where
  "total_len_of p = unat (from_be_bytes [p ! 2, p ! 3] :: u16)"

definition is_ipv4 :: "bytes \<Rightarrow> bool" where
  "is_ipv4 p \<longleftrightarrow> 20 \<le> length p \<and> drop_bit 4 (p ! 0) = 4"

subsection \<open>Building a packet\<close>

definition ipv4_packet :: "ipv4addr \<Rightarrow> ipv4addr \<Rightarrow> u8 \<Rightarrow> bytes \<Rightarrow> bytes panics" where
  "ipv4_packet src dst proto l4 = do {
     let total = 20 + length l4;
     let pkt = replicate total 0;
     pkt \<leftarrow> store pkt 0 0x45;
     pkt \<leftarrow> copy_from pkt 2 4 (to_be_bytes (of_nat total :: u16));
     pkt \<leftarrow> store pkt 6 0x40;
     pkt \<leftarrow> store pkt 8 64;
     pkt \<leftarrow> store pkt 9 proto;
     pkt \<leftarrow> copy_from pkt 12 16 (to_be_bytes src);
     pkt \<leftarrow> copy_from pkt 16 20 (to_be_bytes dst);
     hdr \<leftarrow> subslice pkt 0 20;
     let c = checksum hdr;
     pkt \<leftarrow> copy_from pkt 10 12 (to_be_bytes c);
     copy_from pkt 20 (length pkt) l4
   }"

text \<open>The reference header: DF set, TTL 64, no options, checksum in place.\<close>

definition ip_header0 :: "ipv4addr \<Rightarrow> ipv4addr \<Rightarrow> u8 \<Rightarrow> nat \<Rightarrow> bytes" where
  "ip_header0 src dst proto n =
     [0x45, 0] @ to_be_bytes (of_nat n :: u16) @ [0, 0, 0x40, 0, 64, proto, 0, 0] @
     to_be_bytes src @ to_be_bytes dst"

definition ip_header :: "ipv4addr \<Rightarrow> ipv4addr \<Rightarrow> u8 \<Rightarrow> nat \<Rightarrow> bytes" where
  "ip_header src dst proto n =
     put (ip_header0 src dst proto n) 10 (to_be_bytes (checksum (ip_header0 src dst proto n)))"

lemma length_ip_header [simp]:
  "length (ip_header0 src dst proto n) = 20" "length (ip_header src dst proto n) = 20"
  by (simp_all add: ip_header_def ip_header0_def)

lemma ip_header0_puts:
  "w = of_nat n \<Longrightarrow> put (put (put (put (put (put (put (replicate 20 0) 0 [0x45]) 2 (to_be_bytes (w :: u16)))
     6 [0x40]) 8 [64]) 9 [proto]) 12 (to_be_bytes src)) 16 (to_be_bytes dst) = ip_header0 src dst proto n"
  by (simp add: put_def ip_header0_def)

lemma ipv4_packet_eq:
  "ipv4_packet src dst proto l4 = Some (ip_header src dst proto (20 + length l4) @ l4)"
proof -
  have r: "replicate (20 + length l4) (0 :: u8) = replicate 20 0 @ replicate (length l4) 0"
    by (simp add: replicate_add)
  show ?thesis
    unfolding ipv4_packet_def Let_def r
    by (simp add: rust_simps list_update_put put_append1 put_append2 ip_header_def
        ip_header0_puts [where n = "20 + length l4"])
qed

lemma ip_header_fields:
  shows "ip_header src dst proto n ! 0 = 0x45"
    and "sub (ip_header src dst proto n) 2 4 = to_be_bytes (of_nat n :: u16)"
    and "ip_header src dst proto n ! 9 = proto"
    and "sub (ip_header src dst proto n) 12 16 = to_be_bytes src"
    and "sub (ip_header src dst proto n) 16 20 = to_be_bytes dst"
    and "checksum (ip_header src dst proto n) = 0"
proof -
  show "checksum (ip_header src dst proto n) = 0"
    unfolding ip_header_def by (rule ip.insert_verifies) (simp_all add: ip_header0_def nth_append)
qed (simp_all add: ip_header_def ip_header0_def put_def nth_append)

end
