(* ===== verification/Icmp.thy ===== *)
theory Icmp
  imports Ipv4
begin

text \<open>
  \<^verbatim>\<open>core/src/icmp.rs\<close>: answering \<open>ping\<close> and \<open>ping6\<close> inside the tunnel. The operations
  are written with the checked slice operations of the prelude, in the order of the code;
  \<open>echo_reply_eq\<close> and \<open>echo_reply_v6_eq\<close> show that they never panic, whatever the
  decrypted packet holds, and give their result in closed form.
\<close>

subsection \<open>IPv4\<close>

definition echo_reply :: "bytes \<Rightarrow> bytes option panics" where
  "echo_reply inner =
    (if length inner < 20 then Some None else do {
     b0 \<leftarrow> idx inner 0;
     if drop_bit 4 b0 \<noteq> 4 then Some None else do {
     let ihl = unat (b0 AND 0x0f) * 4;
     b2 \<leftarrow> idx inner 2;
     b3 \<leftarrow> idx inner 3;
     let total_len = unat (from_be_bytes [b2, b3] :: u16);
     if ihl < 20 \<or> total_len < ihl \<or> total_len > length inner then Some None else do {
     proto \<leftarrow> idx inner 9;
     if proto \<noteq> 1 then Some None else do {
     icmp \<leftarrow> subslice inner ihl total_len;
     if length icmp < 8 then Some None else do {
     typ \<leftarrow> idx icmp 0;
     if typ \<noteq> 8 then Some None else do {
     pkt \<leftarrow> subslice inner 0 total_len;
     src \<leftarrow> subslice pkt 12 16;
     dst \<leftarrow> subslice pkt 16 20;
     pkt \<leftarrow> copy_from pkt 12 16 dst;
     pkt \<leftarrow> copy_from pkt 16 20 src;
     pkt \<leftarrow> store pkt ihl 0;
     pkt \<leftarrow> store pkt (ihl + 2) 0;
     pkt \<leftarrow> store pkt (ihl + 3) 0;
     msg \<leftarrow> subslice pkt ihl total_len;
     pkt \<leftarrow> copy_from pkt (ihl + 2) (ihl + 4) (to_be_bytes (icmp_checksum msg));
     pkt \<leftarrow> store pkt 10 0;
     pkt \<leftarrow> store pkt 11 0;
     hdr \<leftarrow> subslice pkt 0 ihl;
     pkt \<leftarrow> copy_from pkt 10 12 (to_be_bytes (icmp_checksum hdr));
     Some (Some pkt)
     }}}}}})"

subsection \<open>IPv6\<close>

definition echo_reply_v6 :: "bytes \<Rightarrow> bytes option panics" where
  "echo_reply_v6 inner =
    (if length inner < 40 then Some None else do {
     b0 \<leftarrow> idx inner 0;
     if drop_bit 4 b0 \<noteq> 6 then Some None else do {
     nh \<leftarrow> idx inner 6;
     if nh \<noteq> 58 then Some None else do {
     b4 \<leftarrow> idx inner 4;
     b5 \<leftarrow> idx inner 5;
     let payload_len = unat (from_be_bytes [b4, b5] :: u16);
     let total = 40 + payload_len;
     if payload_len < 8 \<or> total > length inner then Some None else do {
     typ \<leftarrow> idx inner 40;
     if typ \<noteq> 128 then Some None else do {
     pkt \<leftarrow> subslice inner 0 total;
     src \<leftarrow> subslice pkt 8 24;
     dst \<leftarrow> subslice pkt 24 40;
     pkt \<leftarrow> copy_from pkt 8 24 dst;
     pkt \<leftarrow> copy_from pkt 24 40 src;
     pkt \<leftarrow> store pkt 40 129;
     pkt \<leftarrow> store pkt 42 0;
     pkt \<leftarrow> store pkt 43 0;
     nsrc \<leftarrow> subslice pkt 8 24;
     ndst \<leftarrow> subslice pkt 24 40;
     msg \<leftarrow> subslice pkt 40 total;
     pkt \<leftarrow> copy_from pkt 42 44 (to_be_bytes (icmpv6_checksum nsrc ndst msg));
     Some (Some pkt)
     }}}}})"

definition echo_reply_any :: "bytes \<Rightarrow> bytes option panics" where
  "echo_reply_any inner =
    (case inner of
       [] \<Rightarrow> Some None
     | b # _ \<Rightarrow> if drop_bit 4 b = 4 then echo_reply inner
                else if drop_bit 4 b = 6 then echo_reply_v6 inner
                else Some None)"

subsection \<open>Closed forms\<close>

definition is_echo_request :: "bytes \<Rightarrow> bool" where
  "is_echo_request p \<longleftrightarrow> is_ipv4 p \<and> 20 \<le> ihl_of p \<and> ihl_of p + 8 \<le> total_len_of p \<and>
     total_len_of p \<le> length p \<and> p ! 9 = 1 \<and> p ! ihl_of p = 8"

definition swap_v4 :: "bytes \<Rightarrow> bytes" where
  "swap_v4 pkt = put (put pkt 12 (sub pkt 16 20)) 16 (sub pkt 12 16)"

definition reply_v4 :: "bytes \<Rightarrow> bytes" where
  "reply_v4 p =
    (let ihl = ihl_of p; n = total_len_of p;
         pkt = put (put (put (swap_v4 (sub p 0 n)) ihl [0]) (ihl + 2) [0]) (ihl + 3) [0];
         pkt = put pkt (ihl + 2) (to_be_bytes (icmp_checksum (sub pkt ihl n)));
         pkt = put (put pkt 10 [0]) 11 [0]
     in put pkt 10 (to_be_bytes (icmp_checksum (sub pkt 0 ihl))))"

lemma echo_reply_eq:
  "echo_reply p = Some (if is_echo_request p then Some (reply_v4 p) else None)"
proof (cases "is_echo_request p")
  case True
  then have h: "20 \<le> length p" "drop_bit 4 (p ! 0) = 4" "20 \<le> ihl_of p"
      "ihl_of p + 8 \<le> total_len_of p" "total_len_of p \<le> length p" "p ! 9 = 1" "p ! ihl_of p = 8"
    by (simp_all add: is_echo_request_def is_ipv4_def)
  have ihl: "unat (p ! 0 AND 0x0f) * 4 = ihl_of p" by (simp only: ihl_of_def)
  have tot: "unat (from_be_bytes [p ! 2, p ! 3] :: u16) = total_len_of p" by (simp only: total_len_of_def)
  have "echo_reply p = Some (Some (reply_v4 p))"
    using h ihl tot unfolding echo_reply_def reply_v4_def swap_v4_def Let_def
    by (simp add: rust_simps list_update_put)
  with True show ?thesis by simp
next
  case False
  have ihl: "unat (p ! 0 AND 0x0f) * 4 = ihl_of p" by (simp only: ihl_of_def)
  have tot: "unat (from_be_bytes [p ! 2, p ! 3] :: u16) = total_len_of p" by (simp only: total_len_of_def)
  from False consider "length p < 20"
    | "20 \<le> length p" "drop_bit 4 (p ! 0) \<noteq> 4"
    | "20 \<le> length p" "drop_bit 4 (p ! 0) = 4" "ihl_of p < 20 \<or> total_len_of p < ihl_of p \<or> total_len_of p > length p"
    | "20 \<le> ihl_of p" "ihl_of p \<le> total_len_of p" "total_len_of p \<le> length p" "drop_bit 4 (p ! 0) = 4"
        "p ! 9 \<noteq> 1 \<or> total_len_of p < ihl_of p + 8 \<or> p ! ihl_of p \<noteq> 8"
    unfolding is_echo_request_def is_ipv4_def by linarith
  then have "echo_reply p = Some None"
    by cases (use ihl tot in \<open>auto simp: echo_reply_def rust_simps Let_def\<close>)
  with False show ?thesis by simp
qed

subsection \<open>What a reply is\<close>

lemma is_echo_requestD:
  assumes "is_echo_request p"
  shows "20 \<le> length p" "drop_bit 4 (p ! 0) = 4" "20 \<le> ihl_of p"
    "ihl_of p + 8 \<le> total_len_of p" "total_len_of p \<le> length p" "p ! 9 = 1" "p ! ihl_of p = 8"
  using assms by (simp_all add: is_echo_request_def is_ipv4_def)

lemma ihl_of_bound: "ihl_of p \<le> 60" "even (ihl_of p)"
proof -
  have "p ! 0 AND 0x0f \<le> 0x0f" by (rule word_and_le1)
  then have "unat (p ! 0 AND 0x0f) \<le> 15" by (simp add: word_le_nat_alt)
  then show "ihl_of p \<le> 60" "even (ihl_of p)" by (simp_all add: ihl_of_def)
qed

lemma total_len_of_bound: "total_len_of p < 65536"
  by (simp add: total_len_of_def)

text \<open>The reply keeps every byte of the request outside the fields it rewrites.\<close>

lemma reply_v4_frame:
  assumes "is_echo_request p"
  shows "length (reply_v4 p) = total_len_of p"
    and "sub (reply_v4 p) 0 10 = sub p 0 10"
    and "sub (reply_v4 p) 12 16 = sub p 16 20"
    and "sub (reply_v4 p) 16 20 = sub p 12 16"
    and "sub (reply_v4 p) 20 (ihl_of p) = sub p 20 (ihl_of p)"
    and "reply_v4 p ! ihl_of p = 0"
    and "reply_v4 p ! (ihl_of p + 1) = p ! (ihl_of p + 1)"
    and "sub (reply_v4 p) (ihl_of p + 4) (total_len_of p) = sub p (ihl_of p + 4) (total_len_of p)"
  using is_echo_requestD [OF assms] ihl_of_bound [of p]
  by (simp_all add: reply_v4_def swap_v4_def Let_def)

lemma reply_v4_checksums:
  assumes "is_echo_request p"
  shows "icmp_checksum (sub (reply_v4 p) 0 (ihl_of p)) = 0"
    and "icmp_checksum (sub (reply_v4 p) (ihl_of p) (total_len_of p)) = 0"
proof -
  let ?ihl = "ihl_of p" and ?n = "total_len_of p"
  note b = is_echo_requestD [OF assms] ihl_of_bound [of p] total_len_of_bound [of p]
  define z where "z = put (put (put (swap_v4 (sub p 0 ?n)) ?ihl [0]) (?ihl + 2) [0]) (?ihl + 3) [0]"
  define m where "m = put z (?ihl + 2) (to_be_bytes (icmp_checksum (sub z ?ihl ?n)))"
  define h where "h = put (put m 10 [0]) 11 [0]"
  have r: "reply_v4 p = put h 10 (to_be_bytes (icmp_checksum (sub h 0 ?ihl)))"
    by (simp only: reply_v4_def Let_def z_def m_def h_def)
  have len: "length z = ?n" "length m = ?n" "length h = ?n"
    using b by (simp_all add: z_def m_def h_def swap_v4_def)
  have z0: "sub z ?ihl ?n ! 2 = 0" "sub z ?ihl ?n ! Suc 2 = 0"
    using b len by (simp_all add: z_def swap_v4_def)
  have h0: "sub h 0 ?ihl ! 10 = 0" "sub h 0 ?ihl ! Suc 10 = 0"
    using b len by (simp_all add: h_def)
  have "sub (reply_v4 p) 0 ?ihl = put (sub h 0 ?ihl) 10 (to_be_bytes (icmp_checksum (sub h 0 ?ihl)))"
    using b len by (simp add: r sub_put_inside)
  with h0 b len show "icmp_checksum (sub (reply_v4 p) 0 ?ihl) = 0"
    by (simp add: icmp.insert_verifies)
  have "sub (reply_v4 p) ?ihl ?n = sub m ?ihl ?n"
    using b len by (simp add: r h_def)
  also have "\<dots> = put (sub z ?ihl ?n) 2 (to_be_bytes (icmp_checksum (sub z ?ihl ?n)))"
    using b len by (simp add: m_def sub_put_inside)
  finally show "icmp_checksum (sub (reply_v4 p) ?ihl ?n) = 0"
    using z0 b len by (simp add: icmp.insert_verifies)
qed

subsection \<open>The IPv6 reply\<close>

definition payload_len_of :: "bytes \<Rightarrow> nat" where
  "payload_len_of p = unat (from_be_bytes [p ! 4, p ! 5] :: u16)"

definition is_echo_request_v6 :: "bytes \<Rightarrow> bool" where
  "is_echo_request_v6 p \<longleftrightarrow> 48 \<le> length p \<and> drop_bit 4 (p ! 0) = 6 \<and> p ! 6 = 58 \<and>
     8 \<le> payload_len_of p \<and> 40 + payload_len_of p \<le> length p \<and> p ! 40 = 128"

definition zeroed_v6 :: "bytes \<Rightarrow> bytes" where
  "zeroed_v6 p =
    (let pkt = sub p 0 (40 + payload_len_of p);
         pkt = put (put pkt 8 (sub pkt 24 40)) 24 (sub pkt 8 24)
     in put (put (put pkt 40 [129]) 42 [0]) 43 [0])"

definition reply_v6 :: "bytes \<Rightarrow> bytes" where
  "reply_v6 p =
    (let z = zeroed_v6 p
     in put z 42 (to_be_bytes (icmpv6_checksum (sub p 24 40) (sub p 8 24)
                                 (sub z 40 (40 + payload_len_of p)))))"

lemma is_echo_request_v6D:
  assumes "is_echo_request_v6 p"
  shows "48 \<le> length p" "drop_bit 4 (p ! 0) = 6" "p ! 6 = 58" "8 \<le> payload_len_of p"
    "40 + payload_len_of p \<le> length p" "p ! 40 = 128"
  using assms by (simp_all add: is_echo_request_v6_def)

lemma echo_reply_v6_eq:
  "echo_reply_v6 p = Some (if is_echo_request_v6 p then Some (reply_v6 p) else None)"
proof -
  have pl: "unat (from_be_bytes [p ! 4, p ! 5] :: u16) = payload_len_of p" by (simp only: payload_len_of_def)
  show ?thesis
  proof (cases "is_echo_request_v6 p")
    case True
    then have "echo_reply_v6 p = Some (Some (reply_v6 p))"
      using is_echo_request_v6D [OF True] pl
      unfolding echo_reply_v6_def reply_v6_def zeroed_v6_def Let_def
      by (simp add: rust_simps list_update_put)
    with True show ?thesis by simp
  next
    case False
    then consider "length p < 40"
      | "40 \<le> length p" "drop_bit 4 (p ! 0) \<noteq> 6 \<or> p ! 6 \<noteq> 58"
      | "40 \<le> length p" "drop_bit 4 (p ! 0) = 6" "p ! 6 = 58" "payload_len_of p < 8 \<or> length p < 40 + payload_len_of p"
      | "40 + payload_len_of p \<le> length p" "8 \<le> payload_len_of p" "drop_bit 4 (p ! 0) = 6" "p ! 6 = 58" "p ! 40 \<noteq> 128"
      unfolding is_echo_request_v6_def by linarith
    then have "echo_reply_v6 p = Some None"
      by cases (use pl in \<open>auto simp: echo_reply_v6_def rust_simps Let_def\<close>)
    with False show ?thesis by simp
  qed
qed

lemma reply_v6_frame:
  assumes "is_echo_request_v6 p"
  shows "length (reply_v6 p) = 40 + payload_len_of p"
    and "sub (reply_v6 p) 0 8 = sub p 0 8"
    and "sub (reply_v6 p) 8 24 = sub p 24 40"
    and "sub (reply_v6 p) 24 40 = sub p 8 24"
    and "reply_v6 p ! 40 = 129"
    and "reply_v6 p ! 41 = p ! 41"
    and "sub (reply_v6 p) 44 (40 + payload_len_of p) = sub p 44 (40 + payload_len_of p)"
  using is_echo_request_v6D [OF assms]
  by (simp_all add: reply_v6_def zeroed_v6_def Let_def)

lemma reply_v6_checksum:
  assumes "is_echo_request_v6 p"
  shows "icmpv6_checksum (sub (reply_v6 p) 8 24) (sub (reply_v6 p) 24 40)
           (sub (reply_v6 p) 40 (40 + payload_len_of p)) = 0"
proof -
  let ?n = "40 + payload_len_of p" and ?z = "zeroed_v6 p"
  note b = is_echo_request_v6D [OF assms]
  have pl: "payload_len_of p < 65536" by (simp add: payload_len_of_def)
  have len: "length ?z = ?n" using b by (simp add: zeroed_v6_def)
  obtain s d :: ipv6addr where s: "sub p 24 40 = to_be_bytes s" and d: "sub p 8 24 = to_be_bytes d"
  proof
    show "sub p 24 40 = to_be_bytes (from_be_bytes (sub p 24 40) :: ipv6addr)"
      and "sub p 8 24 = to_be_bytes (from_be_bytes (sub p 8 24) :: ipv6addr)"
      using b by (simp_all add: to_from_be_bytes)
  qed
  have z0: "sub ?z 40 ?n ! 2 = 0" "sub ?z 40 ?n ! Suc 2 = 0"
    using b len by (simp_all add: zeroed_v6_def Let_def)
  have "sub (reply_v6 p) 40 ?n = put (sub ?z 40 ?n) 2
      (to_be_bytes (icmpv6_checksum (sub p 24 40) (sub p 8 24) (sub ?z 40 ?n)))"
    using b len by (simp add: reply_v6_def Let_def sub_put_inside)
  moreover have "icmpv6_checksum (to_be_bytes s) (to_be_bytes d)
      (put (sub ?z 40 ?n) 2 (to_be_bytes (icmpv6_checksum (to_be_bytes s) (to_be_bytes d) (sub ?z 40 ?n)))) = 0"
    using z0 b len pl by (intro icmpv6.insert_verifies) simp_all
  ultimately show ?thesis using reply_v6_frame(3,4) [OF assms] by (simp only: s d)
qed

lemma reply_v6_not_request: "is_echo_request_v6 p \<Longrightarrow> \<not> is_echo_request_v6 (reply_v6 p)"
  by (simp add: is_echo_request_v6_def [of "reply_v6 p"] reply_v6_frame(5))

lemma echo_reply_any_eq:
  "echo_reply_any p =
     Some (if is_echo_request p then Some (reply_v4 p)
           else if is_echo_request_v6 p then Some (reply_v6 p) else None)"
  by (cases p) (auto simp: echo_reply_any_def echo_reply_eq echo_reply_v6_eq is_echo_request_def
      is_ipv4_def is_echo_request_v6_def)

lemma request_versions_disjoint: "is_echo_request p \<Longrightarrow> \<not> is_echo_request_v6 p"
  by (simp add: is_echo_request_def is_ipv4_def is_echo_request_v6_def)

lemma first_byte_kept:
  "is_echo_request p \<Longrightarrow> reply_v4 p ! 0 = p ! 0"
  "is_echo_request_v6 p \<Longrightarrow> reply_v6 p ! 0 = p ! 0"
proof -
  assume r: "is_echo_request p"
  have "sub (reply_v4 p) 0 10 ! 0 = sub p 0 10 ! 0" using reply_v4_frame(2) [OF r] by simp
  then show "reply_v4 p ! 0 = p ! 0"
    using is_echo_requestD [OF r] reply_v4_frame(1) [OF r] by simp
next
  assume r: "is_echo_request_v6 p"
  have "sub (reply_v6 p) 0 8 ! 0 = sub p 0 8 ! 0" using reply_v6_frame(2) [OF r] by simp
  then show "reply_v6 p ! 0 = p ! 0"
    using is_echo_request_v6D [OF r] reply_v6_frame(1) [OF r] by simp
qed

text \<open>A reply is never itself answered, so two nodes cannot ping each other forever.\<close>

lemma reply_v4_not_request:
  assumes "is_echo_request p"
  shows "\<not> is_echo_request (reply_v4 p)"
proof -
  have "ihl_of (reply_v4 p) = ihl_of p" by (simp add: ihl_of_def first_byte_kept(1) [OF assms])
  then show ?thesis using reply_v4_frame(6) [OF assms] by (simp add: is_echo_request_def)
qed

subsection \<open>Properties\<close>

text \<open>
  Answering a ping cannot crash the data plane: for every decrypted packet, of any
  length and content, \<open>echo_reply_any\<close> returns without an out-of-range access.
\<close>

theorem echo_reply_any_no_panic: "\<exists>r. echo_reply_any p = Some r"
  by (simp add: echo_reply_any_eq)

text \<open>
  C23. An IPv4 echo reply is produced exactly for a well-formed echo request, has the
  length the request's header claims, swaps source and destination, is of type 0, keeps
  code, identifier, sequence number, payload and every other header byte, and both of
  its checksums verify.
\<close>

theorem echo_reply_v4_correct:
  assumes "echo_reply p = Some (Some r)"
  shows "is_echo_request p \<and> length r = total_len_of p \<and>
    sub r 0 10 = sub p 0 10 \<and> sub r 12 16 = sub p 16 20 \<and> sub r 16 20 = sub p 12 16 \<and>
    sub r 20 (ihl_of p) = sub p 20 (ihl_of p) \<and>
    r ! ihl_of p = 0 \<and> r ! (ihl_of p + 1) = p ! (ihl_of p + 1) \<and>
    sub r (ihl_of p + 4) (total_len_of p) = sub p (ihl_of p + 4) (total_len_of p) \<and>
    icmp_checksum (sub r 0 (ihl_of p)) = 0 \<and>
    icmp_checksum (sub r (ihl_of p) (total_len_of p)) = 0"
  using assms reply_v4_frame [of p] reply_v4_checksums [of p]
  by (simp add: echo_reply_eq split: if_splits)

definition sample_ping :: bytes where
  "sample_ping = [0x45, 0, 0, 29, 0, 1, 0x40, 0, 64, 1, 0, 0, 100, 64, 0, 1, 100, 64, 0, 2,
                  8, 0, 0, 0, 0, 7, 0, 1, 0x41, 0, 0, 0]"

lemma sample_ping_request: "is_echo_request sample_ping"
  by (simp add: is_echo_request_def is_ipv4_def ihl_of_def total_len_of_def sample_ping_def from_be_16)

theorem echo_reply_v4_correct_witness:
  "\<exists>r. echo_reply sample_ping = Some (Some r) \<and> length r = 29 \<and>
     sub r 12 16 = [100, 64, 0, 2] \<and> r ! 20 = 0 \<and> icmp_checksum (sub r 0 20) = 0"
proof -
  have e: "echo_reply sample_ping = Some (Some (reply_v4 sample_ping))"
    by (simp add: echo_reply_eq sample_ping_request)
  have "ihl_of sample_ping = 20" "total_len_of sample_ping = 29" "sub sample_ping 16 20 = [100, 64, 0, 2]"
    by (simp_all add: ihl_of_def total_len_of_def sample_ping_def from_be_16 sub_def)
  with e echo_reply_v4_correct [OF e] show ?thesis by auto
qed

text \<open>
  The IPv6 reply: source and destination swapped, type 129, the rest of the header,
  the code and the payload kept, and a checksum over the reply's own pseudo-header
  that verifies.
\<close>

theorem echo_reply_v6_correct:
  assumes "echo_reply_v6 p = Some (Some r)"
  shows "is_echo_request_v6 p \<and> length r = 40 + payload_len_of p \<and>
    sub r 0 8 = sub p 0 8 \<and> sub r 8 24 = sub p 24 40 \<and> sub r 24 40 = sub p 8 24 \<and>
    r ! 40 = 129 \<and> r ! 41 = p ! 41 \<and>
    sub r 44 (40 + payload_len_of p) = sub p 44 (40 + payload_len_of p) \<and>
    icmpv6_checksum (sub r 8 24) (sub r 24 40) (sub r 40 (40 + payload_len_of p)) = 0"
  using assms reply_v6_frame [of p] reply_v6_checksum [of p]
  by (simp add: echo_reply_v6_eq split: if_splits)

definition sample_ping6 :: bytes where
  "sample_ping6 = [0x60, 0, 0, 0, 0, 8, 58, 64] @ replicate 15 0 @ [1] @ replicate 15 0 @ [2] @
                  [128, 0, 0, 0, 0, 7, 0, 1]"

theorem echo_reply_v6_correct_witness:
  "\<exists>r. echo_reply_v6 sample_ping6 = Some (Some r) \<and> length r = 48 \<and> r ! 40 = 129"
proof -
  have pl: "payload_len_of sample_ping6 = 8"
    by (simp add: payload_len_of_def sample_ping6_def from_be_16)
  then have "is_echo_request_v6 sample_ping6"
    by (simp add: is_echo_request_v6_def) (simp add: sample_ping6_def nth_append)
  then have e: "echo_reply_v6 sample_ping6 = Some (Some (reply_v6 sample_ping6))"
    by (simp add: echo_reply_v6_eq)
  with pl echo_reply_v6_correct [OF e] show ?thesis by auto
qed

text \<open>
  A reply is never answered: feeding any reply back into \<open>echo_reply_any\<close> yields
  nothing, so no exchange of echo packets between nodes running this code can loop.
\<close>

theorem echo_reply_never_answered:
  assumes "echo_reply_any p = Some (Some r)"
  shows "echo_reply_any r = Some None"
proof -
  have "is_echo_request p \<and> r = reply_v4 p \<or> is_echo_request_v6 p \<and> r = reply_v6 p"
    using assms by (auto simp: echo_reply_any_eq split: if_splits)
  then have "\<not> is_echo_request r \<and> \<not> is_echo_request_v6 r"
  proof
    assume r: "is_echo_request p \<and> r = reply_v4 p"
    then have "drop_bit 4 (r ! 0) = 4"
      using first_byte_kept(1) [of p] is_echo_requestD(2) [of p] by simp
    with r show ?thesis by (auto simp: reply_v4_not_request is_echo_request_v6_def)
  next
    assume r: "is_echo_request_v6 p \<and> r = reply_v6 p"
    then have "drop_bit 4 (r ! 0) = 6"
      using first_byte_kept(2) [of p] is_echo_request_v6D(2) [of p] by simp
    with r show ?thesis by (auto simp: reply_v6_not_request is_echo_request_def is_ipv4_def)
  qed
  then show ?thesis by (simp add: echo_reply_any_eq)
qed

theorem echo_reply_never_answered_witness:
  "\<exists>r. echo_reply_any sample_ping = Some (Some r) \<and> echo_reply_any r = Some None"
proof -
  have e: "echo_reply_any sample_ping = Some (Some (reply_v4 sample_ping))"
    by (simp add: echo_reply_any_eq sample_ping_request)
  with echo_reply_never_answered [OF e] show ?thesis by blast
qed

end
