(* ===== verification/Stun.thy ===== *)
theory Stun
  imports Rust_Prelude
begin

text \<open>
  \<^verbatim>\<open>core/src/stun.rs\<close>: the STUN binding client. The request builder, the response parser with
  its loop over the attributes, and the two address decoders, on checked slices; the random
  transaction id is an argument. The reference is a server's side: \<open>binding_response\<close>
  encodes a list of attributes as RFC 5389 lays them out, and the parser is shown to find the
  first usable address of any such message, to return for every datagram, and to accept only
  answers to its own request.
\<close>

subsection \<open>The client\<close>

definition MAGIC_COOKIE :: u32 where "MAGIC_COOKIE = 0x2112A442"

definition BINDING_REQUEST :: u16 where "BINDING_REQUEST = 0x0001"
definition BINDING_RESPONSE :: u16 where "BINDING_RESPONSE = 0x0101"

definition ATTR_MAPPED_ADDRESS :: u16 where "ATTR_MAPPED_ADDRESS = 0x0001"
definition ATTR_XOR_MAPPED_ADDRESS :: u16 where "ATTR_XOR_MAPPED_ADDRESS = 0x0020"

type_synonym socket_addr_v4 = "ipv4addr \<times> u16"

datatype stun_error =
    StunTooShort nat
  | NotBindingResponse u16
  | BadCookie u32
  | TxidMismatch
  | NoMappedAddress

definition binding_request :: "bytes \<Rightarrow> (bytes \<times> bytes) panics" where
  "binding_request txid = do {
     let req = replicate 20 0;
     req \<leftarrow> copy_from req 0 2 (to_be_bytes BINDING_REQUEST);
     req \<leftarrow> copy_from req 2 4 (to_be_bytes (0 :: u16));
     req \<leftarrow> copy_from req 4 8 (to_be_bytes MAGIC_COOKIE);
     req \<leftarrow> copy_from req 8 20 txid;
     Some (req, txid)
   }"

definition parse_xor_mapped :: "bytes \<Rightarrow> socket_addr_v4 option panics" where
  "parse_xor_mapped val =
    (if length val < 8 then Some None else do {
     family \<leftarrow> idx val 1;
     if family \<noteq> 0x01 then Some None else do {
     p0 \<leftarrow> idx val 2; p1 \<leftarrow> idx val 3;
     let x_port = (from_be_bytes [p0, p1] :: u16);
     let port = x_port XOR ucast (drop_bit 16 MAGIC_COOKIE);
     a0 \<leftarrow> idx val 4; a1 \<leftarrow> idx val 5; a2 \<leftarrow> idx val 6; a3 \<leftarrow> idx val 7;
     let x_addr = (from_be_bytes [a0, a1, a2, a3] :: u32);
     let addr = x_addr XOR MAGIC_COOKIE;
     Some (Some (addr, port))
     }})"

definition parse_mapped :: "bytes \<Rightarrow> socket_addr_v4 option panics" where
  "parse_mapped val =
    (if length val < 8 then Some None else do {
     family \<leftarrow> idx val 1;
     if family \<noteq> 0x01 then Some None else do {
     p0 \<leftarrow> idx val 2; p1 \<leftarrow> idx val 3;
     let port = (from_be_bytes [p0, p1] :: u16);
     a0 \<leftarrow> idx val 4; a1 \<leftarrow> idx val 5; a2 \<leftarrow> idx val 6; a3 \<leftarrow> idx val 7;
     let addr = (from_be_bytes [a0, a1, a2, a3] :: u32);
     Some (Some (addr, port))
     }})"

text \<open>The body of the \<open>match\<close> on the attribute type: \<open>Some\<close> is the early return.\<close>

definition attr_address :: "u16 \<Rightarrow> bytes \<Rightarrow> socket_addr_v4 option panics" where
  "attr_address atype val =
    (if atype = ATTR_XOR_MAPPED_ADDRESS then parse_xor_mapped val
     else if atype = ATTR_MAPPED_ADDRESS then parse_mapped val
     else Some None)"

text \<open>The loop \<^verbatim>\<open>while i + 4 <= end\<close>; \<open>i\<close> grows by at least four each time round.\<close>

function attr_loop :: "bytes \<Rightarrow> nat \<Rightarrow> nat \<Rightarrow> (stun_error + socket_addr_v4) panics" where
  "attr_loop buf fin i =
    (if \<not> i + 4 \<le> fin then Some (Inl NoMappedAddress) else do {
     t0 \<leftarrow> idx buf i; t1 \<leftarrow> idx buf (i + 1);
     let atype = (from_be_bytes [t0, t1] :: u16);
     l0 \<leftarrow> idx buf (i + 2); l1 \<leftarrow> idx buf (i + 3);
     let alen = unat (from_be_bytes [l0, l1] :: u16);
     let val_start = i + 4;
     let val_end = val_start + alen;
     if val_end > fin then Some (Inl NoMappedAddress) else do {
     val \<leftarrow> subslice buf val_start val_end;
     r \<leftarrow> attr_address atype val;
     (case r of
        Some addr \<Rightarrow> Some (Inr addr)
      | None \<Rightarrow> attr_loop buf fin (val_end + ((4 - (alen AND 3)) AND 3)))
     }})"
  by pat_completeness auto
termination
  by (relation "measure (\<lambda>(buf, fin, i). fin - i)") auto

declare attr_loop.simps [simp del]

definition parse_response :: "bytes \<Rightarrow> bytes \<Rightarrow> (stun_error + socket_addr_v4) panics" where
  "parse_response buf txid =
    (if length buf < 20 then Some (Inl (StunTooShort (length buf))) else do {
     b0 \<leftarrow> idx buf 0; b1 \<leftarrow> idx buf 1;
     let msg_type = (from_be_bytes [b0, b1] :: u16);
     if msg_type \<noteq> BINDING_RESPONSE then Some (Inl (NotBindingResponse msg_type)) else do {
     b4 \<leftarrow> idx buf 4; b5 \<leftarrow> idx buf 5; b6 \<leftarrow> idx buf 6; b7 \<leftarrow> idx buf 7;
     let cookie = (from_be_bytes [b4, b5, b6, b7] :: u32);
     if cookie \<noteq> MAGIC_COOKIE then Some (Inl (BadCookie cookie)) else do {
     id \<leftarrow> subslice buf 8 20;
     if id \<noteq> txid then Some (Inl TxidMismatch) else do {
     b2 \<leftarrow> idx buf 2; b3 \<leftarrow> idx buf 3;
     let msg_len = unat (from_be_bytes [b2, b3] :: u16);
     let fin = min (20 + msg_len) (length buf);
     attr_loop buf fin 20
     }}}})"

definition is_stun :: "bytes \<Rightarrow> bool panics" where
  "is_stun buf =
    (if \<not> 8 \<le> length buf then Some False else do {
     b4 \<leftarrow> idx buf 4; b5 \<leftarrow> idx buf 5; b6 \<leftarrow> idx buf 6; b7 \<leftarrow> idx buf 7;
     Some ((from_be_bytes [b4, b5, b6, b7] :: u32) = MAGIC_COOKIE)
     })"

subsection \<open>Closed forms\<close>

definition decode_mapped :: "u16 \<Rightarrow> u32 \<Rightarrow> bytes \<Rightarrow> socket_addr_v4 option" where
  "decode_mapped xp xa val =
    (if 8 \<le> length val \<and> val ! 1 = 1
     then Some (from_be_bytes (sub val 4 8) XOR xa, from_be_bytes (sub val 2 4) XOR xp)
     else None)"

definition usable_address :: "u16 \<Rightarrow> bytes \<Rightarrow> socket_addr_v4 option" where
  "usable_address atype val =
    (if atype = ATTR_XOR_MAPPED_ADDRESS then decode_mapped 0x2112 MAGIC_COOKIE val
     else if atype = ATTR_MAPPED_ADDRESS then decode_mapped 0 0 val
     else None)"

lemma attr_address_eq: "attr_address atype val = Some (usable_address atype val)"
  by (simp add: attr_address_def usable_address_def parse_xor_mapped_def parse_mapped_def
      decode_mapped_def sub_2_eq sub_4_eq rust_simps MAGIC_COOKIE_def Let_def)

lemma is_stun_eq: "is_stun buf = Some (8 \<le> length buf \<and> from_be_bytes (sub buf 4 8) = MAGIC_COOKIE)"
  by (simp add: is_stun_def rust_simps sub_4_eq)

lemma attr_loop_returns: "fin \<le> length buf \<Longrightarrow> \<exists>r. attr_loop buf fin i = Some r"
proof (induction buf fin i rule: attr_loop.induct)
  case (1 buf fin i)
  show ?case
  proof (cases "i + 4 \<le> fin")
    case False
    then show ?thesis by (simp add: attr_loop.simps)
  next
    case True
    with 1(2) have in_range: "i < length buf" "i + 1 < length buf" "i + 2 < length buf" "i + 3 < length buf"
      by simp_all
    show ?thesis
      using 1 True in_range
      by (subst attr_loop.simps) (auto simp: rust_simps Let_def attr_address_eq split: option.splits)
  qed
qed

subsection \<open>A server's response\<close>

text \<open>The RFC 5389 layout: type, length, value, zero padding to a multiple of four.\<close>

definition pad4 :: "nat \<Rightarrow> nat" where
  "pad4 n = (3 * n) mod 4"

definition enc_attr :: "u16 \<times> bytes \<Rightarrow> bytes" where
  "enc_attr a = to_be_bytes (fst a) @ to_be_bytes (of_nat (length (snd a)) :: u16) @ snd a @
     replicate (pad4 (length (snd a))) 0"

definition binding_response :: "bytes \<Rightarrow> (u16 \<times> bytes) list \<Rightarrow> bytes" where
  "binding_response txid attrs =
     to_be_bytes BINDING_RESPONSE @ to_be_bytes (of_nat (length (concat (map enc_attr attrs))) :: u16) @
     to_be_bytes MAGIC_COOKIE @ txid @ concat (map enc_attr attrs)"

definition xor_mapped_attr :: "socket_addr_v4 \<Rightarrow> u16 \<times> bytes" where
  "xor_mapped_attr a = (ATTR_XOR_MAPPED_ADDRESS,
     [0, 1] @ to_be_bytes (snd a XOR 0x2112) @ to_be_bytes (fst a XOR MAGIC_COOKIE))"

definition mapped_attr :: "socket_addr_v4 \<Rightarrow> u16 \<times> bytes" where
  "mapped_attr a = (ATTR_MAPPED_ADDRESS, [0, 1] @ to_be_bytes (snd a) @ to_be_bytes (fst a))"

primrec first_address :: "(u16 \<times> bytes) list \<Rightarrow> socket_addr_v4 option" where
  "first_address [] = None"
| "first_address (a # as) =
    (case usable_address (fst a) (snd a) of Some x \<Rightarrow> Some x | None \<Rightarrow> first_address as)"

lemma pad4_code: "(4 - (n AND 3)) AND 3 = pad4 n"
proof -
  have a: "m AND 3 = m mod 4" for m :: nat
    using take_bit_eq_mask [of 2 m] by (simp add: mask_eq_exp_minus_1 take_bit_eq_mod)
  have "n mod 4 = 0 \<or> n mod 4 = 1 \<or> n mod 4 = 2 \<or> n mod 4 = 3" by linarith
  then show ?thesis by (auto simp: a pad4_def mod_mult_right_eq [of 3 n 4, symmetric])
qed

lemma attr_loop_step:
  assumes "i + 4 \<le> fin" and "fin \<le> length buf"
  defines "alen \<equiv> unat (from_be_bytes (sub buf (i + 2) (i + 4)) :: u16)"
  defines "atype \<equiv> (from_be_bytes (sub buf i (i + 2)) :: u16)"
  shows "attr_loop buf fin i =
    (if i + 4 + alen > fin then Some (Inl NoMappedAddress)
     else case usable_address atype (sub buf (i + 4) (i + 4 + alen)) of
            Some addr \<Rightarrow> Some (Inr addr)
          | None \<Rightarrow> attr_loop buf fin (i + 4 + alen + pad4 alen))"
proof -
  have "sub buf i (i + 2) = [buf ! i, buf ! (i + 1)]"
      "sub buf (i + 2) (i + 4) = [buf ! (i + 2), buf ! (i + 3)]"
    using assms(1,2) by (simp_all add: sub_2_eq add.commute)
  with assms(1,2) show ?thesis unfolding alen_def atype_def
    by (subst attr_loop.simps) (simp add: rust_simps attr_address_eq pad4_code Let_def split: option.splits)
qed

lemma length_enc_attr: "length (enc_attr a) = 4 + length (snd a) + pad4 (length (snd a))"
  by (simp add: enc_attr_def)

lemma attr_loop_encoded:
  assumes "\<forall>a \<in> set attrs. length (snd a) < 65536"
  shows "attr_loop (pre @ concat (map enc_attr attrs) @ post) (length pre + length (concat (map enc_attr attrs))) (length pre) =
    Some (case first_address attrs of Some x \<Rightarrow> Inr x | None \<Rightarrow> Inl NoMappedAddress)"
  using assms
proof (induction attrs arbitrary: pre)
  case Nil
  then show ?case by (simp add: attr_loop.simps)
next
  case (Cons a as)
  obtain t v where a: "a = (t, v)" by (cases a)
  let ?rest = "concat (map enc_attr as) @ post"
  let ?buf = "pre @ concat (map enc_attr (a # as)) @ post"
  let ?fin = "length pre + length (concat (map enc_attr (a # as)))"
  have v: "length v < 65536" using Cons.prems a by simp
  have fin: "length pre + 4 \<le> ?fin" "?fin \<le> length ?buf" by (simp_all add: length_enc_attr)
  have hdr: "sub ?buf (length pre) (length pre + 2) = to_be_bytes t"
      "sub ?buf (length pre + 2) (length pre + 4) = to_be_bytes (of_nat (length v) :: u16)"
      "sub ?buf (length pre + 4) (length pre + 4 + length v) = v"
    by (simp_all add: a enc_attr_def)
  have alen: "unat (of_nat (length v) :: u16) = length v"
    using v by (simp add: unat_of_nat)
  have next_buf: "?buf = (pre @ enc_attr a) @ ?rest" by simp
  have next_i: "length pre + 4 + length v + pad4 (length v) = length (pre @ enc_attr a)"
    by (simp add: length_enc_attr a)
  have next_fin: "?fin = length (pre @ enc_attr a) + length (concat (map enc_attr as))" by simp
  have IH: "attr_loop ?buf ?fin (length pre + 4 + length v + pad4 (length v)) =
      Some (case first_address as of Some x \<Rightarrow> Inr x | None \<Rightarrow> Inl NoMappedAddress)"
    unfolding next_i next_fin next_buf by (rule Cons.IH) (use Cons.prems in simp)
  have "\<not> length pre + 4 + length v > ?fin" by (simp add: length_enc_attr a)
  then show ?case
    unfolding attr_loop_step [OF fin] hdr bytes_roundtrip alen IH
    by (simp add: a split: option.splits)
qed

lemma parse_response_header:
  "parse_response buf txid =
    Some (if length buf < 20 then Inl (StunTooShort (length buf))
     else if from_be_bytes (sub buf 0 2) \<noteq> BINDING_RESPONSE then Inl (NotBindingResponse (from_be_bytes (sub buf 0 2)))
     else if from_be_bytes (sub buf 4 8) \<noteq> MAGIC_COOKIE then Inl (BadCookie (from_be_bytes (sub buf 4 8)))
     else if sub buf 8 20 \<noteq> txid then Inl TxidMismatch
     else the (attr_loop buf (min (20 + unat (from_be_bytes (sub buf 2 4) :: u16)) (length buf)) 20))"
proof -
  obtain r where "attr_loop buf (min (20 + unat (from_be_bytes (sub buf 2 4) :: u16)) (length buf)) 20 = Some r"
    using attr_loop_returns by fastforce
  moreover have "sub buf 0 2 = [buf ! 0, buf ! 1]" "sub buf 2 4 = [buf ! 2, buf ! 3]"
      "sub buf 4 8 = [buf ! 4, buf ! 5, buf ! 6, buf ! 7]" if "\<not> length buf < 20"
    using that by (simp_all add: sub_2_eq sub_4_eq)
  ultimately show ?thesis
    by (cases "length buf < 20") (simp_all add: parse_response_def rust_simps Let_def)
qed

lemma binding_request_eq:
  "length txid = 12 \<Longrightarrow> binding_request txid =
     Some (to_be_bytes BINDING_REQUEST @ to_be_bytes (0 :: u16) @ to_be_bytes MAGIC_COOKIE @ txid, txid)"
  by (simp add: binding_request_def rust_simps put_def)

lemma parse_encoded:
  assumes "length txid = 12" and "length (concat (map enc_attr attrs)) < 65536"
  shows "parse_response (binding_response txid attrs @ post) txid =
      Some (case first_address attrs of Some x \<Rightarrow> Inr x | None \<Rightarrow> Inl NoMappedAddress)"
proof -
  let ?body = "concat (map enc_attr attrs)"
  let ?pre = "to_be_bytes BINDING_RESPONSE @ to_be_bytes (of_nat (length ?body) :: u16) @
    to_be_bytes MAGIC_COOKIE @ txid"
  let ?buf = "?pre @ ?body @ post"
  have vals: "\<forall>a \<in> set attrs. length (snd a) < 65536"
  proof
    fix a assume "a \<in> set attrs"
    then have "length (enc_attr a) \<le> length ?body"
      using member_le_sum_list [of "length (enc_attr a)" "map length (map enc_attr attrs)"]
      by (auto simp: length_concat comp_def)
    with assms(2) show "length (snd a) < 65536" by (simp add: length_enc_attr)
  qed
  have buf: "binding_response txid attrs @ post = ?buf" by (simp add: binding_response_def)
  have pre: "length ?pre = 20" using assms(1) by simp
  have hdr: "sub ?buf 0 2 = to_be_bytes BINDING_RESPONSE"
      "sub ?buf 2 4 = to_be_bytes (of_nat (length ?body) :: u16)"
      "sub ?buf 4 8 = to_be_bytes MAGIC_COOKIE" "sub ?buf 8 20 = txid"
    using assms(1) by simp_all
  have fin: "min (20 + unat (of_nat (length ?body) :: u16)) (length ?buf) = length ?pre + length ?body"
    using assms by (simp add: unat_of_nat)
  have "attr_loop ?buf (length ?pre + length ?body) 20 =
      Some (case first_address attrs of Some x \<Rightarrow> Inr x | None \<Rightarrow> Inl NoMappedAddress)"
    using attr_loop_encoded [OF vals, of ?pre post] pre by simp
  moreover have "\<not> length ?buf < 20" using pre by simp
  ultimately have "parse_response ?buf txid =
      Some (case first_address attrs of Some x \<Rightarrow> Inr x | None \<Rightarrow> Inl NoMappedAddress)"
    unfolding parse_response_header hdr bytes_roundtrip fin by simp
  then show ?thesis by (simp add: buf)
qed

lemma usable_xor_mapped [simp]: "usable_address (fst (xor_mapped_attr a)) (snd (xor_mapped_attr a)) = Some a"
  by (simp add: xor_mapped_attr_def usable_address_def decode_mapped_def xor.assoc)

lemma usable_mapped [simp]: "usable_address (fst (mapped_attr a)) (snd (mapped_attr a)) = Some a"
  by (simp add: mapped_attr_def usable_address_def decode_mapped_def ATTR_XOR_MAPPED_ADDRESS_def ATTR_MAPPED_ADDRESS_def)

lemma length_mapped [simp]: "length (enc_attr (mapped_attr a)) = 12"
  by (simp add: length_enc_attr pad4_def mapped_attr_def)

lemma length_xor_mapped [simp]: "length (enc_attr (xor_mapped_attr a)) = 12"
  by (simp add: length_enc_attr pad4_def xor_mapped_attr_def)

subsection \<open>Properties\<close>

text \<open>
  The STUN parser returns for every datagram, panicking on none and leaving its attribute
  loop, and it accepts an address only from a binding response with the magic cookie that
  repeats the twelve bytes of the request's transaction id.
\<close>

theorem parse_response_total:
  "\<exists>r. parse_response buf txid = Some r \<and>
     (\<forall>a. r = Inr a \<longrightarrow> 20 \<le> length buf \<and> sub buf 0 2 = to_be_bytes BINDING_RESPONSE \<and>
        is_stun buf = Some True \<and> sub buf 8 20 = txid)"
proof -
  have "sub buf 0 2 = to_be_bytes BINDING_RESPONSE"
    if "from_be_bytes (sub buf 0 2) = BINDING_RESPONSE" "20 \<le> length buf"
    using that to_from_be_bytes [of "sub buf 0 2", where ?'a = 16] by simp
  then show ?thesis by (auto simp: parse_response_header is_stun_eq)
qed

theorem parse_response_total_witness:
  "parse_response (binding_response (replicate 12 7) [xor_mapped_attr (0xCB007109, 41641)]) (replicate 12 7) =
     Some (Inr (0xCB007109, 41641)) \<and>
   is_stun (binding_response (replicate 12 7) [xor_mapped_attr (0xCB007109, 41641)]) = Some True"
proof -
  let ?m = "binding_response (replicate 12 7) [xor_mapped_attr (0xCB007109, 41641)]"
  have "parse_response ?m (replicate 12 7) = Some (Inr (0xCB007109, 41641))"
    using parse_encoded [of "replicate 12 7" "[xor_mapped_attr (0xCB007109, 41641)]" "[]"] by simp
  with parse_response_total [of ?m "replicate 12 7"] show ?thesis by auto
qed

text \<open>
  C25. STUN round trip: from any RFC 5389 binding response to our request, whatever attributes
  a server puts before or after and whatever bytes follow the message, the parser takes the
  first usable IPv4 address, and reports that there is none when no attribute holds one. An
  endpoint in an XOR-MAPPED-ADDRESS or in a legacy MAPPED-ADDRESS decodes to that endpoint, and
  of the two kinds the one that comes first wins: a legacy address placed before an XOR one is
  taken, although the module's description calls the legacy attribute a fallback.
\<close>

theorem stun_roundtrip:
  assumes "length txid = 12" and "length (concat (map enc_attr attrs)) < 65536"
  shows "parse_response (binding_response txid attrs @ post) txid =
      Some (case first_address attrs of Some x \<Rightarrow> Inr x | None \<Rightarrow> Inl NoMappedAddress) \<and>
    first_address (xor_mapped_attr a # attrs) = Some a \<and>
    first_address (mapped_attr a # attrs) = Some a \<and>
    first_address (mapped_attr b # xor_mapped_attr a # attrs) = Some b"
  using parse_encoded [OF assms] by simp

theorem stun_roundtrip_witness:
  "parse_response (binding_response (replicate 12 7)
      [(0x8022, [1, 2, 3]), xor_mapped_attr (0xCB007109, 41641)]) (replicate 12 7) =
    Some (Inr (0xCB007109, 41641)) \<and>
   parse_response (binding_response (replicate 12 7)
      [mapped_attr (0xC0A80102, 1), xor_mapped_attr (0xCB007109, 41641)]) (replicate 12 7) =
    Some (Inr (0xC0A80102, 1))"
proof -
  have "usable_address 0x8022 [1, 2, 3] = None" "length (enc_attr (0x8022, [1, 2, 3])) = 8"
    by (simp_all add: usable_address_def length_enc_attr pad4_def ATTR_XOR_MAPPED_ADDRESS_def ATTR_MAPPED_ADDRESS_def)
  with stun_roundtrip [of "replicate 12 7" "[(0x8022, [1, 2, 3]), xor_mapped_attr (0xCB007109, 41641)]" "[]"]
    stun_roundtrip [of "replicate 12 7" "[mapped_attr (0xC0A80102, 1), xor_mapped_attr (0xCB007109, 41641)]" "[]"]
  show ?thesis by simp
qed

end
