(* ===== verification/Tcp_Segment.thy ===== *)
theory Tcp_Segment
  imports Ipv4
begin

text \<open>
  TCP segments inside the tunnel. Three parts of the program build and read them: the page
  server (\<^verbatim>\<open>core/src/tcp.rs\<close>), the HTTP client (\<^verbatim>\<open>core/src/outbound.rs\<close>) and the LAN
  proxy (\<^verbatim>\<open>src/proxy.rs\<close>). This theory holds the flags, the front end the two servers share
  (the checks from the IP header to the TCP payload), the reference layout \<open>tcp_packet\<close>
  against which every \<open>segment\<close> function is proved, and the contract \<open>inner_handler\<close> of
  a component that is fed decrypted packets.
\<close>

definition PROTO_ICMP :: u8 where "PROTO_ICMP = 1"
definition PROTO_TCP :: u8 where "PROTO_TCP = 6"
definition PROTO_UDP :: u8 where "PROTO_UDP = 17"

definition FIN :: u8 where "FIN = 0x01"
definition SYN :: u8 where "SYN = 0x02"
definition RST :: u8 where "RST = 0x04"
definition PSH :: u8 where "PSH = 0x08"
definition ACK :: u8 where "ACK = 0x10"

lemmas tcp_flags = FIN_def SYN_def RST_def PSH_def ACK_def

subsection \<open>The front end of the servers\<close>

text \<open>What \<open>handle\<close> of \<^verbatim>\<open>tcp.rs\<close> and of \<^verbatim>\<open>proxy.rs\<close> extract before they look at the port.\<close>

record tcp_seg =
  seg_src :: ipv4addr
  seg_dst :: ipv4addr
  seg_sport :: u16
  seg_dport :: u16
  seg_seq :: u32
  seg_flags :: u8
  seg_payload :: bytes

definition tcp_front :: "bytes \<Rightarrow> tcp_seg option panics" where
  "tcp_front inner =
    (if length inner < 20 then Some None else do {
     b0 \<leftarrow> idx inner 0;
     if drop_bit 4 b0 \<noteq> 4 then Some None else do {
     proto \<leftarrow> idx inner 9;
     if proto \<noteq> PROTO_TCP then Some None else do {
     let ihl = unat (b0 AND 0x0f) * 4;
     b2 \<leftarrow> idx inner 2; b3 \<leftarrow> idx inner 3;
     let tot = unat (from_be_bytes [b2, b3] :: u16);
     if ihl < 20 \<or> tot < ihl + 20 \<or> tot > length inner then Some None else do {
     src_ip \<leftarrow> subslice inner 12 16;
     dst_ip \<leftarrow> subslice inner 16 20;
     tcp \<leftarrow> subslice inner ihl tot;
     t0 \<leftarrow> idx tcp 0; t1 \<leftarrow> idx tcp 1;
     let sport = (from_be_bytes [t0, t1] :: u16);
     t2 \<leftarrow> idx tcp 2; t3 \<leftarrow> idx tcp 3;
     let dport = (from_be_bytes [t2, t3] :: u16);
     t4 \<leftarrow> idx tcp 4; t5 \<leftarrow> idx tcp 5; t6 \<leftarrow> idx tcp 6; t7 \<leftarrow> idx tcp 7;
     let sq = (from_be_bytes [t4, t5, t6, t7] :: u32);
     t12 \<leftarrow> idx tcp 12;
     let data_off = unat (drop_bit 4 t12) * 4;
     flags \<leftarrow> idx tcp 13;
     if data_off < 20 \<or> data_off > length tcp then Some None else do {
     payload \<leftarrow> subslice tcp data_off (length tcp);
     Some (Some \<lparr> seg_src = from_be_bytes src_ip, seg_dst = from_be_bytes dst_ip,
       seg_sport = sport, seg_dport = dport, seg_seq = sq, seg_flags = flags, seg_payload = payload \<rparr>)
     }}}}})"

text \<open>The same as a total function.\<close>

definition read_segment :: "bytes \<Rightarrow> tcp_seg option" where
  "read_segment p =
    (let tcp = sub p (ihl_of p) (total_len_of p);
         off = unat (drop_bit 4 (tcp ! 12)) * 4
     in if is_ipv4 p \<and> p ! 9 = PROTO_TCP \<and> 20 \<le> ihl_of p \<and> ihl_of p + 20 \<le> total_len_of p \<and>
           total_len_of p \<le> length p \<and> 20 \<le> off \<and> off \<le> length tcp
        then Some \<lparr> seg_src = from_be_bytes (sub p 12 16), seg_dst = from_be_bytes (sub p 16 20),
          seg_sport = from_be_bytes (sub tcp 0 2), seg_dport = from_be_bytes (sub tcp 2 4),
          seg_seq = from_be_bytes (sub tcp 4 8), seg_flags = tcp ! 13,
          seg_payload = sub tcp off (length tcp) \<rparr>
        else None)"

lemma tcp_front_eq: "tcp_front p = Some (read_segment p)"
proof (cases "is_ipv4 p \<and> p ! 9 = PROTO_TCP \<and> 20 \<le> ihl_of p \<and> ihl_of p + 20 \<le> total_len_of p \<and>
    total_len_of p \<le> length p")
  case True
  define tcp where "tcp = sub p (ihl_of p) (total_len_of p)"
  have h: "20 \<le> length p" "drop_bit 4 (p ! 0) = 4" "p ! 9 = PROTO_TCP" "20 \<le> ihl_of p"
      "ihl_of p + 20 \<le> total_len_of p" "total_len_of p \<le> length p"
    using True by (simp_all add: is_ipv4_def)
  have n: "20 \<le> length tcp" using h by (simp add: tcp_def)
  have "subslice p (ihl_of p) (total_len_of p) = Some tcp"
    using h by (simp add: rust_simps tcp_def)
  then show ?thesis
    using True h n unfolding tcp_front_def read_segment_def tcp_def [symmetric]
    by (simp add: rust_simps ihl_of_def total_len_of_def sub_2_eq sub_4_eq Let_def)
next
  case False
  then show ?thesis
    by (auto simp: tcp_front_def read_segment_def rust_simps is_ipv4_def ihl_of_def total_len_of_def Let_def)
qed

subsection \<open>The reference layout\<close>

definition tcp_header0 :: "u16 \<Rightarrow> u16 \<Rightarrow> u32 \<Rightarrow> u32 \<Rightarrow> u8 \<Rightarrow> bytes" where
  "tcp_header0 sport dport sq ack flags =
     to_be_bytes sport @ to_be_bytes dport @ to_be_bytes sq @ to_be_bytes ack @ [0x50, flags] @
     to_be_bytes (64240 :: u16) @ [0, 0, 0, 0]"

definition tcp_body :: "ipv4addr \<Rightarrow> ipv4addr \<Rightarrow> bytes \<Rightarrow> bytes" where
  "tcp_body src dst t = put t 16 (to_be_bytes (l4_checksum src dst PROTO_TCP t))"

definition tcp_packet ::
  "ipv4addr \<Rightarrow> ipv4addr \<Rightarrow> u16 \<Rightarrow> u16 \<Rightarrow> u32 \<Rightarrow> u32 \<Rightarrow> u8 \<Rightarrow> bytes \<Rightarrow> bytes" where
  "tcp_packet src dst sport dport sq ack flags payload =
     ip_header src dst PROTO_TCP (40 + length payload) @
     tcp_body src dst (tcp_header0 sport dport sq ack flags @ payload)"

lemma length_tcp_header0 [simp]: "length (tcp_header0 sport dport sq ack flags) = 20"
  by (simp add: tcp_header0_def)

lemma length_tcp_body [simp]: "length (tcp_body src dst t) = length t"
  by (simp add: tcp_body_def)

lemma tcp_header0_puts:
  "put (put (put (put (put (put (put (replicate 20 0) 0 (to_be_bytes sport)) 2 (to_be_bytes dport))
     4 (to_be_bytes sq)) 8 (to_be_bytes ack)) 12 [0x50]) 13 [flags]) 14 (to_be_bytes (64240 :: u16)) =
   tcp_header0 sport dport sq ack flags"
  by (simp add: put_def tcp_header0_def)

text \<open>
  \<open>segment_ok\<close>: what a peer sees. The packet is accepted by the front end with the given
  addresses, ports, sequence number, flags and payload, acknowledges \<open>ack\<close>, and both of its
  checksums verify.
\<close>

definition segment_ok ::
  "bytes \<Rightarrow> ipv4addr \<Rightarrow> ipv4addr \<Rightarrow> u16 \<Rightarrow> u16 \<Rightarrow> u32 \<Rightarrow> u32 \<Rightarrow> u8 \<Rightarrow> bytes \<Rightarrow> bool" where
  "segment_ok p src dst sport dport sq ack flags payload \<longleftrightarrow>
     read_segment p = Some \<lparr> seg_src = src, seg_dst = dst, seg_sport = sport, seg_dport = dport,
       seg_seq = sq, seg_flags = flags, seg_payload = payload \<rparr> \<and>
     length p = 40 + length payload \<and> sub p 28 32 = to_be_bytes ack \<and>
     checksum (sub p 0 20) = 0 \<and> l4_checksum src dst PROTO_TCP (sub p 20 (length p)) = 0"

lemma tcp_body_parts:
  fixes sport dport sq ack flags payload src dst
  defines "t \<equiv> tcp_body src dst (tcp_header0 sport dport sq ack flags @ payload)"
  shows "sub t 0 2 = to_be_bytes sport" "sub t 2 4 = to_be_bytes dport" "sub t 4 8 = to_be_bytes sq"
    "sub t 8 12 = to_be_bytes ack" "t ! 12 = 0x50" "t ! 13 = flags" "sub t 20 (20 + length payload) = payload"
proof -
  show "sub t 20 (20 + length payload) = payload" by (simp add: t_def tcp_body_def put_append1)
qed (simp_all add: t_def tcp_body_def put_append1 tcp_header0_def put_def nth_append)

lemma tcp_body_checksum:
  assumes "length payload \<le> 65515"
  shows "l4_checksum src dst PROTO_TCP (tcp_body src dst (tcp_header0 sport dport sq ack flags @ payload)) = 0"
  unfolding tcp_body_def using assms
  by (intro l4.insert_verifies) (simp_all add: tcp_header0_def nth_append)

lemma tcp_packet_ok:
  assumes "length payload \<le> 65495"
  shows "segment_ok (tcp_packet src dst sport dport sq ack flags payload) src dst sport dport sq ack flags payload"
proof -
  let ?p = "tcp_packet src dst sport dport sq ack flags payload"
  let ?h = "ip_header src dst PROTO_TCP (40 + length payload)"
  let ?t = "tcp_body src dst (tcp_header0 sport dport sq ack flags @ payload)"
  have p: "?p = ?h @ ?t" by (simp add: tcp_packet_def)
  have len: "length ?p = 40 + length payload" by (simp add: p)
  have tot: "total_len_of ?p = 40 + length payload"
  proof -
    have "[?p ! 2, ?p ! 3] = sub ?p 2 4" using len by (simp add: sub_2_eq)
    also have "\<dots> = to_be_bytes (of_nat (40 + length payload) :: u16)"
      by (simp add: p ip_header_fields del: of_nat_add)
    finally show ?thesis
      using assms unfolding total_len_of_def bytes_roundtrip by (simp add: unat_of_nat del: of_nat_add)
  qed
  have b0: "?p ! 0 = 0x45" by (simp add: p nth_append ip_header_fields)
  have ihl: "ihl_of ?p = 20" by (simp add: ihl_of_def b0)
  have tcp: "sub ?p 20 (40 + length payload) = ?t" by (simp add: p)
  have "read_segment ?p = Some \<lparr> seg_src = src, seg_dst = dst, seg_sport = sport, seg_dport = dport,
       seg_seq = sq, seg_flags = flags, seg_payload = payload \<rparr>"
    unfolding read_segment_def Let_def ihl tot tcp tcp_body_parts
    by (simp add: is_ipv4_def b0 len tcp_body_parts, simp add: p nth_append ip_header_fields)
  moreover have "sub ?p 28 32 = to_be_bytes ack" by (simp add: p tcp_body_parts)
  moreover have "checksum (sub ?p 0 20) = 0" by (simp add: p ip_header_fields)
  moreover have "l4_checksum src dst PROTO_TCP (sub ?p 20 (length ?p)) = 0"
    using assms unfolding len tcp by (simp add: tcp_body_checksum)
  ultimately show ?thesis by (simp add: segment_ok_def len)
qed

text \<open>Segments addressed to a port, and well-formed segments sent from one.\<close>

definition for_port :: "u16 \<Rightarrow> bytes \<Rightarrow> tcp_seg option" where
  "for_port port p =
    (case read_segment p of None \<Rightarrow> None | Some g \<Rightarrow> if seg_dport g = port then Some g else None)"

definition segment_from_port :: "u16 \<Rightarrow> bytes \<Rightarrow> bool" where
  "segment_from_port port q \<longleftrightarrow>
    (\<exists>src dst dport sq ack fl pl. segment_ok q src dst port dport sq ack fl pl)"

lemma segment_from_portI:
  "length pl \<le> 65495 \<Longrightarrow> segment_from_port port (tcp_packet src dst port dport sq ack fl pl)"
  unfolding segment_from_port_def using tcp_packet_ok by blast

subsection \<open>The contract of an inner-packet handler\<close>

text \<open>
  A handler is fed inputs (a decrypted packet, with what it needs from the platform) and returns
  packets to send back. It never panics, keeps its invariant, does not react to packets that are
  not addressed to it, and everything it emits is acceptable to \<open>good\<close>.
\<close>

primrec run_handler :: "('s \<Rightarrow> 'i \<Rightarrow> ('s \<times> 'o list) panics) \<Rightarrow> 's \<Rightarrow> 'i list \<Rightarrow> ('s \<times> 'o list) panics" where
  "run_handler h s [] = Some (s, [])"
| "run_handler h s (i # is) = do {
     (s', out) \<leftarrow> h s i;
     (s'', out') \<leftarrow> run_handler h s' is;
     Some (s'', out @ out')
   }"

locale inner_handler =
  fixes step :: "'s \<Rightarrow> 'i \<Rightarrow> ('s \<times> 'o list) panics"
    and inv :: "'s \<Rightarrow> bool"
    and mine :: "'i \<Rightarrow> bool"
    and good :: "'o \<Rightarrow> bool"
  assumes step_ok: "inv s \<Longrightarrow> \<exists>s' out. step s i = Some (s', out) \<and> inv s' \<and> (\<forall>q \<in> set out. good q)"
    and step_other: "inv s \<Longrightarrow> \<not> mine i \<Longrightarrow> step s i = Some (s, [])"
begin

lemma run_ok: "inv s \<Longrightarrow> \<exists>s' out. run_handler step s is = Some (s', out) \<and> inv s' \<and> (\<forall>q \<in> set out. good q)"
proof (induction "is" arbitrary: s)
  case (Cons i "is")
  obtain s1 o1 where 1: "step s i = Some (s1, o1)" "inv s1" "\<forall>q \<in> set o1. good q"
    using step_ok [OF Cons.prems] by blast
  obtain s2 o2 where "run_handler step s1 is = Some (s2, o2)" "inv s2" "\<forall>q \<in> set o2. good q"
    using Cons.IH [OF 1(2)] by blast
  with 1 show ?case by auto
qed simp

lemma run_filter: "inv s \<Longrightarrow> run_handler step s is = run_handler step s (filter mine is)"
proof (induction "is" arbitrary: s)
  case (Cons i "is")
  show ?case
  proof (cases "mine i")
    case True
    obtain s1 o1 where 1: "step s i = Some (s1, o1)" "inv s1"
      using step_ok [OF Cons.prems] by blast
    with True Cons.IH [OF 1(2)] show ?thesis by simp
  next
    case False
    then show ?thesis using Cons.IH [OF Cons.prems] step_other [OF Cons.prems] by (simp add: split_beta)
  qed
qed simp

end

end
