(* ===== verification/Outbound.thy ===== *)
theory Outbound
  imports Icmp Tcp_Segment
begin

text \<open>
  \<^verbatim>\<open>core/src/outbound.rs\<close>: what the device sends on its own account. Pings, UDP datagrams and
  a one-request TCP client; the checksum routines are in \<open>Checksum\<close>, the IPv4 wrapper in
  \<open>Ipv4\<close>. Shown: a ping we send is one the other end answers, with the reply addressed to
  us; the client builds reference segments, meets the handler contract, and collects only a
  prefix of the server's byte stream whatever the network loses, repeats or reorders.
\<close>

subsection \<open>Datagrams\<close>

definition icmp_echo_request :: "ipv4addr \<Rightarrow> ipv4addr \<Rightarrow> u16 \<Rightarrow> u16 \<Rightarrow> bytes \<Rightarrow> bytes panics" where
  "icmp_echo_request src dst ident sq payload = do {
     let icmp = [8, 0, 0, 0] @ to_be_bytes ident @ to_be_bytes sq @ payload;
     let c = checksum icmp;
     icmp \<leftarrow> copy_from icmp 2 4 (to_be_bytes c);
     ipv4_packet src dst PROTO_ICMP icmp
   }"

definition udp_datagram :: "ipv4addr \<Rightarrow> ipv4addr \<Rightarrow> u16 \<Rightarrow> u16 \<Rightarrow> bytes \<Rightarrow> bytes panics" where
  "udp_datagram src dst sport dport payload = do {
     let udp = to_be_bytes sport @ to_be_bytes dport @ to_be_bytes (of_nat (8 + length payload) :: u16) @
               [0, 0] @ payload;
     let c = l4_checksum src dst PROTO_UDP udp;
     udp \<leftarrow> copy_from udp 6 8 (to_be_bytes c);
     ipv4_packet src dst PROTO_UDP udp
   }"

subsection \<open>The TCP client\<close>

record tcp_client =
  cl_src :: ipv4addr
  cl_dst :: ipv4addr
  cl_sport :: u16
  cl_dport :: u16
  cl_snd_nxt :: u32
  cl_rcv_nxt :: u32
  cl_request :: bytes
  cl_response :: bytes
  cl_done :: bool
  cl_established :: bool

definition tcp_client_new :: "ipv4addr \<Rightarrow> ipv4addr \<Rightarrow> u16 \<Rightarrow> u16 \<Rightarrow> bytes \<Rightarrow> u32 \<Rightarrow> tcp_client" where
  "tcp_client_new src dst sport dport request rand32 =
    (let iss = max (rand32 AND 0x7fffffff) 1 in
     \<lparr> cl_src = src, cl_dst = dst, cl_sport = sport, cl_dport = dport, cl_snd_nxt = iss,
       cl_rcv_nxt = 0, cl_request = request, cl_response = [], cl_done = False, cl_established = False \<rparr>)"

definition cl_segment :: "tcp_client \<Rightarrow> u8 \<Rightarrow> bytes \<Rightarrow> bytes panics" where
  "cl_segment self flags payload = do {
     let tcp = replicate (20 + length payload) 0;
     tcp \<leftarrow> copy_from tcp 0 2 (to_be_bytes (cl_sport self));
     tcp \<leftarrow> copy_from tcp 2 4 (to_be_bytes (cl_dport self));
     tcp \<leftarrow> copy_from tcp 4 8 (to_be_bytes (cl_snd_nxt self));
     tcp \<leftarrow> copy_from tcp 8 12 (to_be_bytes (cl_rcv_nxt self));
     tcp \<leftarrow> store tcp 12 (push_bit 4 5);
     tcp \<leftarrow> store tcp 13 flags;
     tcp \<leftarrow> copy_from tcp 14 16 (to_be_bytes (64240 :: u16));
     tcp \<leftarrow> copy_from tcp 20 (length tcp) payload;
     let c = l4_checksum (cl_src self) (cl_dst self) PROTO_TCP tcp;
     tcp \<leftarrow> copy_from tcp 16 18 (to_be_bytes c);
     ipv4_packet (cl_src self) (cl_dst self) PROTO_TCP tcp
   }"

definition cl_open :: "tcp_client \<Rightarrow> (tcp_client \<times> bytes) panics" where
  "cl_open self = do {
     s \<leftarrow> cl_segment self SYN [];
     Some (self\<lparr>cl_snd_nxt := cl_snd_nxt self + 1\<rparr>, s)
   }"

definition owns :: "tcp_client \<Rightarrow> bytes \<Rightarrow> bool panics" where
  "owns self inner =
    (if length inner < 20 then Some False else do {
     b0 \<leftarrow> idx inner 0;
     if drop_bit 4 b0 \<noteq> 4 then Some False else do {
     proto \<leftarrow> idx inner 9;
     if proto \<noteq> PROTO_TCP then Some False else do {
     let ihl = unat (b0 AND 0x0f) * 4;
     if length inner < ihl + 4 then Some False else do {
     d0 \<leftarrow> idx inner (ihl + 2); d1 \<leftarrow> idx inner (ihl + 3);
     let dport = (from_be_bytes [d0, d1] :: u16);
     Some (dport = cl_sport self)
     }}}})"

definition on_inner :: "tcp_client \<Rightarrow> bytes \<Rightarrow> (tcp_client \<times> bytes list) panics" where
  "on_inner self inner = do {
     own \<leftarrow> owns self inner;
     if \<not> own \<or> cl_done self then Some (self, []) else do {
     b0 \<leftarrow> idx inner 0;
     let ihl = unat (b0 AND 0x0f) * 4;
     b2 \<leftarrow> idx inner 2; b3 \<leftarrow> idx inner 3;
     let tot = unat (from_be_bytes [b2, b3] :: u16);
     if tot < ihl + 20 \<or> tot > length inner then Some (self, []) else do {
     tcp \<leftarrow> subslice inner ihl tot;
     t4 \<leftarrow> idx tcp 4; t5 \<leftarrow> idx tcp 5; t6 \<leftarrow> idx tcp 6; t7 \<leftarrow> idx tcp 7;
     let sq = (from_be_bytes [t4, t5, t6, t7] :: u32);
     t12 \<leftarrow> idx tcp 12;
     let data_off = unat (drop_bit 4 t12) * 4;
     flags \<leftarrow> idx tcp 13;
     if data_off < 20 \<or> data_off > length tcp then Some (self, []) else do {
     payload \<leftarrow> subslice tcp data_off (length tcp);
     if flags AND SYN \<noteq> 0 \<and> flags AND ACK \<noteq> 0 \<and> \<not> cl_established self then do {
       let self = self\<lparr>cl_rcv_nxt := sq + 1, cl_established := True\<rparr>;
       a \<leftarrow> cl_segment self ACK [];
       let req = cl_request self;
       r \<leftarrow> cl_segment self (PSH OR ACK) req;
       Some (self\<lparr>cl_snd_nxt := cl_snd_nxt self + of_nat (length req)\<rparr>, [a, r]) }
     else do {
       (self, out) \<leftarrow>
         (if payload \<noteq> [] then do {
            let self = (if sq = cl_rcv_nxt self
                        then self\<lparr>cl_response := cl_response self @ payload,
                                  cl_rcv_nxt := cl_rcv_nxt self + of_nat (length payload)\<rparr>
                        else self);
            a \<leftarrow> cl_segment self ACK [];
            Some (self, [a]) }
          else Some (self, []));
       if flags AND FIN \<noteq> 0 then do {
         let self = self\<lparr>cl_rcv_nxt := cl_rcv_nxt self + 1\<rparr>;
         a \<leftarrow> cl_segment self ACK [];
         f \<leftarrow> cl_segment self (FIN OR ACK) [];
         Some (self\<lparr>cl_done := True\<rparr>, out @ [a, f]) }
       else Some (self, out) }
     }}}}"

subsection \<open>Closed forms\<close>

lemma icmp_request_layout:
  "icmp_echo_request src dst ident sq payload =
    (let m = [8, 0, 0, 0] @ to_be_bytes ident @ to_be_bytes sq @ payload
     in Some (ip_header src dst PROTO_ICMP (20 + length m) @ put m 2 (to_be_bytes (checksum m))))"
  by (simp add: icmp_echo_request_def rust_simps ipv4_packet_eq Let_def)

lemma udp_datagram_layout:
  "udp_datagram src dst sport dport payload =
    (let m = to_be_bytes sport @ to_be_bytes dport @ to_be_bytes (of_nat (8 + length payload) :: u16) @ [0, 0] @ payload
     in Some (ip_header src dst PROTO_UDP (20 + length m) @ put m 6 (to_be_bytes (l4_checksum src dst PROTO_UDP m))))"
  by (simp add: udp_datagram_def rust_simps ipv4_packet_eq Let_def)

definition cl_packet :: "tcp_client \<Rightarrow> u8 \<Rightarrow> bytes \<Rightarrow> bytes" where
  "cl_packet c = tcp_packet (cl_src c) (cl_dst c) (cl_sport c) (cl_dport c) (cl_snd_nxt c) (cl_rcv_nxt c)"

lemma cl_segment_eq: "cl_segment c flags payload = Some (cl_packet c flags payload)"
proof -
  have r: "replicate (20 + length payload) (0 :: u8) = replicate 20 0 @ replicate (length payload) 0"
    by (simp only: replicate_add)
  show ?thesis
    unfolding cl_segment_def Let_def r cl_packet_def
    by (simp add: rust_simps list_update_put put_append1 put_append2 tcp_packet_def tcp_header0_puts
        tcp_body_def ipv4_packet_eq push_bit_eq_mult)
qed

definition cl_addressed :: "u16 \<Rightarrow> bytes \<Rightarrow> bool" where
  "cl_addressed port p \<longleftrightarrow> is_ipv4 p \<and> p ! 9 = PROTO_TCP \<and> ihl_of p + 4 \<le> length p \<and>
     from_be_bytes (sub p (ihl_of p + 2) (ihl_of p + 4)) = port"

lemma owns_eq: "owns c p = Some (cl_addressed (cl_sport c) p)"
proof -
  have "sub p (ihl_of p + 2) (ihl_of p + 4) = [p ! (ihl_of p + 2), p ! (ihl_of p + 3)]"
    if "ihl_of p + 4 \<le> length p"
    using that by (simp add: sub_2_eq add.commute)
  then show ?thesis
    by (auto simp: owns_def cl_addressed_def is_ipv4_def ihl_of_def rust_simps Let_def)
qed

text \<open>The part of a segment the client reads: sequence number, flags, payload.\<close>

definition cl_read :: "bytes \<Rightarrow> (u32 \<times> u8 \<times> bytes) option" where
  "cl_read p =
    (let tcp = sub p (ihl_of p) (total_len_of p);
         off = unat (drop_bit 4 (tcp ! 12)) * 4
     in if ihl_of p + 20 \<le> total_len_of p \<and> total_len_of p \<le> length p \<and> 20 \<le> off \<and> off \<le> length tcp
        then Some (from_be_bytes (sub tcp 4 8), tcp ! 13, sub tcp off (length tcp)) else None)"

definition cl_data :: "tcp_client \<Rightarrow> u32 \<Rightarrow> bytes \<Rightarrow> tcp_client" where
  "cl_data c sq payload =
    (if payload \<noteq> [] \<and> sq = cl_rcv_nxt c
     then c\<lparr>cl_response := cl_response c @ payload, cl_rcv_nxt := cl_rcv_nxt c + of_nat (length payload)\<rparr>
     else c)"

definition cl_react :: "tcp_client \<Rightarrow> u32 \<times> u8 \<times> bytes \<Rightarrow> tcp_client \<times> bytes list" where
  "cl_react c g = (case g of (sq, flags, payload) \<Rightarrow>
    (if flags AND SYN \<noteq> 0 \<and> flags AND ACK \<noteq> 0 \<and> \<not> cl_established c then
       (let c' = c\<lparr>cl_rcv_nxt := sq + 1, cl_established := True\<rparr>
        in (c'\<lparr>cl_snd_nxt := cl_snd_nxt c + of_nat (length (cl_request c))\<rparr>,
            [cl_packet c' ACK [], cl_packet c' (PSH OR ACK) (cl_request c)]))
     else
       (let c' = cl_data c sq payload;
            acks = (if payload \<noteq> [] then [cl_packet c' ACK []] else []);
            c'' = c'\<lparr>cl_rcv_nxt := cl_rcv_nxt c' + 1\<rparr>
        in if flags AND FIN \<noteq> 0
           then (c''\<lparr>cl_done := True\<rparr>, acks @ [cl_packet c'' ACK [], cl_packet c'' (FIN OR ACK) []])
           else (c', acks))))"

lemma on_inner_eq:
  "on_inner c p =
    Some (if \<not> cl_addressed (cl_sport c) p \<or> cl_done c then (c, [])
          else case cl_read p of None \<Rightarrow> (c, []) | Some g \<Rightarrow> cl_react c g)"
proof (cases "cl_addressed (cl_sport c) p \<and> \<not> cl_done c \<and> ihl_of p + 20 \<le> total_len_of p \<and>
    total_len_of p \<le> length p")
  case True
  define tcp where "tcp = sub p (ihl_of p) (total_len_of p)"
  have h: "20 \<le> length p" "ihl_of p + 20 \<le> total_len_of p" "total_len_of p \<le> length p"
    using True by (simp_all add: cl_addressed_def is_ipv4_def)
  have n: "20 \<le> length tcp" using h by (simp add: tcp_def)
  have s: "subslice p (ihl_of p) (total_len_of p) = Some tcp"
    using h by (simp add: rust_simps tcp_def)
  have i: "unat (p ! 0 AND 15) * 4 = ihl_of p" "unat (from_be_bytes [p ! 2, p ! 3] :: u16) = total_len_of p"
    by (simp_all add: ihl_of_def total_len_of_def)
  have r: "cl_read p = (let off = unat (drop_bit 4 (tcp ! 12)) * 4 in
      if 20 \<le> off \<and> off \<le> length tcp
      then Some (from_be_bytes (sub tcp 4 8), tcp ! 13, sub tcp off (length tcp)) else None)"
    using h by (simp add: cl_read_def tcp_def Let_def)
  define off where "off = unat (drop_bit 4 (tcp ! 12)) * 4"
  have p_idx: "idx p 0 = Some (p ! 0)" "idx p 2 = Some (p ! 2)" "idx p 3 = Some (p ! 3)"
    and t_idx: "idx tcp 4 = Some (tcp ! 4)" "idx tcp 5 = Some (tcp ! 5)" "idx tcp 6 = Some (tcp ! 6)"
      "idx tcp 7 = Some (tcp ! 7)" "idx tcp 12 = Some (tcp ! 12)" "idx tcp 13 = Some (tcp ! 13)"
    using h n by (simp_all add: rust_simps)
  have f: "(total_len_of p < ihl_of p + 20 \<or> total_len_of p > length p) = False"
      "(\<not> cl_addressed (cl_sport c) p \<or> cl_done c) = False"
    using True by auto
  have sq: "from_be_bytes [tcp ! 4, tcp ! 5, tcp ! 6, tcp ! 7] = (from_be_bytes (sub tcp 4 8) :: u32)"
    using n by (simp add: sub_4_eq)
  note step = on_inner_def owns_eq p_idx t_idx i s f if_False off_def [symmetric] sq bind_option_Some Let_def
  show ?thesis
  proof (cases "20 \<le> off \<and> off \<le> length tcp")
    case True
    then have o: "(off < 20 \<or> off > length tcp) = False" "subslice tcp off (length tcp) = Some (sub tcp off (length tcp))"
      by (auto simp: rust_simps)
    have cr: "cl_read p = Some (from_be_bytes (sub tcp 4 8), tcp ! 13, sub tcp off (length tcp))"
      using True by (simp add: r off_def Let_def)
    show ?thesis
      unfolding step o cr option.case if_False bind_option_Some
      by (simp add: cl_segment_eq cl_react_def cl_data_def Let_def)
  next
    case False
    then have "cl_read p = None" by (auto simp: r off_def Let_def)
    with False show ?thesis unfolding step by (auto simp: rust_simps)
  qed
next
  case False
  then consider (other) "\<not> cl_addressed (cl_sport c) p \<or> cl_done c"
    | (bad) "cl_addressed (cl_sport c) p" "\<not> cl_done c" "total_len_of p < ihl_of p + 20 \<or> total_len_of p > length p"
    by linarith
  then show ?thesis
  proof cases
    case other
    then show ?thesis by (auto simp: on_inner_def owns_eq)
  next
    case bad
    have "20 \<le> length p" using bad(1) by (simp add: cl_addressed_def is_ipv4_def)
    then have "idx p 0 = Some (p ! 0)" "idx p 2 = Some (p ! 2)" "idx p 3 = Some (p ! 3)"
      by (simp_all add: rust_simps)
    moreover have "cl_read p = None" using bad(3) by (auto simp: cl_read_def Let_def)
    ultimately show ?thesis
      using bad by (simp add: on_inner_def owns_eq Let_def flip: ihl_of_def total_len_of_def)
  qed
qed

subsection \<open>The client as a handler\<close>

definition cl_ok :: "ipv4addr \<Rightarrow> ipv4addr \<Rightarrow> u16 \<Rightarrow> u16 \<Rightarrow> tcp_client \<Rightarrow> bool" where
  "cl_ok src dst sport dport c \<longleftrightarrow> cl_src c = src \<and> cl_dst c = dst \<and> cl_sport c = sport \<and>
     cl_dport c = dport \<and> length (cl_request c) \<le> 65495"

definition cl_sends :: "ipv4addr \<Rightarrow> ipv4addr \<Rightarrow> u16 \<Rightarrow> u16 \<Rightarrow> bytes \<Rightarrow> bool" where
  "cl_sends src dst sport dport q \<longleftrightarrow> (\<exists>sq ack fl pl. segment_ok q src dst sport dport sq ack fl pl)"

lemma cl_packet_ok:
  "cl_ok src dst sport dport c \<Longrightarrow> length pl \<le> 65495 \<Longrightarrow>
   segment_ok (cl_packet c fl pl) src dst sport dport (cl_snd_nxt c) (cl_rcv_nxt c) fl pl"
  unfolding cl_packet_def cl_ok_def using tcp_packet_ok by blast

lemma cl_packet_sends:
  "cl_ok src dst sport dport c \<Longrightarrow> length pl \<le> 65495 \<Longrightarrow> cl_sends src dst sport dport (cl_packet c fl pl)"
  unfolding cl_sends_def using cl_packet_ok by blast

lemma cl_react_ok:
  assumes "cl_ok src dst sport dport c"
  shows "cl_ok src dst sport dport (fst (cl_react c g))"
    and "q \<in> set (snd (cl_react c g)) \<Longrightarrow> cl_sends src dst sport dport q"
proof -
  obtain sq flags payload where g: "g = (sq, flags, payload)" by (cases g)
  have d: "cl_ok src dst sport dport (cl_data c sq payload)"
    using assms by (simp add: cl_data_def cl_ok_def)
  note u = assms d [unfolded cl_ok_def] assms [unfolded cl_ok_def]
  show "cl_ok src dst sport dport (fst (cl_react c g))"
    using u by (simp add: g cl_react_def cl_ok_def Let_def)
  show "cl_sends src dst sport dport q" if "q \<in> set (snd (cl_react c g))"
    using that u by (auto simp: g cl_react_def Let_def cl_ok_def intro!: cl_packet_sends split: if_splits)
qed

interpretation client: inner_handler on_inner "cl_ok src dst sport dport" "cl_addressed sport"
    "cl_sends src dst sport dport"
  for src dst sport dport
proof
  fix c p assume c: "cl_ok src dst sport dport c"
  show "\<exists>c' out. on_inner c p = Some (c', out) \<and> cl_ok src dst sport dport c' \<and>
      (\<forall>q\<in>set out. cl_sends src dst sport dport q)"
    using c cl_react_ok [OF c]
    by (auto simp: on_inner_eq split: option.split) (metis prod.collapse)
  show "on_inner c p = Some (c, [])" if "\<not> cl_addressed sport p"
    using c that by (simp add: on_inner_eq cl_ok_def)
qed

lemma cl_read_segment:
  assumes "read_segment p = Some g"
  shows "cl_read p = Some (seg_seq g, seg_flags g, seg_payload g)" and "cl_addressed (seg_dport g) p"
proof -
  have h: "is_ipv4 p" "p ! 9 = PROTO_TCP" "ihl_of p + 20 \<le> total_len_of p" "total_len_of p \<le> length p"
    using assms by (auto simp: read_segment_def Let_def split: if_splits)
  show "cl_read p = Some (seg_seq g, seg_flags g, seg_payload g)"
    using assms by (auto simp: read_segment_def cl_read_def Let_def split: if_splits)
  have "sub (sub p (ihl_of p) (total_len_of p)) 2 4 = sub p (ihl_of p + 2) (ihl_of p + 4)"
    using h by simp
  then show "cl_addressed (seg_dport g) p"
    using assms h by (auto simp: read_segment_def cl_addressed_def Let_def split: if_splits)
qed

lemma cl_fed:
  assumes "segment_ok p src dst sport dport sq ack fl pl" and "cl_sport c = dport" and "\<not> cl_done c"
  shows "on_inner c p = Some (cl_react c (sq, fl, pl))"
  using assms cl_read_segment [of p] by (simp add: segment_ok_def on_inner_eq)

subsection \<open>Collecting the response\<close>

text \<open>A segment that carries a piece of the stream \<open>D\<close> whose first byte has number \<open>irs + 1\<close>.\<close>

definition carries :: "bytes \<Rightarrow> u32 \<Rightarrow> u32 \<times> u8 \<times> bytes \<Rightarrow> bool" where
  "carries D irs g \<longleftrightarrow> (case g of (sq, flags, payload) \<Rightarrow>
     (\<exists>k. k + length payload \<le> length D \<and> sq = irs + 1 + of_nat k \<and> payload = sub D k (k + length payload)))"

definition collecting :: "bytes \<Rightarrow> u32 \<Rightarrow> tcp_client \<Rightarrow> bool" where
  "collecting D irs c \<longleftrightarrow> cl_established c \<and> prefix (cl_response c) D \<and>
     (\<not> cl_done c \<longrightarrow> cl_rcv_nxt c = irs + 1 + of_nat (length (cl_response c)))"

lemma cl_data_collecting:
  assumes "collecting D irs c" and "\<not> cl_done c" and "carries D irs (sq, fl, payload)" and "length D < 2 ^ 32"
  shows "collecting D irs (cl_data c sq payload)"
proof (cases "payload \<noteq> [] \<and> sq = cl_rcv_nxt c")
  case True
  obtain k where k: "k + length payload \<le> length D" "sq = irs + 1 + of_nat k"
      "payload = sub D k (k + length payload)"
    using assms(3) by (auto simp: carries_def)
  let ?n = "length (cl_response c)"
  have pre: "prefix (cl_response c) D" and nxt: "cl_rcv_nxt c = irs + 1 + of_nat ?n"
    using assms(1,2) by (simp_all add: collecting_def)
  have "?n \<le> length D" using pre by (rule prefix_length_le)
  then have "k = ?n"
    using True k(1,2) nxt assms(4) by (simp add: word_of_nat_eq_iff take_bit_nat_eq_self)
  moreover have "cl_response c = sub D 0 ?n" using pre by (auto simp: prefix_def)
  ultimately have "cl_response c @ payload = sub D 0 (?n + length payload)"
    using k(3) sub_append_split [of 0 ?n "?n + length payload" D] by simp
  then have "prefix (cl_response c @ payload) D" by (simp add: sub_def take_is_prefix)
  with True assms(1,2) nxt show ?thesis by (simp add: cl_data_def collecting_def algebra_simps)
next
  case False
  with assms(1) show ?thesis by (auto simp: cl_data_def)
qed

lemma cl_react_collecting:
  assumes "collecting D irs c" and "\<not> cl_done c" and "carries D irs g" and "length D < 2 ^ 32"
  shows "collecting D irs (fst (cl_react c g))"
proof -
  obtain sq fl payload where g: "g = (sq, fl, payload)" by (cases g)
  have "cl_established c" using assms(1) by (simp add: collecting_def)
  then show ?thesis
    using cl_data_collecting [OF assms(1,2) assms(3) [unfolded g] assms(4)]
    by (auto simp: g cl_react_def Let_def collecting_def)
qed

lemma run_collecting:
  assumes "\<forall>p \<in> set ps. \<forall>g. cl_read p = Some g \<longrightarrow> carries D irs g" and "length D < 2 ^ 32"
    and "collecting D irs c" and "run_handler on_inner c ps = Some (c', out)"
  shows "collecting D irs c'"
  using assms
proof (induction ps arbitrary: c out)
  case (Cons p ps)
  obtain c1 o1 o2 where 1: "on_inner c p = Some (c1, o1)" "run_handler on_inner c1 ps = Some (c', o2)"
    using Cons.prems(4) by (auto simp: bind_eq_Some_conv)
  have "collecting D irs c1"
    using 1(1) Cons.prems(1,2,3) cl_react_collecting [of D irs c]
    by (auto simp: on_inner_eq split: if_splits option.splits) (metis fst_conv)
  then show ?case using Cons.IH [of c1 o2] 1(2) Cons.prems(1,2) by simp
qed simp

subsection \<open>Properties\<close>

text \<open>
  C21. The client never delivers wrong data: once the handshake is complete, if every segment it is
  fed carries some piece of the server's stream, then whatever is lost, repeated or reordered
  (up to \<open>2^32\<close> bytes of stream, so that sequence numbers are unambiguous), what it has
  collected is a prefix of that stream, and it never panics.
\<close>

theorem client_collects_prefix:
  assumes "cl_established c" and "\<not> cl_done c" and "cl_response c = []" and "cl_rcv_nxt c = irs + 1"
    and "length (cl_request c) \<le> 65495" and "length D < 2 ^ 32"
    and "\<forall>p \<in> set ps. \<forall>g. cl_read p = Some g \<longrightarrow> carries D irs g"
  shows "\<exists>c' out. run_handler on_inner c ps = Some (c', out) \<and> prefix (cl_response c') D"
proof -
  have "cl_ok (cl_src c) (cl_dst c) (cl_sport c) (cl_dport c) c" using assms(5) by (simp add: cl_ok_def)
  from client.run_ok [OF this, of ps] obtain c' out where r: "run_handler on_inner c ps = Some (c', out)" by blast
  have "collecting D irs c" using assms(1-4) by (simp add: collecting_def)
  from run_collecting [OF assms(7,6) this r] r show ?thesis by (auto simp: collecting_def)
qed

definition sample_client :: tcp_client where
  "sample_client = (tcp_client_new 1 2 40000 80 [71] 5)\<lparr>cl_established := True, cl_rcv_nxt := 101\<rparr>"

theorem client_collects_prefix_witness:
  "\<exists>c' out. run_handler on_inner sample_client
     [tcp_packet 2 1 80 40000 103 0 ACK [12], tcp_packet 2 1 80 40000 101 0 ACK [10, 11]] = Some (c', out) \<and>
     prefix (cl_response c') [10, 11, 12]"
proof (rule client_collects_prefix [where irs = 100])
  have r: "cl_read (tcp_packet 2 1 80 40000 103 0 ACK [12]) = Some (103, ACK, [12])"
      "cl_read (tcp_packet 2 1 80 40000 101 0 ACK [10, 11]) = Some (101, ACK, [10, 11])"
    using tcp_packet_ok [of "[12]"] tcp_packet_ok [of "[10, 11]"] cl_read_segment(1)
    by (auto simp: segment_ok_def)
  have "carries [10, 11, 12] 100 (103, ACK, [12])" "carries [10, 11, 12] 100 (101, ACK, [10, 11])"
    unfolding carries_def prod.case by (rule exI [of _ 2], simp) (rule exI [of _ 0], simp)
  with r show "\<forall>p\<in>set [tcp_packet 2 1 80 40000 103 0 ACK [12], tcp_packet 2 1 80 40000 101 0 ACK [10, 11]].
      \<forall>g. cl_read p = Some g \<longrightarrow> carries [10, 11, 12] 100 g"
    by simp
qed (simp_all add: sample_client_def tcp_client_new_def)

text \<open>
  A ping we send is answered: whatever identifier, sequence number and payload, the packet
  \<open>icmp_echo_request\<close> builds is an echo request the peer's \<open>echo_reply_any\<close> answers with a
  packet from the target to us that carries the same identifier, sequence number and payload.
\<close>

theorem ping_is_answered:
  assumes "length payload \<le> 65507"
  shows "\<exists>req r. icmp_echo_request src dst ident sq payload = Some req \<and> echo_reply_any req = Some (Some r) \<and>
    sub r 12 16 = to_be_bytes dst \<and> sub r 16 20 = to_be_bytes src \<and> r ! 20 = 0 \<and>
    sub r 24 (length r) = to_be_bytes ident @ to_be_bytes sq @ payload \<and>
    icmp_checksum (sub r 0 20) = 0 \<and> icmp_checksum (sub r 20 (length r)) = 0"
proof -
  define m where "m = [8, 0, 0, 0] @ to_be_bytes ident @ to_be_bytes sq @ payload"
  define n where "n = 28 + length payload"
  define req where "req = ip_header src dst PROTO_ICMP n @ put m 2 (to_be_bytes (checksum m))"
  have ml: "length m = 8 + length payload" by (simp add: m_def)
  have req: "icmp_echo_request src dst ident sq payload = Some req"
    unfolding icmp_request_layout Let_def m_def [symmetric] req_def by (simp add: ml n_def)
  have len: "length req = n" by (simp add: req_def ml n_def)
  have b0: "req ! 0 = 0x45" by (simp add: req_def nth_append ip_header_fields)
  then have ihl: "ihl_of req = 20" by (simp add: ihl_of_def)
  have "[req ! 2, req ! 3] = sub req 2 4" using len by (simp add: sub_2_eq n_def)
  also have "\<dots> = to_be_bytes (of_nat n :: u16)" by (simp add: req_def ip_header_fields)
  finally have tot: "total_len_of req = n"
    using assms unfolding total_len_of_def bytes_roundtrip by (simp add: unat_of_nat n_def del: of_nat_add)
  have "req ! 20 = 8" by (simp add: req_def nth_append m_def put_def)
  then have q: "is_echo_request req"
    by (simp add: is_echo_request_def is_ipv4_def ihl tot len b0)
      (simp add: req_def nth_append ip_header_fields PROTO_ICMP_def n_def)
  then have "echo_reply_any req = Some (Some (reply_v4 req))" by (simp add: echo_reply_any_eq)
  moreover have "sub req 24 n = to_be_bytes ident @ to_be_bytes sq @ payload"
    by (simp add: req_def n_def m_def put_def sub_Cons_pos)
  moreover have "sub req 12 16 = to_be_bytes src" "sub req 16 20 = to_be_bytes dst"
    by (simp_all add: req_def ip_header_fields)
  ultimately show ?thesis
    using req reply_v4_frame [OF q] reply_v4_checksums [OF q] unfolding ihl tot by auto
qed

theorem ping_is_answered_witness:
  "\<exists>req r. icmp_echo_request 0x64400001 0x64400002 7 1 [1, 2, 3] = Some req \<and>
     echo_reply_any req = Some (Some r) \<and> sub r 12 16 = to_be_bytes (0x64400002 :: u32)"
  using ping_is_answered [of "[1, 2, 3]" "0x64400001" "0x64400002" 7 1] by auto

end
