(* ===== verification/Tcp_Server.thy ===== *)
theory Tcp_Server
  imports Tcp_Segment Rust_Text
begin

text \<open>
  \<^verbatim>\<open>core/src/tcp.rs\<close>: the single-connection server that answers an HTTP request on port 80
  with one page. \<open>handle\<close> takes the random initial sequence number it may draw as an
  argument. Shown: every segment it builds is the reference segment, it meets the contract of an
  inner-packet handler, and a packet of another client never disturbs the connection served.
\<close>

subsection \<open>State and operations\<close>

definition HTTP_PORT :: u16 where "HTTP_PORT = 80"

record conn =
  conn_active :: bool
  conn_client_ip :: ipv4addr
  conn_our_ip :: ipv4addr
  conn_client_port :: u16
  conn_rcv_nxt :: u32
  conn_snd_nxt :: u32

definition conn_default :: conn where
  "conn_default = \<lparr> conn_active = False, conn_client_ip = 0, conn_our_ip = 0, conn_client_port = 0,
     conn_rcv_nxt = 0, conn_snd_nxt = 0 \<rparr>"

record tcp_server =
  srv_conn :: conn

definition tcp_server_new :: tcp_server where
  "tcp_server_new = \<lparr> srv_conn = conn_default \<rparr>"

definition crlf :: bytes where "crlf = [13, 10]"

definition http_response :: "bytes \<Rightarrow> bytes" where
  "http_response body =
     ascii ''HTTP/1.1 200 OK'' @ crlf @ ascii ''Content-Type: text/html; charset=utf-8'' @ crlf @
     ascii ''Content-Length: '' @ decimal (length body) @ crlf @
     ascii ''Connection: close'' @ crlf @ crlf @ body"

definition page :: "ipv4addr \<Rightarrow> bytes" where
  "page our_ip =
    (let o4 = map (\<lambda>b. decimal (unat b)) (to_be_bytes our_ip) in
     ascii ''<!doctype html><html><head><meta charset=utf-8><title>Tailscale-Rust</title></head>'' @
     ascii ''<body style=\"font-family:sans-serif\"><h1>Tailscale-Rust on T-Dongle S3</h1>'' @
     ascii ''<p>Pure-Rust WireGuard tunnel, no DERP.</p>'' @
     ascii ''<p>Tailscale IP: '' @
     o4 ! 0 @ ascii ''.'' @ o4 ! 1 @ ascii ''.'' @ o4 ! 2 @ ascii ''.'' @ o4 ! 3 @
     ascii ''</p></body></html>'')"

text \<open>\<open>tcp_checksum\<close> sums the pseudo-header and the segment with \<open>sum16\<close> and \<open>finish\<close>,
  whose text in \<^verbatim>\<open>tcp.rs\<close> is the one of \<^verbatim>\<open>outbound.rs\<close>.\<close>

definition tcp_checksum :: "ipv4addr \<Rightarrow> ipv4addr \<Rightarrow> bytes \<Rightarrow> u16" where
  "tcp_checksum src dst tcp =
    (let ph = replicate 12 0;
         ph = put ph 0 (to_be_bytes src);
         ph = put ph 4 (to_be_bytes dst);
         ph = ph[9 := PROTO_TCP];
         ph = put ph 10 (to_be_bytes (of_nat (length tcp) :: u16));
         s = sum16 ph 0;
         s = sum16 tcp s
     in finish s)"

definition srv_segment :: "conn \<Rightarrow> u8 \<Rightarrow> bytes \<Rightarrow> bytes panics" where
  "srv_segment c flags payload = do {
     let tcp_len = 20 + length payload;
     let tot = 20 + tcp_len;
     let pkt = replicate tot 0;
     pkt \<leftarrow> store pkt 0 0x45;
     pkt \<leftarrow> copy_from pkt 2 4 (to_be_bytes (of_nat tot :: u16));
     pkt \<leftarrow> store pkt 6 0x40;
     pkt \<leftarrow> store pkt 8 64;
     pkt \<leftarrow> store pkt 9 PROTO_TCP;
     pkt \<leftarrow> copy_from pkt 12 16 (to_be_bytes (conn_our_ip c));
     pkt \<leftarrow> copy_from pkt 16 20 (to_be_bytes (conn_client_ip c));
     hdr \<leftarrow> subslice pkt 0 20;
     let ipsum = checksum hdr;
     pkt \<leftarrow> copy_from pkt 10 12 (to_be_bytes ipsum);
     t \<leftarrow> subslice pkt 20 (length pkt);
     t \<leftarrow> copy_from t 0 2 (to_be_bytes HTTP_PORT);
     t \<leftarrow> copy_from t 2 4 (to_be_bytes (conn_client_port c));
     t \<leftarrow> copy_from t 4 8 (to_be_bytes (conn_snd_nxt c));
     t \<leftarrow> copy_from t 8 12 (to_be_bytes (conn_rcv_nxt c));
     t \<leftarrow> store t 12 (push_bit 4 5 OR 0);
     t \<leftarrow> store t 13 flags;
     t \<leftarrow> copy_from t 14 16 (to_be_bytes (64240 :: u16));
     t \<leftarrow> copy_from t 20 (length t) payload;
     pkt \<leftarrow> copy_from pkt 20 (length pkt) t;
     tcp \<leftarrow> subslice pkt 20 (length pkt);
     let tsum = tcp_checksum (conn_our_ip c) (conn_client_ip c) tcp;
     copy_from pkt 36 38 (to_be_bytes tsum)
   }"

definition handle :: "tcp_server \<Rightarrow> u32 \<Rightarrow> bytes \<Rightarrow> (tcp_server \<times> bytes list) panics" where
  "handle self rand_u32 inner = do {
     r \<leftarrow> tcp_front inner;
     (case r of None \<Rightarrow> Some (self, []) | Some g \<Rightarrow>
      let src_ip = seg_src g; dst_ip = seg_dst g; sport = seg_sport g; dport = seg_dport g;
          sq = seg_seq g; flags = seg_flags g; payload = seg_payload g
      in
      if dport \<noteq> HTTP_PORT then Some (self, [])
      else if flags AND SYN \<noteq> 0 then do {
        let iss = rand_u32;
        let c = \<lparr> conn_active = True, conn_client_ip = src_ip, conn_our_ip = dst_ip,
                  conn_client_port = sport, conn_rcv_nxt = sq + 1, conn_snd_nxt = iss \<rparr>;
        s \<leftarrow> srv_segment c (SYN OR ACK) [];
        let c = c\<lparr>conn_snd_nxt := conn_snd_nxt c + 1\<rparr>;
        Some (self\<lparr>srv_conn := c\<rparr>, [s]) }
      else if \<not> conn_active (srv_conn self) \<or> src_ip \<noteq> conn_client_ip (srv_conn self) \<or>
              sport \<noteq> conn_client_port (srv_conn self) then Some (self, [])
      else if flags AND RST \<noteq> 0 then Some (self\<lparr>srv_conn := conn_default\<rparr>, [])
      else if payload \<noteq> [] then do {
        let c = (srv_conn self)\<lparr>conn_rcv_nxt := sq + of_nat (length payload)\<rparr>;
        let body = page (conn_our_ip c);
        let resp = http_response body;
        s \<leftarrow> srv_segment c (PSH OR ACK OR FIN) resp;
        let c = c\<lparr>conn_snd_nxt := conn_snd_nxt c + of_nat (length resp) + 1\<rparr>;
        Some (self\<lparr>srv_conn := c\<rparr>, [s]) }
      else if flags AND FIN \<noteq> 0 then do {
        let c = (srv_conn self)\<lparr>conn_rcv_nxt := sq + 1\<rparr>;
        s \<leftarrow> srv_segment c ACK [];
        Some (self\<lparr>srv_conn := conn_default\<rparr>, [s]) }
      else Some (self, []))
   }"

subsection \<open>Every segment is the reference segment\<close>

lemma tcp_checksum_eq: "tcp_checksum src dst tcp = l4_checksum src dst PROTO_TCP tcp"
  by (simp add: tcp_checksum_def l4_checksum_def pseudo_header_def Let_def)

lemma srv_segment_eq:
  "srv_segment c flags payload =
     Some (tcp_packet (conn_our_ip c) (conn_client_ip c) HTTP_PORT (conn_client_port c)
       (conn_snd_nxt c) (conn_rcv_nxt c) flags payload)"
proof -
  have r: "replicate (20 + (20 + length payload)) (0 :: u8) =
      replicate 20 0 @ replicate 20 0 @ replicate (length payload) 0"
    by (simp only: replicate_add append_assoc)
  show ?thesis
    unfolding srv_segment_def Let_def r
    by (simp add: rust_simps list_update_put put_append1 put_append2 ip_header_def tcp_packet_def
        ip_header0_puts [where n = "40 + length payload"] tcp_header0_puts tcp_body_def tcp_checksum_eq
        push_bit_eq_mult)
qed

subsection \<open>The size of the page\<close>

lemma length_page: "length (page ip) \<le> 300"
proof -
  have d: "length (decimal (unat (b :: u8))) \<le> 3" for b by (rule length_decimal_byte) simp
  show ?thesis
    using d [of "to_be_bytes ip ! 0"] d [of "to_be_bytes ip ! 1"]
      d [of "to_be_bytes ip ! 2"] d [of "to_be_bytes ip ! 3"]
    by (simp add: page_def Let_def)
qed

lemma length_http_response: "length (http_response (page ip)) \<le> 1000"
  using length_page [of ip] length_decimal_le [of "length (page ip)" 3]
  by (simp add: http_response_def crlf_def)

lemma http_response_nonempty [simp]: "http_response b \<noteq> []"
  by (simp add: http_response_def crlf_def)

subsection \<open>The handler in closed form\<close>

text \<open>The header of the segments a connection sends, and the reaction to a segment for port 80.\<close>

definition conn_packet :: "conn \<Rightarrow> u8 \<Rightarrow> bytes \<Rightarrow> bytes" where
  "conn_packet c = tcp_packet (conn_our_ip c) (conn_client_ip c) HTTP_PORT (conn_client_port c)
     (conn_snd_nxt c) (conn_rcv_nxt c)"

definition conn_of_syn :: "tcp_seg \<Rightarrow> u32 \<Rightarrow> conn" where
  "conn_of_syn g iss = \<lparr> conn_active = True, conn_client_ip = seg_src g, conn_our_ip = seg_dst g,
     conn_client_port = seg_sport g, conn_rcv_nxt = seg_seq g + 1, conn_snd_nxt = iss \<rparr>"

definition of_client :: "conn \<Rightarrow> tcp_seg \<Rightarrow> bool" where
  "of_client c g \<longleftrightarrow> conn_active c \<and> seg_src g = conn_client_ip c \<and> seg_sport g = conn_client_port c"

definition react :: "conn \<Rightarrow> u32 \<Rightarrow> tcp_seg \<Rightarrow> conn \<times> bytes list" where
  "react c iss g =
    (if seg_flags g AND SYN \<noteq> 0 then
       ((conn_of_syn g iss)\<lparr>conn_snd_nxt := iss + 1\<rparr>, [conn_packet (conn_of_syn g iss) (SYN OR ACK) []])
     else if \<not> of_client c g then (c, [])
     else if seg_flags g AND RST \<noteq> 0 then (conn_default, [])
     else if seg_payload g \<noteq> [] then
       (let c' = c\<lparr>conn_rcv_nxt := seg_seq g + of_nat (length (seg_payload g))\<rparr>;
            resp = http_response (page (conn_our_ip c))
        in (c'\<lparr>conn_snd_nxt := conn_snd_nxt c + of_nat (length resp) + 1\<rparr>,
            [conn_packet c' (PSH OR ACK OR FIN) resp]))
     else if seg_flags g AND FIN \<noteq> 0 then
       (conn_default, [conn_packet (c\<lparr>conn_rcv_nxt := seg_seq g + 1\<rparr>) ACK []])
     else (c, []))"

lemma handle_eq:
  "handle s iss p = Some (case for_port HTTP_PORT p of
      None \<Rightarrow> (s, [])
    | Some g \<Rightarrow> (s\<lparr>srv_conn := fst (react (srv_conn s) iss g)\<rparr>, snd (react (srv_conn s) iss g)))"
  by (auto simp: handle_def tcp_front_eq srv_segment_eq for_port_def react_def conn_packet_def
      conn_of_syn_def of_client_def Let_def split: option.split)

lemma conn_packet_ok:
  "length pl \<le> 65495 \<Longrightarrow> segment_ok (conn_packet c fl pl) (conn_our_ip c) (conn_client_ip c) HTTP_PORT
     (conn_client_port c) (conn_snd_nxt c) (conn_rcv_nxt c) fl pl"
  by (simp add: conn_packet_def tcp_packet_ok)

lemma react_segments: "q \<in> set (snd (react c iss g)) \<Longrightarrow> segment_from_port HTTP_PORT q"
proof -
  have ok: "segment_from_port HTTP_PORT (conn_packet c fl pl)" if "length pl \<le> 1000" for c fl pl
    unfolding conn_packet_def using that by (intro segment_from_portI) simp
  have "length (http_response (page ip)) \<le> 1000" for ip by (rule length_http_response)
  then show "q \<in> set (snd (react c iss g)) \<Longrightarrow> segment_from_port HTTP_PORT q"
    by (auto simp: react_def Let_def ok split: if_splits)
qed

interpretation server: inner_handler "\<lambda>s (iss, p). handle s iss p" "\<lambda>_. True"
    "\<lambda>(iss, p). for_port HTTP_PORT p \<noteq> None" "segment_from_port HTTP_PORT"
proof
  fix s :: tcp_server and i :: "u32 \<times> bytes"
  obtain iss p where i: "i = (iss, p)" by (cases i)
  show "\<exists>s' out. (case i of (iss, p) \<Rightarrow> handle s iss p) = Some (s', out) \<and> True \<and>
      (\<forall>q\<in>set out. segment_from_port HTTP_PORT q)"
    by (auto simp: i handle_eq intro: react_segments split: option.split)
  show "(case i of (iss, p) \<Rightarrow> handle s iss p) = Some (s, [])"
    if "\<not> (case i of (iss, p) \<Rightarrow> for_port HTTP_PORT p \<noteq> None)"
    using that by (simp add: i handle_eq)
qed

subsection \<open>Properties\<close>

text \<open>
  The page server survives any traffic: whatever sequence of packets peers send through their
  tunnels, and whatever sequence numbers are drawn, \<open>handle\<close> never panics, every packet it
  emits is a well-formed segment from port 80 whose IP and TCP checksums verify, and only the
  packets that are TCP segments for port 80 matter to it.
\<close>

theorem server_survives_traffic:
  "\<exists>s' out. run_handler (\<lambda>s (iss, p). handle s iss p) s inputs = Some (s', out) \<and>
     list_all (segment_from_port HTTP_PORT) out \<and>
     run_handler (\<lambda>s (iss, p). handle s iss p) s inputs =
       run_handler (\<lambda>s (iss, p). handle s iss p) s (filter (\<lambda>(iss, p). for_port HTTP_PORT p \<noteq> None) inputs)"
  using server.run_ok [of s inputs] server.run_filter [of s inputs] unfolding list_all_iff by blast

text \<open>
  C22. No client can disturb another's connection except by opening its own: a segment for port 80
  that is no SYN and does not come from the client and port being served changes nothing and is
  not answered. Every SYN, also one of the client and port being served, is answered with a
  SYN-ACK that acknowledges it and starts a new connection with the drawn sequence number: the
  comment in the code speaks of a SYN that is not part of the current connection, but a SYN
  repeated by the client being served resets its connection like any other.
\<close>

theorem server_isolation:
  assumes "for_port HTTP_PORT p = Some g"
  shows "(seg_flags g AND SYN = 0 \<and> \<not> of_client (srv_conn s) g \<longrightarrow> handle s iss p = Some (s, [])) \<and>
    (seg_flags g AND SYN \<noteq> 0 \<longrightarrow> (\<exists>s' q. handle s iss p = Some (s', [q]) \<and>
       segment_ok q (seg_dst g) (seg_src g) HTTP_PORT (seg_sport g) iss (seg_seq g + 1) (SYN OR ACK) [] \<and>
       conn_active (srv_conn s') \<and> conn_snd_nxt (srv_conn s') = iss + 1 \<and> conn_rcv_nxt (srv_conn s') = seg_seq g + 1 \<and>
       (\<forall>g'. of_client (srv_conn s') g' \<longleftrightarrow> seg_src g' = seg_src g \<and> seg_sport g' = seg_sport g)))"
  using assms conn_packet_ok [of "[]" "conn_of_syn g iss" "SYN OR ACK"]
  by (simp add: handle_eq react_def conn_of_syn_def of_client_def)

definition sample_syn :: bytes where
  "sample_syn = tcp_packet 0x64400001 0x64400002 40000 80 1000 0 SYN []"

theorem server_isolation_witness:
  "\<exists>s1 q1 s2 q2. handle tcp_server_new 77 sample_syn = Some (s1, [q1]) \<and>
     segment_ok q1 0x64400002 0x64400001 80 40000 77 1001 (SYN OR ACK) [] \<and>
     handle s1 99 sample_syn = Some (s2, [q2]) \<and> conn_snd_nxt (srv_conn s2) = 100"
proof -
  have g: "for_port HTTP_PORT sample_syn = Some \<lparr> seg_src = 0x64400001, seg_dst = 0x64400002,
      seg_sport = 40000, seg_dport = 80, seg_seq = 1000, seg_flags = SYN, seg_payload = [] \<rparr>"
    using tcp_packet_ok [of "[]" "0x64400001" "0x64400002" 40000 80 1000 0 SYN]
    by (simp add: sample_syn_def for_port_def segment_ok_def HTTP_PORT_def)
  obtain s1 q1 where 1: "handle tcp_server_new 77 sample_syn = Some (s1, [q1])"
      "segment_ok q1 0x64400002 0x64400001 80 40000 77 1001 (SYN OR ACK) []"
    using server_isolation [OF g, of tcp_server_new 77] by (auto simp: SYN_def HTTP_PORT_def)
  moreover obtain s2 q2 where "handle s1 99 sample_syn = Some (s2, [q2])" "conn_snd_nxt (srv_conn s2) = 100"
    using server_isolation [OF g, of s1 99] by (auto simp: SYN_def)
  ultimately show ?thesis by blast
qed

end
