(* ===== verification/Byte_Stream.thy ===== *)
theory Byte_Stream
  imports Rust_Prelude
begin

text \<open>
  Byte streams under the control channel and the relay (\<^verbatim>\<open>core/src/platform.rs: ByteStream\<close>).
  A connection is what its reads will return, in order: each a piece of the stream (an empty one
  when the peer has closed) or an error. \<open>byte_reader\<close> is the contract of an exact reader:
  however the network cuts the stream into pieces, asking for \<open>n\<close> bytes yields the next \<open>n\<close>.
  Framed protocols are proved against it once.
\<close>

datatype read_result = ReadOk bytes | ReadErr

text \<open>The bytes a list of reads delivers before the stream ends.\<close>

primrec stream_data :: "read_result list \<Rightarrow> bytes" where
  "stream_data [] = []"
| "stream_data (r # rs) =
    (case r of ReadErr \<Rightarrow> [] | ReadOk d \<Rightarrow> if d = [] then [] else d @ stream_data rs)"

primrec reads_size :: "read_result list \<Rightarrow> nat" where
  "reads_size [] = 0"
| "reads_size (r # rs) = (case r of ReadErr \<Rightarrow> 1 | ReadOk d \<Rightarrow> 1 + length d) + reads_size rs"

text \<open>A way of cutting a byte string into reads.\<close>

definition cut_as :: "bytes list \<Rightarrow> read_result list" where
  "cut_as ds = map ReadOk ds"

lemma stream_data_cut: "[] \<notin> set ds \<Longrightarrow> stream_data (cut_as ds) = concat ds"
  by (induction ds) (auto simp: cut_as_def)

text \<open>
  \<open>rd n s\<close> returns the new state and either an error or the bytes read; \<open>pending s\<close> is what
  is still to come in a state satisfying \<open>ok\<close>.
\<close>

locale byte_reader =
  fixes rd :: "nat \<Rightarrow> 's \<Rightarrow> 's \<times> ('e + bytes)"
    and ok :: "'s \<Rightarrow> bool"
    and pending :: "'s \<Rightarrow> bytes"
  assumes rd_exact:
    "ok s \<Longrightarrow> n \<le> length (pending s) \<Longrightarrow>
       \<exists>s'. rd n s = (s', Inr (take n (pending s))) \<and> ok s' \<and> pending s' = drop n (pending s)"
begin

lemma rd_next:
  assumes "ok s" and "pending s = x @ y" and "length x = n"
  shows "\<exists>s'. rd n s = (s', Inr x) \<and> ok s' \<and> pending s' = y"
  using rd_exact [OF assms(1), of n] assms(2,3) by auto

text \<open>A header whose length field announces the body.\<close>

lemma rd_framed:
  assumes "ok s" and "pending s = hdr @ body @ rest" and "length hdr = h" and "length body = n"
  shows "\<exists>s1 s2. rd h s = (s1, Inr hdr) \<and> ok s1 \<and> pending s1 = body @ rest \<and>
    rd n s1 = (s2, Inr body) \<and> ok s2 \<and> pending s2 = rest"
proof -
  obtain s1 where 1: "rd h s = (s1, Inr hdr)" "ok s1" "pending s1 = body @ rest"
    using rd_next [OF assms(1,2,3)] by blast
  with rd_next [OF 1(2,3) assms(4)] show ?thesis by blast
qed

end

end
