(* ===== verification/Proxy.thy ===== *)
theory Proxy
  imports Tcp_Segment Rust_Text Byte_Stream
begin

text \<open>
  \<^verbatim>\<open>src/proxy.rs\<close>: the proxy that forwards one in-tunnel request to a fixed service on the LAN
  and streams the response back in segments. The socket to the LAN is a list of read results
  (or a failed connect), the configured port and address are parameters. Shown: the response is
  cut into consecutive, correctly numbered and checksummed segments, the last with FIN, and the
  amount buffered is bounded.
\<close>

subsection \<open>State and operations\<close>

definition MSS :: nat where "MSS = 1024"

record pconn =
  pc_active :: bool
  pc_client_ip :: ipv4addr
  pc_our_ip :: ipv4addr
  pc_client_port :: u16
  pc_rcv_nxt :: u32
  pc_snd_nxt :: u32
  pc_fetched :: bool

definition pconn_default :: pconn where
  "pconn_default = \<lparr> pc_active = False, pc_client_ip = 0, pc_our_ip = 0, pc_client_port = 0,
     pc_rcv_nxt = 0, pc_snd_nxt = 0, pc_fetched = False \<rparr>"

record tcp_proxy =
  px_conn :: pconn

text \<open>The read loop of \<open>lan_fetch\<close>; a list that ends stands for a closed connection.\<close>

primrec lan_read_loop :: "read_result list \<Rightarrow> bytes \<Rightarrow> bytes" where
  "lan_read_loop [] buf = buf"
| "lan_read_loop (r # rs) buf =
    (case r of
       ReadErr \<Rightarrow> buf
     | ReadOk d \<Rightarrow>
        if d = [] then buf
        else let buf = buf @ d in if length buf > 64 * 1024 then buf else lan_read_loop rs buf)"

text \<open>
  \<open>lan_fetch\<close>: \<open>connect\<close> is the LAN side, given the target address and the request: None
  when the connection fails, otherwise what the reads return.
\<close>

definition lan_fetch ::
  "string \<Rightarrow> u16 \<Rightarrow> (ipv4addr \<Rightarrow> u16 \<Rightarrow> bytes \<Rightarrow> read_result list option) \<Rightarrow> bytes \<Rightarrow> bytes" where
  "lan_fetch target_ip target_port connect request =
    (case parse_ipv4 target_ip of
       None \<Rightarrow> []
     | Some ip \<Rightarrow>
        (case connect ip target_port request of
           None \<Rightarrow> []
         | Some reads \<Rightarrow> lan_read_loop reads []))"

definition proxy_tcp_checksum :: "ipv4addr \<Rightarrow> ipv4addr \<Rightarrow> bytes \<Rightarrow> u16" where
  "proxy_tcp_checksum src dst tcp =
    (let ph = replicate 12 0;
         ph = put ph 0 (to_be_bytes src);
         ph = put ph 4 (to_be_bytes dst);
         ph = ph[9 := PROTO_TCP];
         ph = put ph 10 (to_be_bytes (of_nat (length tcp) :: u16));
         s = foldl icmp_add 0 [ph, tcp]
     in NOT (ucast (fold16 s)))"

definition px_segment :: "u16 \<Rightarrow> pconn \<Rightarrow> u8 \<Rightarrow> bytes \<Rightarrow> bytes panics" where
  "px_segment listen_port c flags payload = do {
     let tot = 20 + 20 + length payload;
     let pkt = replicate tot 0;
     pkt \<leftarrow> store pkt 0 0x45;
     pkt \<leftarrow> copy_from pkt 2 4 (to_be_bytes (of_nat tot :: u16));
     pkt \<leftarrow> store pkt 6 0x40;
     pkt \<leftarrow> store pkt 8 64;
     pkt \<leftarrow> store pkt 9 PROTO_TCP;
     pkt \<leftarrow> copy_from pkt 12 16 (to_be_bytes (pc_our_ip c));
     pkt \<leftarrow> copy_from pkt 16 20 (to_be_bytes (pc_client_ip c));
     hdr \<leftarrow> subslice pkt 0 20;
     let ipsum = icmp_checksum hdr;
     pkt \<leftarrow> copy_from pkt 10 12 (to_be_bytes ipsum);
     t \<leftarrow> subslice pkt 20 (length pkt);
     t \<leftarrow> copy_from t 0 2 (to_be_bytes listen_port);
     t \<leftarrow> copy_from t 2 4 (to_be_bytes (pc_client_port c));
     t \<leftarrow> copy_from t 4 8 (to_be_bytes (pc_snd_nxt c));
     t \<leftarrow> copy_from t 8 12 (to_be_bytes (pc_rcv_nxt c));
     t \<leftarrow> store t 12 (push_bit 4 5);
     t \<leftarrow> store t 13 flags;
     t \<leftarrow> copy_from t 14 16 (to_be_bytes (64240 :: u16));
     t \<leftarrow> copy_from t 20 (length t) payload;
     pkt \<leftarrow> copy_from pkt 20 (length pkt) t;
     tcp \<leftarrow> subslice pkt 20 (length pkt);
     let tsum = proxy_tcp_checksum (pc_our_ip c) (pc_client_ip c) tcp;
     copy_from pkt 36 38 (to_be_bytes tsum)
   }"

text \<open>The loop \<^verbatim>\<open>while i < resp.len()\<close> that cuts the response into segments.\<close>

function px_stream :: "u16 \<Rightarrow> pconn \<Rightarrow> bytes \<Rightarrow> nat \<Rightarrow> bytes list \<Rightarrow> (pconn \<times> bytes list) panics" where
  "px_stream listen_port c resp i out =
    (if i < length resp then do {
       let e = min (i + MSS) (length resp);
       let lst = (e = length resp);
       let fl = (if lst then PSH OR ACK OR FIN else PSH OR ACK);
       d \<leftarrow> subslice resp i e;
       s \<leftarrow> px_segment listen_port c fl d;
       let c = c\<lparr>pc_snd_nxt := pc_snd_nxt c + of_nat (e - i)\<rparr>;
       let c = (if lst then c\<lparr>pc_snd_nxt := pc_snd_nxt c + 1\<rparr> else c);
       px_stream listen_port c resp e (out @ [s]) }
     else Some (c, out))"
  by pat_completeness auto
termination
  by (relation "measure (\<lambda>(p, c, resp, i, out). length resp - i)") (auto simp: MSS_def)

declare px_stream.simps [simp del]

definition proxy_handle ::
  "u16 \<Rightarrow> (bytes \<Rightarrow> bytes) \<Rightarrow> tcp_proxy \<Rightarrow> u32 \<Rightarrow> bytes \<Rightarrow> (tcp_proxy \<times> bytes list) panics" where
  "proxy_handle listen_port fetch self rand_u32 inner = do {
     r \<leftarrow> tcp_front inner;
     (case r of None \<Rightarrow> Some (self, []) | Some g \<Rightarrow>
      let src = seg_src g; dst = seg_dst g; sport = seg_sport g; dport = seg_dport g;
          sq = seg_seq g; flags = seg_flags g; payload = seg_payload g
      in
      if dport \<noteq> listen_port then Some (self, [])
      else if flags AND SYN \<noteq> 0 then do {
        let iss = rand_u32;
        let c = \<lparr> pc_active = True, pc_client_ip = src, pc_our_ip = dst, pc_client_port = sport,
                  pc_rcv_nxt = sq + 1, pc_snd_nxt = iss, pc_fetched = False \<rparr>;
        s \<leftarrow> px_segment listen_port c (SYN OR ACK) [];
        let c = c\<lparr>pc_snd_nxt := pc_snd_nxt c + 1\<rparr>;
        Some (self\<lparr>px_conn := c\<rparr>, [s]) }
      else if \<not> pc_active (px_conn self) \<or> src \<noteq> pc_client_ip (px_conn self) \<or>
              sport \<noteq> pc_client_port (px_conn self) then Some (self, [])
      else if flags AND RST \<noteq> 0 then Some (self\<lparr>px_conn := pconn_default\<rparr>, [])
      else if payload \<noteq> [] \<and> \<not> pc_fetched (px_conn self) then do {
        let c = (px_conn self)\<lparr>pc_rcv_nxt := sq + of_nat (length payload), pc_fetched := True\<rparr>;
        a \<leftarrow> px_segment listen_port c ACK [];
        let resp = fetch payload;
        if resp = [] then do {
          f \<leftarrow> px_segment listen_port c (FIN OR ACK) [];
          let c = c\<lparr>pc_snd_nxt := pc_snd_nxt c + 1\<rparr>;
          Some (self\<lparr>px_conn := c\<rparr>, [a, f]) }
        else do {
          (c, out) \<leftarrow> px_stream listen_port c resp 0 [a];
          Some (self\<lparr>px_conn := c\<rparr>, out) } }
      else if flags AND FIN \<noteq> 0 then do {
        let c = (px_conn self)\<lparr>pc_rcv_nxt := sq + 1\<rparr>;
        s \<leftarrow> px_segment listen_port c ACK [];
        Some (self\<lparr>px_conn := pconn_default\<rparr>, [s]) }
      else Some (self, []))
   }"

subsection \<open>Every segment is the reference segment\<close>

lemma proxy_tcp_checksum_eq: "proxy_tcp_checksum src dst tcp = l4_checksum src dst PROTO_TCP tcp"
  by (simp add: proxy_tcp_checksum_def l4_checksum_def pseudo_header_def icmp_add_eq finish_def Let_def)

definition px_packet :: "u16 \<Rightarrow> pconn \<Rightarrow> u8 \<Rightarrow> bytes \<Rightarrow> bytes" where
  "px_packet port c = tcp_packet (pc_our_ip c) (pc_client_ip c) port (pc_client_port c) (pc_snd_nxt c) (pc_rcv_nxt c)"

lemma icmp_checksum_checksum: "icmp_checksum d = checksum d"
  by (simp add: icmp_checksum_def checksum_def icmp_add_eq finish_def)

lemma px_segment_eq: "px_segment port c flags payload = Some (px_packet port c flags payload)"
proof -
  have r: "replicate (20 + 20 + length payload) (0 :: u8) =
      replicate 20 0 @ replicate 20 0 @ replicate (length payload) 0"
    by (simp only: replicate_add append_assoc)
  show ?thesis
    unfolding px_segment_def Let_def r px_packet_def
    by (simp add: rust_simps list_update_put put_append1 put_append2 ip_header_def tcp_packet_def
        ip_header0_puts [where n = "40 + length payload"] tcp_header0_puts tcp_body_def
        proxy_tcp_checksum_eq icmp_checksum_checksum push_bit_eq_mult)
qed

subsection \<open>Cutting the response\<close>

fun px_cut :: "u16 \<Rightarrow> pconn \<Rightarrow> bytes list \<Rightarrow> bytes list" where
  "px_cut port c [] = []"
| "px_cut port c [d] = [px_packet port c (PSH OR ACK OR FIN) d]"
| "px_cut port c (d # d' # ds) =
     px_packet port c (PSH OR ACK) d #
     px_cut port (c\<lparr>pc_snd_nxt := pc_snd_nxt c + of_nat (length d)\<rparr>) (d' # ds)"

lemma px_stream_done: "\<not> i < length resp \<Longrightarrow> px_stream port c resp i out = Some (c, out)"
  by (simp add: px_stream.simps)

lemma px_stream_eq:
  "i < length resp \<Longrightarrow> px_stream port c resp i out =
     Some (c\<lparr>pc_snd_nxt := pc_snd_nxt c + of_nat (length resp - i) + 1\<rparr>,
           out @ px_cut port c (chunks MSS (drop i resp)))"
proof (induction "length resp - i" arbitrary: i c out rule: less_induct)
  case less
  have mss: "0 < MSS" by (simp add: MSS_def)
  have ne: "drop i resp \<noteq> []" using less.prems by simp
  have ch: "chunks MSS (drop i resp) = take MSS (drop i resp) # chunks MSS (drop (i + MSS) resp)"
    using ne mss by (subst chunks.simps) (simp add: add.commute)
  show ?case
  proof (cases "i + MSS < length resp")
    case True
    let ?c = "c\<lparr>pc_snd_nxt := pc_snd_nxt c + of_nat MSS\<rparr>"
    have "drop (i + MSS) resp \<noteq> []" using True by simp
    then obtain d ds where ch': "chunks MSS (drop (i + MSS) resp) = d # ds"
      using mss by (subst (asm) chunks.simps) (metis chunks.simps neq0_conv)
    have IH: "px_stream port ?c resp (i + MSS) (out @ [s]) =
        Some (?c\<lparr>pc_snd_nxt := pc_snd_nxt ?c + of_nat (length resp - (i + MSS)) + 1\<rparr>,
          (out @ [s]) @ px_cut port ?c (d # ds))" for s
      using True mss less.prems less.hyps [of "i + MSS" ?c "out @ [s]"] by (simp add: ch')
    have n: "(of_nat MSS :: u32) + of_nat (length resp - (i + MSS)) = of_nat (length resp - i)"
    proof -
      have "length resp - i = MSS + (length resp - (i + MSS))" using True by simp
      then show ?thesis by (simp only: of_nat_add)
    qed
    have st: "px_stream port c resp i out = px_stream port ?c resp (i + MSS) (out @ [px_packet port c (PSH OR ACK) (sub resp i (i + MSS))])"
      using True less.prems by (subst px_stream.simps) (simp add: rust_simps px_segment_eq Let_def)
    have tk: "take MSS (drop i resp) = sub resp i (i + MSS)" by (simp add: sub_def)
    have ln: "length (sub resp i (i + MSS)) = MSS" using True by simp
    show ?thesis
      unfolding st IH ch tk ch' px_cut.simps ln by (simp add: n [symmetric] add.assoc)
  next
    case False
    then have st: "px_stream port c resp i out =
        px_stream port (c\<lparr>pc_snd_nxt := pc_snd_nxt c + of_nat (length resp - i) + 1\<rparr>) resp (length resp)
          (out @ [px_packet port c (PSH OR ACK OR FIN) (sub resp i (length resp))])"
      using less.prems by (subst px_stream.simps) (simp add: rust_simps px_segment_eq Let_def)
    have "take MSS (drop i resp) = sub resp i (length resp)" "chunks MSS (drop (i + MSS) resp) = []"
      using False by (simp_all add: sub_def)
    then show ?thesis unfolding st ch by (simp add: px_stream_done)
  qed
qed

lemma px_stream_whole:
  "resp \<noteq> [] \<Longrightarrow> px_stream port c resp 0 out =
     Some (c\<lparr>pc_snd_nxt := pc_snd_nxt c + of_nat (length resp) + 1\<rparr>, out @ px_cut port c (chunks MSS resp))"
  using px_stream_eq [of 0 resp port c out] by (simp add: length_greater_0_conv)

lemma px_cut_segments:
  "\<forall>d \<in> set ds. length d \<le> MSS \<Longrightarrow> q \<in> set (px_cut port c ds) \<Longrightarrow> segment_from_port port q"
  by (induction port c ds rule: px_cut.induct)
    (auto simp: px_packet_def MSS_def intro!: segment_from_portI)

subsection \<open>The handler in closed form\<close>

definition pconn_of_syn :: "tcp_seg \<Rightarrow> u32 \<Rightarrow> pconn" where
  "pconn_of_syn g iss = \<lparr> pc_active = True, pc_client_ip = seg_src g, pc_our_ip = seg_dst g,
     pc_client_port = seg_sport g, pc_rcv_nxt = seg_seq g + 1, pc_snd_nxt = iss, pc_fetched = False \<rparr>"

definition px_of_client :: "pconn \<Rightarrow> tcp_seg \<Rightarrow> bool" where
  "px_of_client c g \<longleftrightarrow> pc_active c \<and> seg_src g = pc_client_ip c \<and> seg_sport g = pc_client_port c"

definition px_react :: "u16 \<Rightarrow> (bytes \<Rightarrow> bytes) \<Rightarrow> pconn \<Rightarrow> u32 \<Rightarrow> tcp_seg \<Rightarrow> pconn \<times> bytes list" where
  "px_react port fetch c iss g =
    (if seg_flags g AND SYN \<noteq> 0 then
       ((pconn_of_syn g iss)\<lparr>pc_snd_nxt := iss + 1\<rparr>, [px_packet port (pconn_of_syn g iss) (SYN OR ACK) []])
     else if \<not> px_of_client c g then (c, [])
     else if seg_flags g AND RST \<noteq> 0 then (pconn_default, [])
     else if seg_payload g \<noteq> [] \<and> \<not> pc_fetched c then
       (let c' = c\<lparr>pc_rcv_nxt := seg_seq g + of_nat (length (seg_payload g)), pc_fetched := True\<rparr>;
            resp = fetch (seg_payload g)
        in (c'\<lparr>pc_snd_nxt := pc_snd_nxt c + of_nat (length resp) + 1\<rparr>,
            px_packet port c' ACK [] #
            (if resp = [] then [px_packet port c' (FIN OR ACK) []] else px_cut port c' (chunks MSS resp))))
     else if seg_flags g AND FIN \<noteq> 0 then
       (pconn_default, [px_packet port (c\<lparr>pc_rcv_nxt := seg_seq g + 1\<rparr>) ACK []])
     else (c, []))"

lemma proxy_handle_eq:
  "proxy_handle port fetch s iss p = Some (case for_port port p of
      None \<Rightarrow> (s, [])
    | Some g \<Rightarrow> (s\<lparr>px_conn := fst (px_react port fetch (px_conn s) iss g)\<rparr>,
                 snd (px_react port fetch (px_conn s) iss g)))"
  by (auto simp: proxy_handle_def tcp_front_eq px_segment_eq for_port_def px_react_def px_of_client_def
      pconn_of_syn_def px_stream_whole Let_def split: option.split)

lemma px_react_segments: "q \<in> set (snd (px_react port fetch c iss g)) \<Longrightarrow> segment_from_port port q"
proof -
  have "\<forall>d \<in> set (chunks MSS xs). length d \<le> MSS" for xs :: bytes using chunks_size by blast
  note cut = px_cut_segments [OF this]
  show "q \<in> set (snd (px_react port fetch c iss g)) \<Longrightarrow> segment_from_port port q"
    by (auto simp: px_react_def px_packet_def Let_def intro!: segment_from_portI intro: cut split: if_splits)
qed

interpretation proxy: inner_handler "\<lambda>s (iss, p). proxy_handle port fetch s iss p" "\<lambda>_. True"
    "\<lambda>(iss, p). for_port port p \<noteq> None" "segment_from_port port"
  for port fetch
proof
  fix s :: tcp_proxy and i :: "u32 \<times> bytes"
  obtain iss p where i: "i = (iss, p)" by (cases i)
  show "\<exists>s' out. (case i of (iss, p) \<Rightarrow> proxy_handle port fetch s iss p) = Some (s', out) \<and> True \<and>
      (\<forall>q\<in>set out. segment_from_port port q)"
    by (auto simp: i proxy_handle_eq intro: px_react_segments split: option.split)
  show "(case i of (iss, p) \<Rightarrow> proxy_handle port fetch s iss p) = Some (s, [])"
    if "\<not> (case i of (iss, p) \<Rightarrow> for_port port p \<noteq> None)"
    using that by (simp add: i proxy_handle_eq)
qed

subsection \<open>Properties\<close>

text \<open>
  The proxy survives any traffic: for every sequence of packets and whatever the LAN service
  answers, \<open>handle\<close> never panics, emits only well-formed segments from the listening port
  whose checksums verify, and is not affected by packets that are not for that port.
\<close>

theorem proxy_survives_traffic:
  "\<exists>s' out. run_handler (\<lambda>s (iss, p). proxy_handle port fetch s iss p) s inputs = Some (s', out) \<and>
     list_all (segment_from_port port) out \<and>
     run_handler (\<lambda>s (iss, p). proxy_handle port fetch s iss p) s inputs =
       run_handler (\<lambda>s (iss, p). proxy_handle port fetch s iss p) s (filter (\<lambda>(iss, p). for_port port p \<noteq> None) inputs)"
  using proxy.run_ok [of port fetch s inputs] proxy.run_filter [of port fetch s inputs]
  unfolding list_all_iff by blast

lemma lan_read_loop_bound:
  assumes "\<forall>r \<in> set rs. \<forall>d. r = ReadOk d \<longrightarrow> length d \<le> 1460" and "length buf \<le> 64 * 1024"
  shows "length (lan_read_loop rs buf) \<le> 64 * 1024 + 1460"
  using assms
proof (induction rs arbitrary: buf)
  case (Cons r rs)
  show ?case
  proof (cases r)
    case (ReadOk d)
    then have "length d \<le> 1460" using Cons.prems(1) by simp
    with ReadOk Cons show ?thesis by (simp add: Let_def)
  next
    case ReadErr
    with Cons.prems show ?thesis by simp
  qed
qed simp

text \<open>
  One fetch cannot exhaust the heap: reading 1460 bytes at a time, \<open>lan_fetch\<close> never holds
  more than 64 KiB plus one read, however much the LAN service sends, and returns nothing when
  the target is not an address or does not answer.
\<close>

theorem lan_fetch_bounded:
  assumes "\<And>ip prt rq rs d. connect ip prt rq = Some rs \<Longrightarrow> ReadOk d \<in> set rs \<Longrightarrow> length d \<le> 1460"
  shows "length (lan_fetch target prt connect request) \<le> 66996 \<and>
    ((\<forall>ip. parse_ipv4 target = Some ip \<longrightarrow> connect ip prt request = None) \<longrightarrow>
      lan_fetch target prt connect request = [])"
  using lan_read_loop_bound [of _ "[]"] assms
  by (fastforce simp: lan_fetch_def split: option.splits)

theorem lan_fetch_bounded_witness:
  "length (lan_fetch ''10.0.0.1'' 80 (\<lambda>_ _ _. Some [ReadOk [72, 105], ReadErr]) [71]) \<le> 66996"
proof -
  have "length d \<le> 1460" if "ReadOk d \<in> set [ReadOk [72, 105], ReadErr]" for d using that by auto
  then show ?thesis
    using lan_fetch_bounded [of "\<lambda>_ _ _. Some [ReadOk [72, 105], ReadErr]" "''10.0.0.1''" 80 "[71]"] by blast
qed

end
