(* ===== verification/Dataplane.thy ===== *)
theory Dataplane
  imports Node Icmp Stun Outbound Tcp_Server Proxy
begin

text \<open>
  \<^verbatim>\<open>src/dataplane.rs\<close>, the packet path: one UDP datagram comes in, and by its first bytes it
  is a disco message, a STUN answer, or one of the three WireGuard messages. The state is a
  \<open>record\<close> with the source's fields; a \<open>HashMap\<close> is an association list without repeated
  keys, in the order in which Rust's iterator would visit it. A handler returns the new state and the
  datagrams it passed to \<open>send_to\<close>, or panics. What it draws from outside (the random index and ephemeral
  key, the clock, nonces, whether the socket accepted a datagram) is the argument \<open>rn\<close>.
  Log output is left out.
\<close>

type_synonym datagram = "bytes \<times> socket_addr"

record pending =
  pn_addr :: socket_addr
  pn_init :: bytes
  pn_hs :: handshake
  pn_our_index :: u32
  pn_sent_tick :: u32
  pn_retries :: u32

record tunnel_entry =
  te_tun :: tunnel
  te_addr :: socket_addr
  te_peer_node :: bytes
  te_tcp :: tcp_server

record outbound_run =
  ob_cfg :: outbound_cfg
  ob_icmp_ident :: u16
  ob_icmp_seq :: u16
  ob_sport :: u16
  ob_tcp :: "tcp_client option"
  ob_started :: bool
  ob_http_done :: bool

text \<open>\<open>st_mdns_reinject\<close> is the channel to the reflector: the payloads sent into it.\<close>

record dp_state =
  st_pending :: "(bytes \<times> pending) list"
  st_tunnels :: "(u32 \<times> tunnel_entry) list"
  st_confirmed :: "socket_addr set"
  st_proxy :: tcp_proxy
  st_outbound :: "outbound_run option"
  st_mdns_reinject :: "bytes list option"
  st_mdns_partner :: bytes

record packet_rand =
  rn_index :: u32
  rn_eph :: bytes
  rn_clock :: "u64 \<times> u32"
  rn_nonce :: bytes
  rn_iss :: u32
  rn_sent :: bool

definition PENDING_TIMEOUT_TICKS :: u32 where "PENDING_TIMEOUT_TICKS = 3"
definition MAX_STRIKES :: u8 where "MAX_STRIKES = 3"
definition MAX_HS_RETRIES :: u32 where "MAX_HS_RETRIES = 4"
definition MAX_TUNNELS :: nat where "MAX_TUNNELS = 8"
definition FWD_PORT :: u16 where "FWD_PORT = 5354"

subsection \<open>Handshakes\<close>

text \<open>
  \<open>maybe_start_handshake\<close>, called when a PONG has confirmed a path. The clock reading is
  \<open>rn_clock\<close>, and \<open>rn_sent\<close> tells whether the socket took the initiation.
\<close>

definition maybe_start_handshake ::
  "node_cfg \<Rightarrow> packet_rand \<Rightarrow> target list \<Rightarrow> dp_state \<Rightarrow> u32 \<Rightarrow> bytes \<Rightarrow> socket_addr \<Rightarrow>
   (dp_state \<times> datagram list) panics" where
  "maybe_start_handshake cf rn targets st tick disco_pub src =
    (case List.find (\<lambda>t. tg_disco_pub t = disco_pub) targets of
       None \<Rightarrow> Some (st, [])
     | Some target \<Rightarrow>
     if map_of (st_pending st) (tg_node_pub target) \<noteq> None \<or>
        list_ex (\<lambda>(k, e). te_addr e = src) (st_tunnels st) \<or>
        length (st_tunnels st) + length (st_pending st) \<ge> MAX_TUNNELS
     then Some (st, []) else do {
     let our_index = rn_index rn;
     let ts = tai64n (fst (rn_clock rn)) (snd (rn_clock rn));
     (msg, hs) \<leftarrow> build_initiation (cf_wg cf) (id_node_priv (cf_id cf)) (id_node_pub (cf_id cf))
        (tg_node_pub target) ts our_index (rn_eph rn);
     if rn_sent rn
     then Some (st\<lparr>st_pending := AList.update (tg_node_pub target)
                    \<lparr>pn_addr = src, pn_init = msg, pn_hs = hs, pn_our_index = our_index,
                     pn_sent_tick = tick, pn_retries = 0\<rparr> (st_pending st)\<rparr>, [(msg, src)])
     else Some (st, [(msg, src)])
     })"

definition insert_tunnel :: "dp_state \<Rightarrow> u32 \<Rightarrow> tunnel \<Rightarrow> socket_addr \<Rightarrow> bytes \<Rightarrow> dp_state" where
  "insert_tunnel st our_index tun addr peer_node =
    st\<lparr>st_tunnels := AList.update our_index
         \<lparr>te_tun = tun, te_addr = addr, te_peer_node = peer_node, te_tcp = tcp_server_new\<rparr>
         (filter (\<lambda>(k, e). te_addr e \<noteq> addr) (st_tunnels st))\<rparr>"

definition handle_wg_init ::
  "node_cfg \<Rightarrow> packet_rand \<Rightarrow> dp_state \<Rightarrow> bytes \<Rightarrow> socket_addr \<Rightarrow> (dp_state \<times> datagram list) panics" where
  "handle_wg_init cf rn st pkt src = do {
     let our_index = rn_index rn;
     r \<leftarrow> consume_initiation (cf_wg cf) (id_node_priv (cf_id cf)) (id_node_pub (cf_id cf)) pkt our_index (rn_eph rn);
     case r of
       Inr (resp, tun, peer_static) \<Rightarrow> Some (insert_tunnel st our_index tun src peer_static, [(resp, src)])
     | Inl err \<Rightarrow> Some (st, [])
   }"

definition handle_wg_response ::
  "node_cfg \<Rightarrow> dp_state \<Rightarrow> bytes \<Rightarrow> socket_addr \<Rightarrow> (dp_state \<times> datagram list) panics" where
  "handle_wg_response cf st pkt src =
    (if length pkt < 12 then Some (st, []) else do {
     p8 \<leftarrow> idx pkt 8; p9 \<leftarrow> idx pkt 9; p10 \<leftarrow> idx pkt 10; p11 \<leftarrow> idx pkt 11;
     let recv = from_le_bytes [p8, p9, p10, p11];
     case List.find (\<lambda>(k, p). pn_our_index p = recv) (st_pending st) of
       None \<Rightarrow> Some (st, [])
     | Some (key, _) \<Rightarrow> do {
     pending \<leftarrow> map_of (st_pending st) key;
     let st = st\<lparr>st_pending := AList.delete key (st_pending st)\<rparr>;
     let our_index = pn_our_index pending;
     r \<leftarrow> consume_response (cf_wg cf) (pn_hs pending) pkt;
     case r of
       Inr tun \<Rightarrow> (let (tun, ka) = keepalive (cf_wg cf) tun
                   in Some (insert_tunnel st our_index tun src key, [(ka, src)]))
     | Inl err \<Rightarrow> Some (st, [])
     }})"

subsection \<open>Decrypted packets\<close>

definition udp_payload_to_port :: "bytes \<Rightarrow> u16 \<Rightarrow> bytes option panics" where
  "udp_payload_to_port inner port =
    (if length inner < 20 then Some None else do {
     b0 \<leftarrow> idx inner 0;
     if drop_bit 4 b0 \<noteq> 4 then Some None else do {
     proto \<leftarrow> idx inner 9;
     if proto \<noteq> 17 then Some None else do {
     let ihl = unat (b0 AND 0x0f) * 4;
     b2 \<leftarrow> idx inner 2; b3 \<leftarrow> idx inner 3;
     let tot = unat (from_be_bytes [b2, b3] :: u16);
     if ihl + 8 > tot \<or> tot > length inner then Some None else do {
     udp \<leftarrow> subslice inner ihl tot;
     u2 \<leftarrow> idx udp 2; u3 \<leftarrow> idx udp 3;
     if (from_be_bytes [u2, u3] :: u16) \<noteq> port then Some None else do {
     payload \<leftarrow> subslice udp 8 (length udp);
     Some (Some payload)
     }}}}})"

text \<open>
  Encrypting replies into tunnel \<open>our_index\<close> and sending them to \<open>src\<close>, one datagram each:
  the block \<^verbatim>\<open>if let Some(e) = st.tunnels.get_mut(&our_index) { for r in &replies { ... } }\<close>.
\<close>

definition send_inner ::
  "node_cfg \<Rightarrow> dp_state \<Rightarrow> u32 \<Rightarrow> socket_addr \<Rightarrow> bytes list \<Rightarrow> dp_state \<times> datagram list" where
  "send_inner cf st our_index src replies =
    (case map_of (st_tunnels st) our_index of
       None \<Rightarrow> (st, [])
     | Some e \<Rightarrow>
         (let (tun, ws) = encrypt_all (cf_wg cf) (te_tun e) replies
          in (st\<lparr>st_tunnels := AList.update our_index (e\<lparr>te_tun := tun\<rparr>) (st_tunnels st)\<rparr>,
              map (\<lambda>w. (w, src)) ws)))"

text \<open>
  Replies to traffic the device initiated: the TCP client takes the packet if it owns it, and
  the first time it is done the response counts as handled too.
\<close>

definition outbound_replies ::
  "node_cfg \<Rightarrow> dp_state \<Rightarrow> u32 \<Rightarrow> bytes \<Rightarrow> socket_addr \<Rightarrow> (dp_state \<times> datagram list \<times> bool) panics" where
  "outbound_replies cf st our_index inner src =
    (case st_outbound st of None \<Rightarrow> Some (st, [], False) | Some ob \<Rightarrow>
     case ob_tcp ob of None \<Rightarrow> Some (st, [], False) | Some tc \<Rightarrow> do {
     own \<leftarrow> owns tc inner;
     if \<not> own then Some (st, [], False) else do {
     (tc, segs) \<leftarrow> on_inner tc inner;
     let http_line = (cl_done tc \<and> \<not> ob_http_done ob);
     let ob = ob\<lparr>ob_tcp := Some tc, ob_http_done := ob_http_done ob \<or> http_line\<rparr>;
     let st = st\<lparr>st_outbound := Some ob\<rparr>;
     let (st, out) = send_inner cf st our_index src segs;
     Some (st, out, segs \<noteq> [] \<or> http_line)
     }})"

definition is_outbound_target :: "dp_state \<Rightarrow> tunnel_entry \<Rightarrow> bool" where
  "is_outbound_target st e =
    (case st_outbound st of None \<Rightarrow> False | Some ob \<Rightarrow> oc_target_node (ob_cfg ob) = te_peer_node e)"

text \<open>The services a decrypted packet may be for, after the packet filter let it in.\<close>

definition serve_inner ::
  "node_cfg \<Rightarrow> packet_rand \<Rightarrow> dp_state \<Rightarrow> u32 \<Rightarrow> bytes \<Rightarrow> socket_addr \<Rightarrow> (dp_state \<times> datagram list) panics" where
  "serve_inner cf rn st our_index inner src = do {
     ping \<leftarrow> (if ft_icmp (cf_features cf) then echo_reply_any inner else Some None);
     case ping of
       Some reply \<Rightarrow> Some (send_inner cf st our_index src [reply])
     | None \<Rightarrow> do {
     (st, replies) \<leftarrow>
       (if ft_tcp_proxy (cf_features cf) then do {
          (p, replies) \<leftarrow> proxy_handle (cf_proxy_port cf) (cf_fetch cf) (st_proxy st) (rn_iss rn) inner;
          Some (st\<lparr>st_proxy := p\<rparr>, replies) }
        else Some (st, []));
     if replies \<noteq> [] then Some (send_inner cf st our_index src replies)
     else if ft_http_server (cf_features cf) then
       (case map_of (st_tunnels st) our_index of
          None \<Rightarrow> Some (st, [])
        | Some e \<Rightarrow> do {
            (srv, replies) \<leftarrow> handle (te_tcp e) (rn_iss rn) inner;
            let st = st\<lparr>st_tunnels := AList.update our_index (e\<lparr>te_tcp := srv\<rparr>) (st_tunnels st)\<rparr>;
            Some (send_inner cf st our_index src replies) })
     else Some (st, [])
     }}"

definition handle_decrypted ::
  "node_cfg \<Rightarrow> packet_rand \<Rightarrow> dp_state \<Rightarrow> u32 \<Rightarrow> bytes \<Rightarrow> socket_addr \<Rightarrow> (dp_state \<times> datagram list) panics" where
  "handle_decrypted cf rn st our_index inner src =
    (case map_of (st_tunnels st) our_index of
       None \<Rightarrow> Some (st, [])
     | Some e \<Rightarrow> do {
     let e = e\<lparr>te_addr := src\<rparr>;
     let st = st\<lparr>st_tunnels := AList.update our_index e (st_tunnels st)\<rparr>;
     if inner = [] then Some (st, []) else do {
     allowed \<leftarrow> src_allowed (id_allowed_srcs (cf_id cf)) inner;
     if \<not> allowed then Some (st, []) else do {
     mdns \<leftarrow> (if ft_mdns_forward (cf_features cf) \<and> te_peer_node e = st_mdns_partner st
              then udp_payload_to_port inner FWD_PORT else Some None);
     case mdns of
       Some payload \<Rightarrow> Some (st\<lparr>st_mdns_reinject := map_option (\<lambda>q. q @ [payload]) (st_mdns_reinject st)\<rparr>, [])
     | None \<Rightarrow> do {
     (st, out, handled) \<leftarrow> (if ft_outbound (cf_features cf) \<and> is_outbound_target st e
                            then outbound_replies cf st our_index inner src else Some (st, [], False));
     if handled then Some (st, out) else do {
     (st, out') \<leftarrow> serve_inner cf rn st our_index inner src;
     Some (st, out @ out')
     }}}}})"

definition handle_wg_transport ::
  "node_cfg \<Rightarrow> packet_rand \<Rightarrow> dp_state \<Rightarrow> bytes \<Rightarrow> socket_addr \<Rightarrow> (dp_state \<times> datagram list) panics" where
  "handle_wg_transport cf rn st pkt src =
    (if length pkt < 16 then Some (st, []) else do {
     p4 \<leftarrow> idx pkt 4; p5 \<leftarrow> idx pkt 5; p6 \<leftarrow> idx pkt 6; p7 \<leftarrow> idx pkt 7;
     let our_index = from_le_bytes [p4, p5, p6, p7];
     case map_of (st_tunnels st) our_index of
       None \<Rightarrow> Some (st, [])
     | Some e \<Rightarrow> do {
     r \<leftarrow> decrypt (cf_wg cf) (te_tun e) pkt;
     case r of
       Inl err \<Rightarrow> Some (st, [])
     | Inr inner \<Rightarrow> handle_decrypted cf rn st our_index inner src
     }})"

subsection \<open>Dispatch\<close>

definition handle_disco ::
  "node_cfg \<Rightarrow> packet_rand \<Rightarrow> target list \<Rightarrow> dp_state \<Rightarrow> u32 \<Rightarrow> bytes \<Rightarrow> socket_addr \<Rightarrow>
   (dp_state \<times> datagram list) panics" where
  "handle_disco cf rn targets st tick pkt src = do {
     r \<leftarrow> disco_open (cf_box cf) (id_disco_priv (cf_id cf)) pkt;
     case r of
       Inl err \<Rightarrow> Some (st, [])
     | Inr msg \<Rightarrow>
       if inc_msg_type msg = PING then do {
         pt \<leftarrow> pong_plaintext (inc_txid msg) src;
         case disco_seal (cf_box cf) (id_disco_priv (cf_id cf)) (id_disco_pub (cf_id cf))
                (inc_sender_disco_pub msg) pt (rn_nonce rn) of
           Inr reply \<Rightarrow> Some (st, [(reply, src)])
         | Inl err \<Rightarrow> Some (st, []) }
       else if inc_msg_type msg = PONG then
         maybe_start_handshake cf rn targets (st\<lparr>st_confirmed := insert src (st_confirmed st)\<rparr>) tick
           (inc_sender_disco_pub msg) src
       else Some (st, [])
   }"

definition handle_packet ::
  "node_cfg \<Rightarrow> packet_rand \<Rightarrow> target list \<Rightarrow> dp_state \<Rightarrow> u32 \<Rightarrow> bytes \<Rightarrow> socket_addr \<Rightarrow>
   (dp_state \<times> datagram list) panics" where
  "handle_packet cf rn targets st tick pkt src = do {
     disco \<leftarrow> is_disco pkt;
     if disco then handle_disco cf rn targets st tick pkt src else do {
     stun \<leftarrow> is_stun pkt;
     if stun then Some (st, [])
     else case pkt of
       [] \<Rightarrow> Some (st, [])
     | b # _ \<Rightarrow>
       if b = MSG_INITIATION then handle_wg_init cf rn st pkt src
       else if b = MSG_RESPONSE then handle_wg_response cf st pkt src
       else if b = MSG_TRANSPORT then handle_wg_transport cf rn st pkt src
       else Some (st, [])
     }}"

subsection \<open>The invariant\<close>

text \<open>
  A pending handshake stands under the index its initiation announces and has been retried at
  most four times; a tunnel stands under its own index; there are never more than eight
  pending handshakes.
\<close>

definition pending_ok :: "pending \<Rightarrow> bool" where
  "pending_ok p \<longleftrightarrow> length (pn_init p) = 148 \<and> pn_init p ! 0 = MSG_INITIATION \<and>
     sub (pn_init p) 4 8 = to_le_bytes (pn_our_index p) \<and> hs_our_index (pn_hs p) = pn_our_index p \<and>
     pn_retries p \<le> MAX_HS_RETRIES"

definition dp_inv :: "dp_state \<Rightarrow> bool" where
  "dp_inv st \<longleftrightarrow> distinct (map fst (st_pending st)) \<and> distinct (map fst (st_tunnels st)) \<and>
     length (st_pending st) \<le> MAX_TUNNELS \<and>
     (\<forall>k p. map_of (st_pending st) k = Some p \<longrightarrow> pending_ok p) \<and>
     (\<forall>i e. map_of (st_tunnels st) i = Some e \<longrightarrow> tun_our_index (te_tun e) = i)"

text \<open>What leaves the socket: disco messages, STUN requests and the three WireGuard messages.\<close>

definition datagram_ok :: "bytes \<Rightarrow> bool" where
  "datagram_ok w \<longleftrightarrow> is_disco w = Some True \<or> is_stun w = Some True \<or>
     length w = 148 \<and> w ! 0 = MSG_INITIATION \<or> length w = 92 \<and> w ! 0 = MSG_RESPONSE \<or>
     32 \<le> length w \<and> length w mod 16 = 0 \<and> w ! 0 = MSG_TRANSPORT"

definition fine :: "(dp_state \<times> datagram list) panics \<Rightarrow> bool" where
  "fine r \<longleftrightarrow> (\<exists>st out. r = Some (st, out) \<and> dp_inv st \<and> (\<forall>d \<in> set out. datagram_ok (fst d)))"

lemma fine_Some [simp]: "fine (Some (st, out)) \<longleftrightarrow> dp_inv st \<and> (\<forall>d \<in> set out. datagram_ok (fst d))"
  by (simp add: fine_def)

lemma length_update:
  "length (AList.update k v al) = (if map_of al k = None then Suc (length al) else length al)"
proof -
  have "length (AList.update k v al) = length (map fst (AList.update k v al))" by simp
  then show ?thesis by (simp only: update_keys) (auto simp: map_of_eq_None_iff)
qed

lemma dp_inv_entry:
  assumes "dp_inv st" and "tun_our_index (te_tun e) = i"
  shows "dp_inv (st\<lparr>st_tunnels := AList.update i e (st_tunnels st)\<rparr>)"
  using assms by (auto simp: dp_inv_def distinct_update update_conv')

lemma dp_inv_fields [simp]:
  "dp_inv (st\<lparr>st_confirmed := c\<rparr>) = dp_inv st" "dp_inv (st\<lparr>st_proxy := p\<rparr>) = dp_inv st"
  "dp_inv (st\<lparr>st_outbound := ob\<rparr>) = dp_inv st" "dp_inv (st\<lparr>st_mdns_reinject := q\<rparr>) = dp_inv st"
  by (simp_all add: dp_inv_def)

lemma map_of_filter_distinct:
  "distinct (map fst al) \<Longrightarrow> map_of (filter P al) k = Some v \<Longrightarrow> map_of al k = Some v"
  by (metis (no_types, lifting) filter_is_subset map_of_SomeD map_of_is_SomeI subsetD)

lemma distinct_keys_filter: "distinct (map fst al) \<Longrightarrow> distinct (map fst (filter P al))"
  by (induction al) auto

lemma dp_inv_insert_tunnel:
  assumes "dp_inv st" and "tun_our_index t = i"
  shows "dp_inv (insert_tunnel st i t addr node)"
  using assms
  by (auto simp: dp_inv_def insert_tunnel_def distinct_update update_conv' distinct_keys_filter
      dest: map_of_filter_distinct)

lemma dp_inv_drop_pending: "dp_inv st \<Longrightarrow> dp_inv (st\<lparr>st_pending := AList.delete k (st_pending st)\<rparr>)"
  by (auto simp: dp_inv_def distinct_delete delete_conv' intro: order_trans [OF length_delete_le])

subsection \<open>No handler panics, and all keep the invariant\<close>

lemma encrypt_all_sends:
  assumes ok: "wg_crypto_lengths C" and e: "encrypt_all C t ps = (t', ws)"
  shows "tun_our_index t' = tun_our_index t" and "\<forall>w \<in> set ws. datagram_ok w"
proof -
  have one: "datagram_ok w" if "encrypt C t p = (t', w)" for t t' p w
  proof -
    note w = encrypt_wire [OF that]
    have "length (drop 16 w) = length (pad_loop p) + 16"
      unfolding w(5) by (rule wg_lengths(7) [OF ok])
    then have "length w = length (pad_loop p) + 32" using w(6) by simp
    moreover have "w ! 0 = sub w 0 4 ! 0" using w(6) by simp
    ultimately show ?thesis using w(2) length_pad_loop(1) [of p] by (simp add: datagram_ok_def mod_add_eq [symmetric])
  qed
  have "tun_our_index t' = tun_our_index t \<and> (\<forall>w \<in> set ws. datagram_ok w)"
    using e
  proof (induction ps arbitrary: t t' ws)
    case (Cons p ps)
    obtain t1 w where 1: "encrypt C t p = (t1, w)" by fastforce
    obtain t2 ws' where 2: "encrypt_all C t1 ps = (t2, ws')" by fastforce
    show ?case using Cons.IH [OF 2] Cons.prems 1 2 one [OF 1] encrypt_wire(1) [OF 1] by auto
  qed simp
  then show "tun_our_index t' = tun_our_index t" and "\<forall>w \<in> set ws. datagram_ok w" by simp_all
qed

lemma send_inner_fine:
  assumes "wg_crypto_lengths (cf_wg cf)" and "dp_inv st"
  shows "fine (Some (send_inner cf st i src ps))"
proof (cases "map_of (st_tunnels st) i")
  case None
  then show ?thesis using assms(2) by (simp add: send_inner_def)
next
  case (Some e)
  obtain t' ws where e: "encrypt_all (cf_wg cf) (te_tun e) ps = (t', ws)" by fastforce
  have "tun_our_index t' = i" using encrypt_all_sends(1) [OF assms(1) e] assms(2) Some by (simp add: dp_inv_def)
  then show ?thesis using Some e assms(2) encrypt_all_sends(2) [OF assms(1) e]
    by (auto simp: send_inner_def intro!: dp_inv_entry)
qed

lemma udp_payload_to_port_eq:
  "udp_payload_to_port p port = Some (
     if is_ipv4 p \<and> p ! 9 = 17 \<and> ihl_of p + 8 \<le> total_len_of p \<and> total_len_of p \<le> length p \<and>
        from_be_bytes (sub p (ihl_of p + 2) (ihl_of p + 4)) = port
     then Some (sub p (ihl_of p + 8) (total_len_of p)) else None)"
proof (cases "is_ipv4 p \<and> p ! 9 = 17 \<and> ihl_of p + 8 \<le> total_len_of p \<and> total_len_of p \<le> length p")
  case True
  define h n where "h = ihl_of p" and "n = total_len_of p"
  have hn: "h + 8 \<le> n" "n \<le> length p" using True by (simp_all add: h_def n_def)
  have "udp_payload_to_port p port = do {
      udp \<leftarrow> subslice p h n; u2 \<leftarrow> idx udp 2; u3 \<leftarrow> idx udp 3;
      if (from_be_bytes [u2, u3] :: u16) \<noteq> port then Some None else do {
      payload \<leftarrow> subslice udp 8 (length udp); Some (Some payload) }}"
    using True by (simp add: udp_payload_to_port_def is_ipv4_def rust_simps Let_def h_def n_def
        ihl_of_def total_len_of_def)
  also have "\<dots> = Some (if from_be_bytes (sub p (h + 2) (h + 4)) = port then Some (sub p (h + 8) n) else None)"
    using hn by (simp add: rust_simps sub_2_eq add.commute)
  finally show ?thesis using True by (simp add: h_def n_def)
next
  case False
  then show ?thesis
    by (auto simp: udp_payload_to_port_def is_ipv4_def ihl_of_def total_len_of_def rust_simps Let_def)
qed

lemma outbound_replies_fine:
  assumes "wg_crypto_lengths (cf_wg cf)" and "dp_inv st"
  shows "\<exists>st' out h. outbound_replies cf st i p src = Some (st', out, h) \<and> dp_inv st' \<and>
    (\<forall>d \<in> set out. datagram_ok (fst d))"
proof -
  have f: "dp_inv (fst (send_inner cf st1 i src ps))"
      "(a, b) \<in> set (snd (send_inner cf st1 i src ps)) \<Longrightarrow> datagram_ok a"
    if "dp_inv st1" for st1 ps a b
    using send_inner_fine [OF assms(1) that, of i src ps] by (cases "send_inner cf st1 i src ps"; force)+
  show ?thesis
  proof (cases "\<exists>ob tc. st_outbound st = Some ob \<and> ob_tcp ob = Some tc \<and> cl_addressed (cl_sport tc) p")
    case True
    then show ?thesis using assms(2)
      by (auto simp: outbound_replies_def owns_eq on_inner_eq Let_def split_beta intro!: f(1) dest!: f(2) [rotated])
  next
    case False
    then show ?thesis using assms(2)
      by (auto simp: outbound_replies_def owns_eq split: option.split)
  qed
qed

lemma serve_inner_fine:
  assumes ok: "wg_crypto_lengths (cf_wg cf)" and inv: "dp_inv st"
  shows "fine (serve_inner cf rn st i p src)"
proof -
  have f: "fine (Some (send_inner cf st1 i src ps))" if "dp_inv st1" for st1 ps
    by (rule send_inner_fine [OF ok that])
  have e: "dp_inv (st\<lparr>st_proxy := q, st_tunnels := AList.update i (x\<lparr>te_tcp := y\<rparr>) (st_tunnels st)\<rparr>)"
      "dp_inv (st\<lparr>st_tunnels := AList.update i (x\<lparr>te_tcp := y\<rparr>) (st_tunnels st)\<rparr>)"
    if "map_of (st_tunnels st) i = Some x" for x y q
    using that inv dp_inv_entry [of st "x\<lparr>te_tcp := y\<rparr>" i] dp_inv_entry [of "st\<lparr>st_proxy := q\<rparr>" "x\<lparr>te_tcp := y\<rparr>" i]
    by (auto simp: dp_inv_def)
  show ?thesis using inv
    by (auto simp: serve_inner_def echo_reply_any_eq proxy_handle_eq handle_eq Let_def e update_triv
        intro!: f split: option.split prod.split)
qed

lemma handle_decrypted_fine:
  assumes ok: "wg_crypto_lengths (cf_wg cf)" and inv: "dp_inv st"
  shows "fine (handle_decrypted cf rn st i p src)"
proof (cases "map_of (st_tunnels st) i")
  case None
  then show ?thesis using inv by (simp add: handle_decrypted_def)
next
  case (Some e)
  define st1 where "st1 = st\<lparr>st_tunnels := AList.update i (e\<lparr>te_addr := src\<rparr>) (st_tunnels st)\<rparr>"
  have 1: "dp_inv st1" unfolding st1_def using Some inv by (intro dp_inv_entry) (simp_all add: dp_inv_def)
  obtain m where m: "udp_payload_to_port p FWD_PORT = Some m" using udp_payload_to_port_eq by blast
  obtain st2 out h where 2: "outbound_replies cf st1 i p src = Some (st2, out, h)" "dp_inv st2"
      "\<forall>d \<in> set out. datagram_ok (fst d)"
    using outbound_replies_fine [OF ok 1] by blast
  obtain st3 out' where 3: "serve_inner cf rn st2 i p src = Some (st3, out')" "dp_inv st3"
      "\<forall>d \<in> set out'. datagram_ok (fst d)"
    using serve_inner_fine [OF ok 2(2), of rn i p src] by (auto simp: fine_def)
  obtain st4 out4 where 4: "serve_inner cf rn st1 i p src = Some (st4, out4)" "dp_inv st4"
      "\<forall>d \<in> set out4. datagram_ok (fst d)"
    using serve_inner_fine [OF ok 1, of rn i p src] by (auto simp: fine_def)
  show ?thesis using Some 1 2 3 4 m
    by (auto simp: handle_decrypted_def src_allowed_eq Let_def split: option.split simp flip: st1_def)
qed

lemma maybe_start_handshake_fine:
  assumes ok: "identity_ok cf" and inv: "dp_inv st"
  shows "fine (maybe_start_handshake cf rn targets st tick dk src)"
proof -
  have l: "length (id_node_pub (cf_id cf)) = 32" and C: "wg_crypto_lengths (cf_wg cf)"
    using ok by (simp_all add: identity_ok_def wg_lengths)
  have ts: "length (tai64n a b) = 12" for a b by (simp add: tai64n_def)
  have new: "dp_inv (st\<lparr>st_pending := AList.update k p (st_pending st)\<rparr>)"
    if "pending_ok p" "map_of (st_pending st) k = None" "length (st_tunnels st) + length (st_pending st) < MAX_TUNNELS"
    for k p
    using inv that by (auto simp: dp_inv_def distinct_update update_conv' length_update)
  show ?thesis
  proof (cases "List.find (\<lambda>t. tg_disco_pub t = dk) targets")
    case None
    then show ?thesis using inv by (simp add: maybe_start_handshake_def)
  next
    case (Some t)
    obtain msg hs where b: "build_initiation (cf_wg cf) (id_node_priv (cf_id cf)) (id_node_pub (cf_id cf))
        (tg_node_pub t) (tai64n (fst (rn_clock rn)) (snd (rn_clock rn))) (rn_index rn) (rn_eph rn) = Some (msg, hs)"
        "length msg = 148" "msg ! 0 = MSG_INITIATION" "sub msg 4 8 = to_le_bytes (rn_index rn)"
        "hs_our_index hs = rn_index rn"
      using build_initiation_total [OF C l ts] by blast
    show ?thesis using Some b inv
      by (auto simp: maybe_start_handshake_def Let_def datagram_ok_def pending_ok_def not_le intro!: new)
  qed
qed

lemma handle_wg_init_fine:
  assumes "identity_ok cf" and "dp_inv st"
  shows "fine (handle_wg_init cf rn st pkt src)"
proof -
  have "wg_crypto_lengths (cf_wg cf)" using assms(1) by (simp add: identity_ok_def)
  from consume_initiation_total [OF this, of "id_node_priv (cf_id cf)" "id_node_pub (cf_id cf)" pkt "rn_index rn" "rn_eph rn"]
  show ?thesis using assms(2)
    by (auto simp: handle_wg_init_def datagram_ok_def intro!: dp_inv_insert_tunnel split: sum.split)
qed

lemma handle_wg_response_fine:
  assumes ok: "wg_crypto_lengths (cf_wg cf)" and inv: "dp_inv st"
  shows "fine (handle_wg_response cf st pkt src)"
proof (cases "List.find (\<lambda>(k, p). pn_our_index p = from_le_bytes [pkt ! 8, pkt ! 9, pkt ! 10, pkt ! 11]) (st_pending st)")
  case None
  then show ?thesis using inv by (simp add: handle_wg_response_def rust_simps)
next
  case (Some kp)
  obtain k p where kp: "kp = (k, p)" by fastforce
  have "(k, p) \<in> set (st_pending st)"
    using find_SomeD [OF Some] kp by simp
  then have m: "map_of (st_pending st) k = Some p" using inv by (simp add: dp_inv_def)
  obtain r where r: "consume_response (cf_wg cf) (pn_hs p) pkt = Some r"
      "\<And>t. r = Inr t \<Longrightarrow> tun_our_index t = hs_our_index (pn_hs p)"
    using consume_response_total by blast
  have "hs_our_index (pn_hs p) = pn_our_index p" using inv m by (auto simp: dp_inv_def pending_ok_def)
  moreover have "tun_our_index t' = tun_our_index t \<and> datagram_ok w" if "encrypt (cf_wg cf) t [] = (t', w)" for t t' w
    using encrypt_all_sends [OF ok, of t "[[]]" t' "[w]"] that by simp
  ultimately show ?thesis using Some kp m r inv
    by (auto simp: handle_wg_response_def keepalive_def rust_simps Let_def
        intro!: dp_inv_insert_tunnel dp_inv_drop_pending split: sum.split prod.split)
qed

lemma handle_wg_transport_fine:
  assumes "wg_crypto_lengths (cf_wg cf)" and "dp_inv st"
  shows "fine (handle_wg_transport cf rn st pkt src)"
  using assms handle_decrypted_fine [OF assms]
  by (auto simp: handle_wg_transport_def rust_simps Let_def decrypt_eq split: option.split sum.split)

lemma handle_disco_fine:
  assumes ok: "identity_ok cf" and inv: "dp_inv st"
  shows "fine (handle_disco cf rn targets st tick pkt src)"
proof -
  have "is_disco w = Some True" if "disco_seal B a p q pt n = Inr w" for B a p q pt n w
    using that by (auto simp: disco_seal_def is_disco_eq split: option.splits)
  moreover have "fine (maybe_start_handshake cf rn targets (st\<lparr>st_confirmed := c\<rparr>) tick dk src)" for c dk
    using inv by (intro maybe_start_handshake_fine [OF ok]) simp
  ultimately show ?thesis using inv
    by (auto simp: handle_disco_def disco_open_eq pong_plaintext_def addr_to_bytes_eq datagram_ok_def
        split: sum.split option.split)
qed

lemma handle_packet_fine:
  assumes "identity_ok cf" and "dp_inv st"
  shows "fine (handle_packet cf rn targets st tick pkt src)"
proof -
  have "wg_crypto_lengths (cf_wg cf)" using assms(1) by (simp add: identity_ok_def)
  then show ?thesis using assms
    by (auto simp: handle_packet_def is_disco_eq is_stun_eq handle_disco_fine handle_wg_init_fine
        handle_wg_response_fine handle_wg_transport_fine split: list.split)
qed

end
