(* ===== verification/Dataplane_Periodic.thy ===== *)
theory Dataplane_Periodic
  imports Dataplane
begin

text \<open>
  \<^verbatim>\<open>src/dataplane.rs\<close>, the work of the loop between two receives: \<open>run_periodic\<close> (new targets,
  handshake retries, disco probes with the birthday port spray, keepalives, the device's own
  traffic, the STUN refresh) and \<open>mdns_drain\<close>. The variables that \<open>run\<close> keeps beside the
  state are the record \<open>loop_state\<close>; instants are milliseconds. What is drawn from outside is
  the record \<open>periodic_rand\<close>: clock readings, random bytes per target, and whether the
  \<open>n\<close>-th \<open>send_to\<close> of the call succeeded. Arithmetic on \<open>i32\<close> wraps, as in a release build.
\<close>

record loop_state =
  lp_strikes :: "(socket_addr \<times> u8) list"
  lp_last_probe :: nat
  lp_last_stun :: nat
  lp_probe_round :: u32

record periodic_rand =
  pr_probe_read :: nat
  pr_probe_set :: nat
  pr_stun_read :: nat
  pr_stun_set :: nat
  pr_txid :: "nat \<Rightarrow> bytes"
  pr_nonce :: "nat \<Rightarrow> bytes"
  pr_tail :: "nat \<Rightarrow> nat \<Rightarrow> bytes"
  pr_sent :: "nat \<Rightarrow> bool"
  pr_client :: u32
  pr_stun_txid :: "96 word"

subsection \<open>Targets added at run time\<close>

primrec merge_endpoints :: "socket_addr list \<Rightarrow> socket_addr list \<Rightarrow> socket_addr list" where
  "merge_endpoints eps [] = eps"
| "merge_endpoints eps (ep # new) = merge_endpoints (if ep \<in> set eps then eps else eps @ [ep]) new"

primrec merge_target :: "target \<Rightarrow> target list \<Rightarrow> target list" where
  "merge_target t [] = [t]"
| "merge_target t (e # es) =
    (if tg_node_pub e = tg_node_pub t
     then e\<lparr>tg_endpoints := merge_endpoints (tg_endpoints e) (tg_endpoints t),
            tg_spray := (tg_spray e \<or> tg_spray t)\<rparr> # es
     else e # merge_target t es)"

definition pull_targets :: "target list \<Rightarrow> target list \<Rightarrow> target list" where
  "pull_targets queue targets = fold merge_target queue targets"

subsection \<open>Handshake retries\<close>

primrec retry_loop ::
  "(u32 \<times> tunnel_entry) list \<Rightarrow> u32 \<Rightarrow> (bytes \<times> pending) list \<Rightarrow>
   (bytes \<times> pending) list \<times> bytes list \<times> datagram list" where
  "retry_loop tunnels tick [] = ([], [], [])"
| "retry_loop tunnels tick (kp # ps) =
    (let (k, p) = kp;
         (ps', drops, out) = retry_loop tunnels tick ps
     in if list_ex (\<lambda>(i, e). te_addr e = pn_addr p) tunnels then ((k, p) # ps', k # drops, out)
        else if tick - pn_sent_tick p > PENDING_TIMEOUT_TICKS then
          (if pn_retries p \<ge> MAX_HS_RETRIES then ((k, p) # ps', k # drops, out)
           else ((k, p\<lparr>pn_sent_tick := tick, pn_retries := pn_retries p + 1\<rparr>) # ps', drops,
                 (pn_init p, pn_addr p) # out))
        else ((k, p) # ps', drops, out))"

definition retry_pending :: "u32 \<Rightarrow> dp_state \<Rightarrow> dp_state \<times> datagram list" where
  "retry_pending tick st =
    (let (ps, drop_pending, out) = retry_loop (st_tunnels st) tick (st_pending st)
     in (st\<lparr>st_pending := fold AList.delete drop_pending ps\<rparr>, out))"

subsection \<open>Disco probes\<close>

definition i32 :: "int \<Rightarrow> int" where
  "i32 x = sint (word_of_int x :: u32)"

definition i32_div :: "int \<Rightarrow> int \<Rightarrow> int" where
  "i32_div x y = sgn x * sgn y * (\<bar>x\<bar> div \<bar>y\<bar>)"

definition SWEEP_WIN :: int where "SWEEP_WIN = 1024"

definition sweep_center :: "u16 \<Rightarrow> u32 \<Rightarrow> int" where
  "sweep_center base tick =
    (let round = i32 (uint (tick div 2));
         step = i32_div (i32 (round + 1)) 2;
         dir = (if round mod 2 = 0 then 1 else -1)
     in i32 (uint base + i32 (i32 (dir * step) * SWEEP_WIN)))"

definition birthday_ports :: "u16 \<Rightarrow> u32 \<Rightarrow> bytes \<Rightarrow> u16 list" where
  "birthday_ports base tick rnd =
    (let center = sweep_center base tick;
         swept = filter (\<lambda>p. 1024 \<le> p \<and> p \<le> 65535)
           (map (\<lambda>d. i32 (i32 (center - SWEEP_WIN div 2) + d)) [0..SWEEP_WIN - 1]);
         tail = filter (\<lambda>p. 1024 \<le> p)
           (map (\<lambda>i. from_le_bytes [rnd ! (2 * i), rnd ! (2 * i + 1)] :: u16) [0..<256])
     in map word_of_int swept @ tail)"

definition is_public_v4 :: "ipv4addr \<Rightarrow> bool" where
  "is_public_v4 ip =
    (let o0 = to_be_bytes ip ! 0; o1 = to_be_bytes ip ! 1
     in \<not> (o0 = 10 \<or> o0 = 172 \<and> 16 \<le> o1 \<and> o1 \<le> 31 \<or> o0 = 192 \<and> o1 = 168 \<or>
          o0 = 169 \<and> o1 = 254 \<or> o0 = 127 \<or> o0 = 100 \<and> 64 \<le> o1 \<and> o1 \<le> 127 \<or> o0 = 0))"

text \<open>
  One ping to every endpoint that has not failed three times; \<open>n\<close> counts the datagrams of
  the call so far.
\<close>

primrec probe_endpoints ::
  "(nat \<Rightarrow> bool) \<Rightarrow> bytes \<Rightarrow> nat \<Rightarrow> (socket_addr \<times> u8) list \<Rightarrow> socket_addr list \<Rightarrow>
   (socket_addr \<times> u8) list \<times> datagram list" where
  "probe_endpoints sent pkt n strikes [] = (strikes, [])"
| "probe_endpoints sent pkt n strikes (ep # eps) =
    (let s = (case map_of strikes ep of None \<Rightarrow> 0 | Some s \<Rightarrow> s)
     in if s \<ge> MAX_STRIKES then probe_endpoints sent pkt n (AList.update ep s strikes) eps
        else (let s = (if sent n then 0 else s + 1);
                  (strikes, out) = probe_endpoints sent pkt (Suc n) (AList.update ep s strikes) eps
              in (strikes, (pkt, ep) # out)))"

fun addr_ip :: "socket_addr \<Rightarrow> ipv4addr + ipv6addr" where
  "addr_ip (V4 ip p) = Inl ip"
| "addr_ip (V6 ip p fl sc) = Inr ip"

text \<open>The spray of one target: \<open>tail k\<close> are the random bytes drawn for its \<open>k\<close>-th endpoint.\<close>

primrec spray_endpoints ::
  "u32 \<Rightarrow> (nat \<Rightarrow> bytes) \<Rightarrow> bytes \<Rightarrow> nat \<Rightarrow> socket_addr list \<Rightarrow> datagram list" where
  "spray_endpoints round tail pkt k [] = []"
| "spray_endpoints round tail pkt k (ep # eps) =
    (case ep of
       V4 ip port \<Rightarrow> (if is_public_v4 ip
                      then map (\<lambda>p. (pkt, V4 ip p)) (birthday_ports port round (tail k)) else [])
     | V6 _ _ _ _ \<Rightarrow> []) @ spray_endpoints round tail pkt (Suc k) eps"

primrec probe_targets ::
  "node_cfg \<Rightarrow> periodic_rand \<Rightarrow> (u32 \<times> tunnel_entry) list \<Rightarrow> u32 \<Rightarrow> nat \<Rightarrow> nat \<Rightarrow>
   (socket_addr \<times> u8) list \<Rightarrow> target list \<Rightarrow> (socket_addr \<times> u8) list \<times> datagram list" where
  "probe_targets cf pr tunnels round n j strikes [] = (strikes, [])"
| "probe_targets cf pr tunnels round n j strikes (t # ts) =
    (if list_ex (\<lambda>ep. list_ex (\<lambda>(i, e). te_addr e = ep) tunnels) (tg_endpoints t)
     then probe_targets cf pr tunnels round n (Suc j) strikes ts
     else
       (let pt = ping_plaintext (pr_txid pr j) (id_node_pub (cf_id cf))
        in case disco_seal (cf_box cf) (id_disco_priv (cf_id cf)) (id_disco_pub (cf_id cf))
                  (tg_disco_pub t) pt (pr_nonce pr j) of
             Inl err \<Rightarrow> probe_targets cf pr tunnels round n (Suc j) strikes ts
           | Inr pkt \<Rightarrow>
               (let (strikes, out) = probe_endpoints (pr_sent pr) pkt n strikes (tg_endpoints t);
                    have = list_ex (\<lambda>(i, e). list_ex (\<lambda>ep. addr_ip ep = addr_ip (te_addr e)) (tg_endpoints t)) tunnels;
                    sp = (if ft_birthday (cf_features cf) \<and> tg_spray t \<and> \<not> have
                          then spray_endpoints round (pr_tail pr j) pkt 0 (tg_endpoints t) else []);
                    (strikes, out') = probe_targets cf pr tunnels round (n + length out + length sp) (Suc j) strikes ts
                in (strikes, out @ sp @ out'))))"

subsection \<open>Keepalives and the device's own traffic\<close>

definition keepalive_all :: "node_cfg \<Rightarrow> dp_state \<Rightarrow> dp_state \<times> datagram list" where
  "keepalive_all cf st =
    (st\<lparr>st_tunnels := map (\<lambda>(i, e). (i, e\<lparr>te_tun := fst (keepalive (cf_wg cf) (te_tun e))\<rparr>)) (st_tunnels st)\<rparr>,
     map (\<lambda>(i, e). (snd (keepalive (cf_wg cf) (te_tun e)), te_addr e)) (st_tunnels st))"

definition http_get_request :: "outbound_cfg \<Rightarrow> bytes" where
  "http_get_request oc =
    ascii ''GET '' @ ascii (oc_http_path oc) @ ascii '' HTTP/1.1'' @ crlf @
    ascii ''Host: '' @ ascii (show_ipv4 (oc_target_ip oc)) @ crlf @
    ascii ''User-Agent: tdongle'' @ crlf @ ascii ''Connection: close'' @ crlf @ crlf"

definition outbound_tick :: "node_cfg \<Rightarrow> periodic_rand \<Rightarrow> dp_state \<Rightarrow> (dp_state \<times> datagram list) panics" where
  "outbound_tick cf pr st =
    (case st_outbound st of None \<Rightarrow> Some (st, []) | Some ob \<Rightarrow>
     case List.find (\<lambda>(i, e). te_peer_node e = oc_target_node (ob_cfg ob)) (st_tunnels st) of
       None \<Rightarrow> Some (st, [])
     | Some (i, entry) \<Rightarrow> do {
     let ob = ob\<lparr>ob_icmp_seq := ob_icmp_seq ob + 1\<rparr>;
     req \<leftarrow> icmp_echo_request (oc_our_ip (ob_cfg ob)) (oc_target_ip (ob_cfg ob)) (ob_icmp_ident ob)
       (ob_icmp_seq ob) (ascii ''tdongle-s3'');
     let (tun, w) = encrypt (cf_wg cf) (te_tun entry) req;
     let entry = entry\<lparr>te_tun := tun\<rparr>;
     if ob_started ob
     then Some (st\<lparr>st_tunnels := AList.update i entry (st_tunnels st), st_outbound := Some ob\<rparr>,
                [(w, te_addr entry)])
     else do {
       let c = tcp_client_new (oc_our_ip (ob_cfg ob)) (oc_target_ip (ob_cfg ob)) (ob_sport ob)
         (oc_http_port (ob_cfg ob)) (http_get_request (ob_cfg ob)) (pr_client pr);
       (c, syn) \<leftarrow> cl_open c;
       let (tun, w') = encrypt (cf_wg cf) (te_tun entry) syn;
       let entry = entry\<lparr>te_tun := tun\<rparr>;
       Some (st\<lparr>st_tunnels := AList.update i entry (st_tunnels st),
                st_outbound := Some (ob\<lparr>ob_started := True, ob_tcp := Some c\<rparr>)\<rparr>,
             [(w, te_addr entry), (w', te_addr entry)])
     }})"

subsection \<open>The whole call\<close>

definition run_periodic ::
  "node_cfg \<Rightarrow> periodic_rand \<Rightarrow> dp_state \<Rightarrow> target list \<Rightarrow> target list \<Rightarrow> u32 \<Rightarrow> loop_state \<Rightarrow>
   socket_addr option \<Rightarrow> (dp_state \<times> target list \<times> loop_state \<times> datagram list) panics" where
  "run_periodic cf pr st targets queue tick lp stun_addr = do {
     let targets = pull_targets queue targets;
     let (st, out1) = retry_pending tick st;
     (st, lp, out2) \<leftarrow>
       (if pr_probe_read pr - lp_last_probe lp \<ge> 2000 then do {
          let round = lp_probe_round lp + 1;
          let (strikes, o1) = probe_targets cf pr (st_tunnels st) round (length out1) 0 (lp_strikes lp) targets;
          let (st, o2) = keepalive_all cf st;
          (st, o3) \<leftarrow> (if ft_outbound (cf_features cf) then outbound_tick cf pr st else Some (st, []));
          Some (st, lp\<lparr>lp_last_probe := pr_probe_set pr, lp_probe_round := round, lp_strikes := strikes\<rparr>,
                o1 @ o2 @ o3) }
        else Some (st, lp, []));
     (lp, out3) \<leftarrow>
       (if pr_stun_read pr - lp_last_stun lp \<ge> 15000 then do {
          let lp = lp\<lparr>lp_last_stun := pr_stun_set pr\<rparr>;
          case stun_addr of
            None \<Rightarrow> Some (lp, [])
          | Some a \<Rightarrow> do { (req, txid) \<leftarrow> binding_request (to_be_bytes (pr_stun_txid pr)); Some (lp, [(req, a)]) } }
        else Some (lp, []));
     Some (st, targets, lp, out1 @ out2 @ out3)
   }"

text \<open>\<open>mdns_drain\<close>: every payload captured on the LAN goes to the partner, if its tunnel is up.\<close>

primrec mdns_drain ::
  "node_cfg \<Rightarrow> ipv4addr \<Rightarrow> ipv4addr \<Rightarrow> bytes \<Rightarrow> dp_state \<Rightarrow> bytes list \<Rightarrow> (dp_state \<times> datagram list) panics" where
  "mdns_drain cf our_ip partner_ip partner_node st [] = Some (st, [])"
| "mdns_drain cf our_ip partner_ip partner_node st (payload # queue) =
    (case List.find (\<lambda>(i, e). te_peer_node e = partner_node) (st_tunnels st) of
       None \<Rightarrow> mdns_drain cf our_ip partner_ip partner_node st queue
     | Some (i, entry) \<Rightarrow> do {
     inner \<leftarrow> udp_datagram our_ip partner_ip FWD_PORT FWD_PORT payload;
     let (tun, w) = encrypt (cf_wg cf) (te_tun entry) inner;
     (st, out) \<leftarrow> mdns_drain cf our_ip partner_ip partner_node
       (st\<lparr>st_tunnels := AList.update i (entry\<lparr>te_tun := tun\<rparr>) (st_tunnels st)\<rparr>) queue;
     Some (st, (w, te_addr entry) # out)
     })"

subsection \<open>Periodic work keeps the invariant\<close>

text \<open>One pending handshake at tick \<open>tick\<close>: what the loop leaves of it, and whether it is given up.\<close>

definition retry_one :: "(u32 \<times> tunnel_entry) list \<Rightarrow> u32 \<Rightarrow> pending \<Rightarrow> pending option" where
  "retry_one tunnels tick p =
    (if list_ex (\<lambda>(i, e). te_addr e = pn_addr p) tunnels then None
     else if tick - pn_sent_tick p > PENDING_TIMEOUT_TICKS then
       (if pn_retries p \<ge> MAX_HS_RETRIES then None
        else Some (p\<lparr>pn_sent_tick := tick, pn_retries := pn_retries p + 1\<rparr>))
     else Some p)"

definition retry_sends :: "(u32 \<times> tunnel_entry) list \<Rightarrow> u32 \<Rightarrow> pending \<Rightarrow> bool" where
  "retry_sends tunnels tick p \<longleftrightarrow> \<not> list_ex (\<lambda>(i, e). te_addr e = pn_addr p) tunnels \<and>
     tick - pn_sent_tick p > PENDING_TIMEOUT_TICKS \<and> pn_retries p < MAX_HS_RETRIES"

lemma retry_loop_eq:
  "retry_loop tunnels tick ps =
    (map (\<lambda>(k, p). (k, case retry_one tunnels tick p of Some q \<Rightarrow> q | None \<Rightarrow> p)) ps,
     map fst (filter (\<lambda>(k, p). retry_one tunnels tick p = None) ps),
     map (\<lambda>(k, p). (pn_init p, pn_addr p)) (filter (\<lambda>(k, p). retry_sends tunnels tick p) ps))"
  by (induction ps) (auto simp: retry_one_def retry_sends_def not_le split: if_splits)

lemma map_of_fold_delete: "map_of (fold AList.delete ks al) k = (if k \<in> set ks then None else map_of al k)"
  by (induction ks arbitrary: al) (auto simp: delete_conv')

lemma distinct_fold_delete: "distinct (map fst al) \<Longrightarrow> distinct (map fst (fold AList.delete ks al))"
  by (induction ks arbitrary: al) (simp_all add: distinct_delete)

lemma length_fold_delete: "length (fold AList.delete ks al) \<le> length al"
proof (induction ks arbitrary: al)
  case (Cons k ks)
  from Cons [of "AList.delete k al"] length_delete_le [of k al] show ?case by simp
qed simp

lemma map_of_retry_pending:
  assumes "distinct (map fst (st_pending st))"
  shows "map_of (st_pending (fst (retry_pending tick st))) k =
    Option.bind (map_of (st_pending st) k) (retry_one (st_tunnels st) tick)"
proof -
  let ?one = "retry_one (st_tunnels st) tick"
  have m: "map_of (map (\<lambda>(k, p). (k, case ?one p of Some q \<Rightarrow> q | None \<Rightarrow> p)) ps) k =
      map_option (\<lambda>p. case ?one p of Some q \<Rightarrow> q | None \<Rightarrow> p) (map_of ps k)" for ps
    by (simp add: map_of_map)
  have "k \<in> fst ` set (filter (\<lambda>(k, p). ?one p = None) (st_pending st)) \<longleftrightarrow>
      (\<exists>p. map_of (st_pending st) k = Some p \<and> ?one p = None)"
    using assms by (force simp: map_of_eq_Some_iff)
  then show ?thesis
    by (cases "map_of (st_pending st) k")
      (auto simp: retry_pending_def retry_loop_eq map_of_fold_delete m Let_def simp del: set_filter split: option.split)
qed

lemma retry_one_ok: "pending_ok p \<Longrightarrow> retry_one tunnels tick p = Some q \<Longrightarrow> pending_ok q"
  by (auto simp: retry_one_def pending_ok_def MAX_HS_RETRIES_def split: if_splits) unat_arith

lemma retry_pending_fine:
  assumes "dp_inv st"
  shows "fine (Some (retry_pending tick st))"
proof -
  let ?st = "fst (retry_pending tick st)"
  have d: "distinct (map fst (st_pending st))" and t: "st_tunnels ?st = st_tunnels st"
    using assms by (simp_all add: dp_inv_def retry_pending_def split_beta Let_def)
  have p: "st_pending ?st = fold AList.delete (fst (snd (retry_loop (st_tunnels st) tick (st_pending st))))
      (fst (retry_loop (st_tunnels st) tick (st_pending st)))"
    by (simp add: retry_pending_def split_beta Let_def)
  have keys: "map fst (fst (retry_loop (st_tunnels st) tick (st_pending st))) = map fst (st_pending st)"
    by (simp add: retry_loop_eq comp_def split_beta)
  have "length (st_pending ?st) \<le> length (st_pending st)"
    using length_fold_delete keys unfolding p by (metis length_map)
  moreover have "pending_ok q" if q: "map_of (st_pending ?st) k = Some q" for k q
  proof -
    obtain p where "map_of (st_pending st) k = Some p" "retry_one (st_tunnels st) tick p = Some q"
      using q unfolding map_of_retry_pending [OF d] bind_eq_Some_conv by blast
    then show ?thesis using assms retry_one_ok unfolding dp_inv_def by blast
  qed
  moreover have "distinct (map fst (st_pending ?st))"
    unfolding p using d keys by (intro distinct_fold_delete) simp
  ultimately have "dp_inv ?st" using assms t by (auto simp: dp_inv_def)
  moreover have "datagram_ok (fst x)" if "x \<in> set (snd (retry_pending tick st))" for x
  proof -
    obtain k p where "(k, p) \<in> set (st_pending st)" "x = (pn_init p, pn_addr p)"
      using \<open>x \<in> _\<close> by (auto simp: retry_pending_def retry_loop_eq)
    moreover have "pending_ok p" using assms d calculation by (auto simp: dp_inv_def map_of_eq_Some_iff)
    ultimately show ?thesis by (simp add: pending_ok_def datagram_ok_def)
  qed
  ultimately show ?thesis by (cases "retry_pending tick st") simp
qed

lemma probe_endpoints_pkt: "(w, a) \<in> set (snd (probe_endpoints sent pkt n strikes eps)) \<Longrightarrow> w = pkt \<and> a \<in> set eps"
  by (induction eps arbitrary: n strikes) (auto simp: Let_def split_beta split: if_splits)

lemma spray_endpoints_pkt: "(w, a) \<in> set (spray_endpoints round tail pkt k eps) \<Longrightarrow> w = pkt"
  by (induction eps arbitrary: k) (auto split: socket_addr.splits if_splits)

lemma disco_seal_is_disco: "disco_seal B a p q pt n = Inr w \<Longrightarrow> is_disco w = Some True"
  by (auto simp: disco_seal_def is_disco_eq split: option.splits)

lemma probe_targets_disco:
  "(w, a) \<in> set (snd (probe_targets cf pr tunnels round n j strikes ts)) \<Longrightarrow> is_disco w = Some True"
proof (induction ts arbitrary: n j strikes)
  case (Cons t ts)
  show ?case
  proof (cases "disco_seal (cf_box cf) (id_disco_priv (cf_id cf)) (id_disco_pub (cf_id cf)) (tg_disco_pub t)
      (ping_plaintext (pr_txid pr j) (id_node_pub (cf_id cf))) (pr_nonce pr j)")
    case (Inl e)
    then show ?thesis using Cons by (auto split: if_splits)
  next
    case (Inr pkt)
    note d = disco_seal_is_disco [OF Inr]
    show ?thesis using Cons Inr d
      by (auto simp: Let_def split_beta dest: probe_endpoints_pkt spray_endpoints_pkt split: if_splits)
  qed
qed simp

lemma encrypt_ok:
  assumes "wg_crypto_lengths C"
  shows "datagram_ok (snd (encrypt C t p))" "tun_our_index (fst (encrypt C t p)) = tun_our_index t"
  using encrypt_all_sends [OF assms, of t "[p]" "fst (encrypt C t p)" "[snd (encrypt C t p)]"]
  by (simp_all add: split_beta)

lemma keepalive_all_fine:
  assumes "wg_crypto_lengths (cf_wg cf)" and "dp_inv st"
  shows "fine (Some (keepalive_all cf st))"
proof -
  have "map_of (st_tunnels (fst (keepalive_all cf st))) i =
      map_option (\<lambda>e. e\<lparr>te_tun := fst (keepalive (cf_wg cf) (te_tun e))\<rparr>) (map_of (st_tunnels st) i)" for i
    by (simp add: keepalive_all_def map_of_map)
  moreover have "map fst (st_tunnels (fst (keepalive_all cf st))) = map fst (st_tunnels st)"
    by (simp add: keepalive_all_def comp_def split_beta)
  ultimately have "dp_inv (fst (keepalive_all cf st))"
    using assms by (auto simp: dp_inv_def keepalive_def encrypt_ok) (simp_all add: keepalive_all_def)
  then show ?thesis using assms by (auto simp: keepalive_all_def keepalive_def encrypt_ok)
qed

lemma outbound_tick_fine:
  assumes ok: "wg_crypto_lengths (cf_wg cf)" and inv: "dp_inv st"
  shows "fine (outbound_tick cf pr st)"
proof (cases "\<exists>ob i e. st_outbound st = Some ob \<and>
    List.find (\<lambda>(i, e). te_peer_node e = oc_target_node (ob_cfg ob)) (st_tunnels st) = Some (i, e)")
  case False
  then show ?thesis using inv by (auto simp: outbound_tick_def split: option.split)
next
  case True
  then obtain ob i e where ob: "st_outbound st = Some ob"
    and f: "List.find (\<lambda>(i, e). te_peer_node e = oc_target_node (ob_cfg ob)) (st_tunnels st) = Some (i, e)" by blast
  have "map_of (st_tunnels st) i = Some e" using find_SomeD [OF f] inv by (simp add: dp_inv_def)
  then have "tun_our_index (te_tun e) = i" using inv by (simp add: dp_inv_def)
  then show ?thesis using ob f inv
    by (auto simp: outbound_tick_def icmp_request_layout cl_open_def cl_segment_eq encrypt_ok [OF ok] split_beta
        Let_def intro!: dp_inv_entry)
qed

lemma mdns_drain_fine:
  assumes ok: "wg_crypto_lengths (cf_wg cf)"
  shows "dp_inv st \<Longrightarrow> fine (mdns_drain cf our_ip partner_ip node st queue)"
proof (induction queue arbitrary: st)
  case (Cons payload queue)
  show ?case
  proof (cases "List.find (\<lambda>(i, e). te_peer_node e = node) (st_tunnels st)")
    case None
    then show ?thesis using Cons by simp
  next
    case (Some ie)
    obtain i e where ie: "ie = (i, e)" by fastforce
    obtain inner where u: "udp_datagram our_ip partner_ip FWD_PORT FWD_PORT payload = Some inner"
      by (simp add: udp_datagram_layout Let_def)
    have "tun_our_index (te_tun e) = i"
      using find_SomeD [OF Some] ie Cons.prems by (simp add: dp_inv_def)
    then have "dp_inv (st\<lparr>st_tunnels := AList.update i (e\<lparr>te_tun := fst (encrypt (cf_wg cf) (te_tun e) inner)\<rparr>) (st_tunnels st)\<rparr>)"
      using Cons.prems by (intro dp_inv_entry) (simp_all add: encrypt_ok [OF ok])
    from Cons.IH [OF this] show ?thesis
      using Some ie u by (auto simp: fine_def split_beta encrypt_ok [OF ok])
  qed
qed simp

lemma run_periodic_fine:
  assumes "wg_crypto_lengths (cf_wg cf)" and "dp_inv st"
  shows "\<exists>st' ts lp' out. run_periodic cf pr st targets queue tick lp stun_addr = Some (st', ts, lp', out) \<and>
    dp_inv st' \<and> (\<forall>d \<in> set out. datagram_ok (fst d))"
proof -
  obtain st1 o1 where 1: "retry_pending tick st = (st1, o1)" by fastforce
  have f1: "dp_inv st1" "\<forall>d \<in> set o1. datagram_ok (fst d)"
    using retry_pending_fine [OF assms(2), of tick] 1 by simp_all
  obtain st2 o2 where 2: "keepalive_all cf st1 = (st2, o2)" by fastforce
  have f2: "dp_inv st2" "\<forall>d \<in> set o2. datagram_ok (fst d)"
    using keepalive_all_fine [OF assms(1) f1(1)] 2 by simp_all
  obtain st3 o3 where 3: "outbound_tick cf pr st2 = Some (st3, o3)" and f3: "dp_inv st3" "\<forall>d \<in> set o3. datagram_ok (fst d)"
    using outbound_tick_fine [OF assms(1) f2(1), of pr] by (auto simp: fine_def)
  have s: "is_stun (to_be_bytes BINDING_REQUEST @ to_be_bytes (0 :: u16) @ to_be_bytes MAGIC_COOKIE @ to_be_bytes (pr_stun_txid pr)) = Some True"
    by (simp add: is_stun_eq bytes_roundtrip)
  show ?thesis
    using f1 f2 f3 s
    by (auto simp: run_periodic_def 1 2 3 Let_def split_beta binding_request_eq datagram_ok_def
        dest: probe_targets_disco split: option.split)
qed

end
