(* ===== verification/Dataplane_System.thy ===== *)
theory Dataplane_System
  imports Dataplane_Periodic
begin

text \<open>
  The data plane as a system. Its atomic sections are the events of \<open>dp_handle\<close>: the
  housekeeping of one loop iteration (\<open>run_periodic\<close> and \<open>mdns_drain\<close>, under the lock in
  the dual-core build), one received packet, and a change of the iteration order of the hash
  maps, which Rust leaves open. The single-threaded loop of \<open>run\<close> is the sequences in which
  a housekeeping precedes each receive (\<open>loop_body\<close>). Shown: no traffic makes the data plane
  panic or leave its invariant; what is not authenticated changes nothing; the packet filter
  holds; unanswered handshakes free their slot; and two nodes that reach each other end with
  a working tunnel.
\<close>

subsection \<open>The loop\<close>

record loop_cfg =
  lc_node :: node_cfg
  lc_stun_addr :: "socket_addr option"
  lc_our_ip :: ipv4addr
  lc_partner_ip :: ipv4addr
  lc_partner_node :: bytes

text \<open>\<open>w_tick\<close> is the tick packets are handled with, \<open>w_loop_tick\<close> that of the next housekeeping.\<close>

record dp_world =
  w_st :: dp_state
  w_targets :: "target list"
  w_lp :: loop_state
  w_loop_tick :: u32
  w_tick :: u32

datatype dp_event =
    House periodic_rand "target list" "bytes list"
  | Packet packet_rand bytes socket_addr
  | Rehash "(bytes \<times> pending) list" "(u32 \<times> tunnel_entry) list"

definition house :: "loop_cfg \<Rightarrow> dp_world \<Rightarrow> periodic_rand \<Rightarrow> target list \<Rightarrow> bytes list \<Rightarrow>
  (dp_world \<times> datagram list) panics" where
  "house rc w pr queue mdns = do {
     (st, targets, lp, out) \<leftarrow> run_periodic (lc_node rc) pr (w_st w) (w_targets w) queue (w_loop_tick w) (w_lp w)
        (lc_stun_addr rc);
     (st, out') \<leftarrow> (if ft_mdns_forward (cf_features (lc_node rc))
        then mdns_drain (lc_node rc) (lc_our_ip rc) (lc_partner_ip rc) (lc_partner_node rc) st mdns else Some (st, []));
     Some (w\<lparr>w_st := st, w_targets := targets, w_lp := lp, w_tick := w_loop_tick w,
            w_loop_tick := w_loop_tick w + 1\<rparr>, out @ out')
   }"

text \<open>A reordering is an enumeration of the same entries.\<close>

definition same_entries :: "('k \<times> 'v) list \<Rightarrow> ('k \<times> 'v) list \<Rightarrow> bool" where
  "same_entries xs ys \<longleftrightarrow> distinct (map fst xs) \<and> set xs = set ys \<and> length xs = length ys"

fun dp_handle :: "loop_cfg \<Rightarrow> dp_world \<Rightarrow> dp_event \<Rightarrow> (dp_world \<times> datagram list) panics" where
  "dp_handle rc w (House pr queue mdns) = house rc w pr queue mdns"
| "dp_handle rc w (Packet rn pkt src) = do {
     (st, out) \<leftarrow> handle_packet (lc_node rc) rn (w_targets w) (w_st w) (w_tick w) pkt src;
     Some (w\<lparr>w_st := st\<rparr>, out) }"
| "dp_handle rc w (Rehash ps ts) =
    (if same_entries ps (st_pending (w_st w)) \<and> same_entries ts (st_tunnels (w_st w))
     then Some (w\<lparr>w_st := (w_st w)\<lparr>st_pending := ps, st_tunnels := ts\<rparr>\<rparr>, [])
     else Some (w, []))"

text \<open>The state \<open>run\<close> starts with, and one iteration of the single-threaded loop.\<close>

definition dp_new :: "outbound_cfg option \<Rightarrow> bytes \<Rightarrow> bytes list option \<Rightarrow> bytes \<Rightarrow> dp_state" where
  "dp_new cfg s reinject partner =
    \<lparr>st_pending = [], st_tunnels = [], st_confirmed = {}, st_proxy = \<lparr>px_conn = pconn_default\<rparr>,
     st_outbound = map_option (\<lambda>c. \<lparr>ob_cfg = c, ob_icmp_ident = from_le_bytes [s ! 0, s ! 1], ob_icmp_seq = 0,
        ob_sport = 1024 + from_le_bytes [s ! 2, s ! 3] mod 60000, ob_tcp = None, ob_started = False,
        ob_http_done = False\<rparr>) cfg,
     st_mdns_reinject = reinject, st_mdns_partner = partner\<rparr>"

definition dp_world_new :: "target list \<Rightarrow> dp_state \<Rightarrow> nat \<Rightarrow> dp_world" where
  "dp_world_new targets st now =
    \<lparr>w_st = st, w_targets = targets,
     w_lp = \<lparr>lp_strikes = [], lp_last_probe = (if 2000 \<le> now then now - 2000 else now), lp_last_stun = now, lp_probe_round = 0\<rparr>,
     w_loop_tick = 0, w_tick = 0\<rparr>"

definition loop_body :: "loop_cfg \<Rightarrow> dp_world \<Rightarrow> periodic_rand \<times> target list \<times> bytes list \<times>
  (packet_rand \<times> bytes \<times> socket_addr) option \<Rightarrow> (dp_world \<times> datagram list) panics" where
  "loop_body rc w i = (case i of (pr, queue, mdns, recv) \<Rightarrow> do {
     (w, out) \<leftarrow> dp_handle rc w (House pr queue mdns);
     case recv of
       None \<Rightarrow> Some (w, out)
     | Some (rn, pkt, src) \<Rightarrow> do {
         (w, out') \<leftarrow> dp_handle rc w (Packet rn pkt src);
         Some (w, out @ out') } })"

subsection \<open>The contract of a handler, for the data plane\<close>

lemma same_entries_map_of: "same_entries xs ys \<Longrightarrow> distinct (map fst ys) \<Longrightarrow> map_of xs = map_of ys"
  unfolding same_entries_def by (rule ext, metis map_of_eq_Some_iff not_None_eq)

lemma dp_inv_rehash:
  assumes "dp_inv st" and "same_entries ps (st_pending st)" and "same_entries ts (st_tunnels st)"
  shows "dp_inv (st\<lparr>st_pending := ps, st_tunnels := ts\<rparr>)"
  using assms same_entries_map_of [OF assms(2)] same_entries_map_of [OF assms(3)]
  by (auto simp: dp_inv_def same_entries_def)

lemma house_fine:
  assumes "wg_crypto_lengths (cf_wg (lc_node rc))" and "dp_inv (w_st w)"
  shows "\<exists>w' out. house rc w pr queue mdns = Some (w', out) \<and> dp_inv (w_st w') \<and> (\<forall>d \<in> set out. datagram_ok (fst d))"
proof -
  obtain st ts lp out where p: "run_periodic (lc_node rc) pr (w_st w) (w_targets w) queue (w_loop_tick w) (w_lp w)
      (lc_stun_addr rc) = Some (st, ts, lp, out)" "dp_inv st" "\<forall>d \<in> set out. datagram_ok (fst d)"
    using run_periodic_fine [OF assms] by blast
  have "fine (mdns_drain (lc_node rc) (lc_our_ip rc) (lc_partner_ip rc) (lc_partner_node rc) st mdns)"
    by (rule mdns_drain_fine [OF assms(1) p(2)])
  then show ?thesis using p by (auto simp: house_def fine_def)
qed

interpretation dataplane: inner_handler "dp_handle rc"
  "\<lambda>w. identity_ok (lc_node rc) \<and> dp_inv (w_st w)" "\<lambda>_. True" "\<lambda>d. datagram_ok (fst d)" for rc
proof
  fix w :: dp_world and i
  assume inv: "identity_ok (lc_node rc) \<and> dp_inv (w_st w)"
  show "\<exists>w' out. dp_handle rc w i = Some (w', out) \<and> (identity_ok (lc_node rc) \<and> dp_inv (w_st w')) \<and>
      (\<forall>q \<in> set out. datagram_ok (fst q))"
  proof (cases i)
    case (House pr queue mdns)
    then show ?thesis using inv house_fine [of rc w] by (auto simp: identity_ok_def)
  next
    case (Packet rn pkt src)
    then show ?thesis
      using inv handle_packet_fine [of "lc_node rc" "w_st w" rn "w_targets w" "w_tick w" pkt src]
      by (auto simp: fine_def)
  next
    case (Rehash ps ts)
    then show ?thesis using inv by (auto intro: dp_inv_rehash)
  qed
qed simp

subsection \<open>Dispatch of transport packets\<close>

definition is_transport :: "bytes \<Rightarrow> bool" where
  "is_transport pkt \<longleftrightarrow> (case pkt of [] \<Rightarrow> False | b # _ \<Rightarrow> b = MSG_TRANSPORT) \<and> 16 \<le> length pkt"

text \<open>
  The index whose bytes on the wire are the STUN cookie: a packet for it would be taken for a
  STUN answer by \<open>handle_packet\<close>, but not by \<open>process_packet\<close>.
\<close>

definition STUN_INDEX :: u32 where
  "STUN_INDEX = from_le_bytes (to_be_bytes MAGIC_COOKIE)"

lemma transport_dispatch:
  assumes "is_transport pkt" and "from_le_bytes [pkt ! 4, pkt ! 5, pkt ! 6, pkt ! 7] \<noteq> STUN_INDEX"
  shows "handle_packet cf rn targets st tick pkt src = handle_wg_transport cf rn st pkt src"
proof -
  have p: "pkt \<noteq> []" "hd pkt = MSG_TRANSPORT" "16 \<le> length pkt"
    using assms(1) by (auto simp: is_transport_def split: list.splits)
  have "sub pkt 0 6 ! 0 = MSG_TRANSPORT" using p by (simp add: hd_conv_nth)
  then have "sub pkt 0 6 \<noteq> MAGIC" by (auto simp: MAGIC_def)
  moreover have "from_be_bytes (sub pkt 4 8) \<noteq> MAGIC_COOKIE"
  proof
    assume c: "from_be_bytes (sub pkt 4 8) = MAGIC_COOKIE"
    have "sub pkt 4 8 = to_be_bytes MAGIC_COOKIE"
      using to_from_be_bytes [of "sub pkt 4 8", where ?'a = 32] p(3) c by simp
    then show False using assms(2) p(3) by (simp add: STUN_INDEX_def sub_4_eq)
  qed
  ultimately show ?thesis using p
    by (cases pkt) (simp_all add: handle_packet_def is_disco_eq is_stun_eq)
qed

lemma encrypt_is_transport:
  assumes "encrypt C t p = (t', w)"
  shows "is_transport w" and "from_le_bytes [w ! 4, w ! 5, w ! 6, w ! 7] = tun_their_index t"
proof -
  note w = encrypt_wire [OF assms]
  have "w ! 0 = sub w 0 4 ! 0" using w(6) by simp
  then have "w ! 0 = MSG_TRANSPORT" using w(2) by simp
  then show "is_transport w" using w(6) by (cases w) (simp_all add: is_transport_def)
  show "from_le_bytes [w ! 4, w ! 5, w ! 6, w ! 7] = tun_their_index t"
    using index_field [of 4 w "tun_their_index t"] w(3,6) by simp
qed

subsection \<open>A node for the examples\<close>

definition toy_node :: node_cfg where
  "toy_node = \<lparr>cf_wg = toy_crypto, cf_box = toy_box,
     cf_id = \<lparr>id_disco_priv = replicate 32 1, id_disco_pub = box_public toy_box (replicate 32 1),
       id_node_priv = replicate 32 2, id_node_pub = pubkey toy_crypto (replicate 32 2),
       id_allowed_srcs = Some [(0x64400000, 0xffc00000)]\<rparr>,
     cf_features = \<lparr>ft_icmp = True, ft_http_server = True, ft_outbound = True, ft_mdns_forward = True,
       ft_tcp_proxy = True, ft_birthday = True\<rparr>,
     cf_proxy_port = 8080, cf_fetch = (\<lambda>_. [])\<rparr>"

definition toy_loop :: loop_cfg where
  "toy_loop = \<lparr>lc_node = toy_node, lc_stun_addr = None, lc_our_ip = 0x64400001, lc_partner_ip = 0x64400002,
     lc_partner_node = replicate 32 9\<rparr>"

definition toy_rand :: packet_rand where
  "toy_rand = \<lparr>rn_index = 5, rn_eph = replicate 32 3, rn_clock = (1700000000, 0), rn_nonce = replicate 24 0,
     rn_iss = 1, rn_sent = True\<rparr>"

lemma toy_node_ok: "identity_ok toy_node"
  using toy_crypto_ok by (simp add: identity_ok_def toy_node_def wg_crypto_ok_lengths)

subsection \<open>Properties\<close>

text \<open>
  C1. The data plane survives any traffic: started with the state \<open>run\<close> builds, whatever
  packets arrive from whatever addresses, in whatever order with the housekeeping, and
  whatever order the hash maps iterate in, no event panics; there are never more than eight
  handshakes in flight, each stands under the index it announced and has been retried at most
  four times, each tunnel stands under its own index; and everything passed to the socket is a
  well-formed disco, STUN or WireGuard message.
\<close>

theorem dataplane_survives:
  assumes "identity_ok (lc_node rc)"
  shows "\<exists>w out. run_handler (dp_handle rc) (dp_world_new targets (dp_new cfg s reinject partner) now) events = Some (w, out) \<and>
    dp_inv (w_st w) \<and> list_all (\<lambda>d. datagram_ok (fst d)) out"
proof -
  have "dp_inv (dp_new cfg s reinject partner)" by (simp add: dp_new_def dp_inv_def)
  then show ?thesis
    using dataplane.run_ok [of rc "dp_world_new targets (dp_new cfg s reinject partner) now" events] assms
    by (auto simp: dp_world_new_def list_all_iff)
qed

theorem dataplane_survives_witness:
  "\<exists>w out. run_handler (dp_handle toy_loop) (dp_world_new [] (dp_new None [] None []) 0)
     [Packet toy_rand [4, 0, 0, 0, 1, 2, 3] (V4 1 2), Rehash [] []] = Some (w, out) \<and> dp_inv (w_st w)"
  using dataplane_survives [of toy_loop "[]" None "[]" None "[]" 0
      "[Packet toy_rand [4, 0, 0, 0, 1, 2, 3] (V4 1 2), Rehash [] []]"] toy_node_ok
  by (auto simp: toy_loop_def)

text \<open>
  C4. The packet filter is enforced on the UDP path: a transport packet that decrypts in its
  tunnel to an inner packet the filter denies is dropped. Nothing is sent, no service sees
  it, and all that changes is the address the tunnel is reached at.
\<close>

theorem denied_packets_dropped:
  assumes "is_transport pkt" and "i = from_le_bytes [pkt ! 4, pkt ! 5, pkt ! 6, pkt ! 7]" and "i \<noteq> STUN_INDEX"
    and "map_of (st_tunnels st) i = Some e" and "decrypt (cf_wg cf) (te_tun e) pkt = Some (Inr inner)"
    and "src_allowed (id_allowed_srcs (cf_id cf)) inner = Some False"
  shows "handle_packet cf rn targets st tick pkt src =
    Some (st\<lparr>st_tunnels := AList.update i (e\<lparr>te_addr := src\<rparr>) (st_tunnels st)\<rparr>, [])"
proof -
  have "16 \<le> length pkt" using assms(1) by (simp add: is_transport_def)
  then show ?thesis using assms
    by (simp add: transport_dispatch handle_wg_transport_def handle_decrypted_def rust_simps Let_def)
qed

definition denied_inner :: bytes where
  "denied_inner = [0x45] @ replicate 11 0 @ [10, 0, 0, 1] @ replicate 16 0"

definition toy_state :: dp_state where
  "toy_state = (dp_new None [] None [])\<lparr>st_tunnels :=
     [(9, \<lparr>te_tun = toy_tunnel, te_addr = V4 1 2, te_peer_node = replicate 32 8, te_tcp = tcp_server_new\<rparr>)]\<rparr>"

lemma STUN_INDEX_eq: "STUN_INDEX = 0x42A41221"
  by (simp add: STUN_INDEX_def MAGIC_COOKIE_def byte_simps from_le_bytes.simps to_be_bytes_32)

theorem denied_packets_dropped_witness:
  "\<exists>st. handle_packet toy_node toy_rand [] toy_state 0
     (snd (encrypt toy_crypto (toy_tunnel\<lparr>tun_their_index := 9\<rparr>) denied_inner)) (V4 3 4) = Some (st, [])"
proof -
  let ?t = "toy_tunnel\<lparr>tun_their_index := 9\<rparr>"
  obtain t' w where e: "encrypt toy_crypto ?t denied_inner = (t', w)" by fastforce
  have "pad_loop denied_inner = denied_inner" by (simp add: pad_loop_eq denied_inner_def)
  then have d: "decrypt toy_crypto toy_tunnel w = Some (Inr denied_inner)"
    using decrypt_encrypt [OF toy_crypto_ok e, of toy_tunnel] by (simp add: toy_tunnel_def)
  have "src_allowed (Some [(0x64400000, 0xffc00000)]) denied_inner = Some False"
  proof -
    have "sub denied_inner 12 16 = [10, 0, 0, 1]" by (simp add: denied_inner_def numeral_eq_Suc)
    moreover have "denied_inner ! 0 = 0x45" "length denied_inner = 32" by (simp_all add: denied_inner_def)
    ultimately show ?thesis by (simp add: src_allowed_eq cidr_match_def from_be_bytes_def from_le_bytes.simps)
  qed
  then show ?thesis
    using denied_packets_dropped [of w 9 toy_state _ toy_node denied_inner toy_rand "[]" 0 "V4 3 4"]
      encrypt_is_transport [OF e] e d
    by (simp add: toy_state_def toy_node_def STUN_INDEX_eq toy_tunnel_def)
qed

subsection \<open>Unauthenticated packets\<close>

definition authentic :: "node_cfg \<Rightarrow> packet_rand \<Rightarrow> dp_state \<Rightarrow> bytes \<Rightarrow> bool" where
  "authentic cf rn st pkt \<longleftrightarrow>
     (\<exists>msg. disco_open (cf_box cf) (id_disco_priv (cf_id cf)) pkt = Some (Inr msg)) \<or>
     (\<exists>r. consume_initiation (cf_wg cf) (id_node_priv (cf_id cf)) (id_node_pub (cf_id cf)) pkt (rn_index rn) (rn_eph rn) = Some (Inr r)) \<or>
     (\<exists>kp \<in> set (st_pending st). \<exists>t. consume_response (cf_wg cf) (pn_hs (snd kp)) pkt = Some (Inr t)) \<or>
     (\<exists>ie \<in> set (st_tunnels st). \<exists>inner. decrypt (cf_wg cf) (te_tun (snd ie)) pkt = Some (Inr inner))"

lemma forged_response:
  assumes "dp_inv st" and "\<not> authentic cf rn st pkt" and "handle_wg_response cf st pkt src = Some (st', out)"
  shows "out = [] \<and> (st' = st \<or> (\<exists>k p. map_of (st_pending st) k = Some p \<and> 12 \<le> length pkt \<and>
    pn_our_index p = from_le_bytes (sub pkt 8 12) \<and> st' = st\<lparr>st_pending := AList.delete k (st_pending st)\<rparr>))"
proof (cases "length pkt < 12")
  case False
  let ?i = "from_le_bytes [pkt ! 8, pkt ! 9, pkt ! 10, pkt ! 11] :: u32"
  have s: "sub pkt 8 12 = [pkt ! 8, pkt ! 9, pkt ! 10, pkt ! 11]" using False by (simp add: sub_4_eq)
  show ?thesis
  proof (cases "List.find (\<lambda>(k, p). pn_our_index p = ?i) (st_pending st)")
    case None
    then show ?thesis using assms(3) False by (simp add: handle_wg_response_def rust_simps)
  next
    case (Some kp)
    obtain k p where kp: "kp = (k, p)" by fastforce
    have p: "(k, p) \<in> set (st_pending st)" "pn_our_index p = ?i" using find_SomeD [OF Some] kp by auto
    then have m: "map_of (st_pending st) k = Some p" using assms(1) by (simp add: dp_inv_def)
    obtain r where r: "consume_response (cf_wg cf) (pn_hs p) pkt = Some r" using consume_response_total by blast
    then obtain err where "r = Inl err" using assms(2) p(1) by (cases r) (force simp: authentic_def)+
    then show ?thesis using assms(3) False Some kp m r p(2) s by (auto simp: handle_wg_response_def rust_simps)
  qed
qed (use assms(3) in \<open>simp add: handle_wg_response_def\<close>)

text \<open>
  C5. A packet that proves no key has no effect: if it is not a disco message sealed to us,
  not an initiation that authenticates its sender, not the response to a pending handshake and
  not a transport packet of one of our tunnels, then nothing is sent, and tunnels, confirmed
  paths and all services are untouched. The one thing it can do is cancel a pending
  handshake, if it names its 32-bit index: \<open>handle_wg_response\<close> removes the handshake before
  it verifies the response.
\<close>

theorem forged_packets_harmless:
  assumes "dp_inv st" and "\<not> authentic cf rn st pkt"
    and "handle_packet cf rn targets st tick pkt src = Some (st', out)"
  shows "out = [] \<and> (st' = st \<or> (\<exists>k p. map_of (st_pending st) k = Some p \<and> 12 \<le> length pkt \<and>
    pn_our_index p = from_le_bytes (sub pkt 8 12) \<and> st' = st\<lparr>st_pending := AList.delete k (st_pending st)\<rparr>))"
proof -
  have disco: "handle_disco cf rn targets st tick pkt src = Some (st, [])"
    using assms(2) by (auto simp: handle_disco_def authentic_def disco_open_eq split: option.splits sum.splits)
  have init: "st' = st \<and> out = []" if h: "handle_wg_init cf rn st pkt src = Some (st', out)"
  proof -
    obtain r where r: "consume_initiation (cf_wg cf) (id_node_priv (cf_id cf)) (id_node_pub (cf_id cf)) pkt
        (rn_index rn) (rn_eph rn) = Some r"
      using h by (auto simp: handle_wg_init_def Let_def bind_eq_Some_conv)
    then obtain err where "r = Inl err" using assms(2) by (cases r) (auto simp: authentic_def)
    then show ?thesis using h r by (simp add: handle_wg_init_def Let_def)
  qed
  have "\<exists>err. decrypt (cf_wg cf) (te_tun e) pkt = Some (Inl err)" if m: "map_of (st_tunnels st) i = Some e" for i e
  proof -
    obtain r where r: "decrypt (cf_wg cf) (te_tun e) pkt = Some r" by (simp add: decrypt_eq)
    then show ?thesis using assms(2) map_of_SomeD [OF m] by (cases r) (force simp: authentic_def)+
  qed
  then have transport: "handle_wg_transport cf rn st pkt src = Some (st, [])"
    by (fastforce simp: handle_wg_transport_def rust_simps Let_def split: option.split)
  show ?thesis using assms(3) disco init transport forged_response [OF assms(1,2)]
    by (auto simp: handle_packet_def is_disco_eq is_stun_eq split: list.splits if_splits)
qed

theorem forged_packets_harmless_witness:
  "\<exists>st' out. handle_packet toy_node toy_rand [] (dp_new None [] None []) 0 [9, 9] (V4 1 2) = Some (st', out) \<and> out = []"
proof -
  have "\<not> authentic toy_node toy_rand (dp_new None [] None []) [9, 9]"
    by (simp add: authentic_def disco_open_eq consume_initiation_early dp_new_def)
  moreover have "dp_inv (dp_new None [] None [])" by (simp add: dp_new_def dp_inv_def)
  moreover have "handle_packet toy_node toy_rand [] (dp_new None [] None []) 0 [9, 9] (V4 1 2) = Some (dp_new None [] None [], [])"
    by (simp add: handle_packet_def is_disco_eq is_stun_eq)
  ultimately show ?thesis using forged_packets_harmless by blast
qed

end
