(* ===== verification/Dataplane_Views.thy ===== *)
theory Dataplane_Views
  imports Dataplane_System
begin

text \<open>
  What an event of the data plane may do to the waiting handshakes and to the tunnels' receive
  keys (\<open>ix_step\<close>): the common part of the arguments about the dual-core build
  (\<open>Dual_Core\<close>) and about unanswered handshakes (\<open>Retries\<close>).
\<close>

subsection \<open>Indices and receive keys\<close>

text \<open>
  What the dual-core argument needs of a state: under which index each handshake waits, and
  the receive key of each tunnel. A packet adds a handshake under the random index, or a
  tunnel under it, or turns a waiting handshake into a tunnel; everything else only removes.
\<close>

definition pview :: "dp_state \<Rightarrow> bytes \<Rightarrow> u32 option" where
  "pview st k = map_option pn_our_index (map_of (st_pending st) k)"

definition tview :: "dp_state \<Rightarrow> u32 \<Rightarrow> bytes option" where
  "tview st i = map_option (\<lambda>e. tun_recv_key (te_tun e)) (map_of (st_tunnels st) i)"

inductive ix_step :: "u32 \<Rightarrow> dp_state \<Rightarrow> dp_state \<Rightarrow> bool" for r where
  shrink: "pview st' \<subseteq>\<^sub>m pview st \<Longrightarrow> tview st' \<subseteq>\<^sub>m tview st \<Longrightarrow> ix_step r st st'"
| start: "pview st' = (pview st)(k \<mapsto> r) \<Longrightarrow> tview st' = tview st \<Longrightarrow> ix_step r st st'"
| respond: "pview st' = pview st \<Longrightarrow> T \<subseteq>\<^sub>m tview st \<Longrightarrow> tview st' = T(r \<mapsto> key) \<Longrightarrow> ix_step r st st'"
| complete: "pview st k = Some i \<Longrightarrow> pview st' = (pview st)(k := None) \<Longrightarrow> T \<subseteq>\<^sub>m tview st \<Longrightarrow>
    tview st' = T(i \<mapsto> key) \<Longrightarrow> ix_step r st st'"

definition steady :: "dp_state \<Rightarrow> (dp_state \<times> 'o) panics \<Rightarrow> bool" where
  "steady st res \<longleftrightarrow> (\<forall>st' out. res = Some (st', out) \<longrightarrow> st_pending st' = st_pending st \<and> tview st' = tview st)"

lemma steady_Some [simp]: "steady st (Some (st', out)) \<longleftrightarrow> st_pending st' = st_pending st \<and> tview st' = tview st"
  by (auto simp: steady_def)

lemma steady_bind:
  assumes "steady st res" and "\<And>st' x. st_pending st' = st_pending st \<Longrightarrow> tview st' = tview st \<Longrightarrow> steady st (f (st', x))"
  shows "steady st (Option.bind res f)"
  unfolding steady_def
proof (intro allI impI)
  fix st' out assume "Option.bind res f = Some (st', out)"
  then obtain s x where "res = Some (s, x)" "f (s, x) = Some (st', out)" by (auto simp: bind_eq_Some_conv)
  with assms show "st_pending st' = st_pending st \<and> tview st' = tview st" unfolding steady_def by blast
qed

lemma steady_from: "st_pending st' = st_pending st \<Longrightarrow> tview st' = tview st \<Longrightarrow> steady st' res \<Longrightarrow> steady st res"
  unfolding steady_def by metis

lemma view_fields [simp]:
  "pview (st\<lparr>st_confirmed := c\<rparr>) = pview st" "tview (st\<lparr>st_confirmed := c\<rparr>) = tview st"
  "pview (st\<lparr>st_proxy := q\<rparr>) = pview st" "tview (st\<lparr>st_proxy := q\<rparr>) = tview st"
  "pview (st\<lparr>st_outbound := ob\<rparr>) = pview st" "tview (st\<lparr>st_outbound := ob\<rparr>) = tview st"
  "pview (st\<lparr>st_mdns_reinject := m\<rparr>) = pview st" "tview (st\<lparr>st_mdns_reinject := m\<rparr>) = tview st"
  "pview (st\<lparr>st_tunnels := ts\<rparr>) = pview st" "tview (st\<lparr>st_pending := ps\<rparr>) = tview st"
  by (simp_all add: pview_def tview_def fun_eq_iff)

lemma tview_entry:
  "st_tunnels st' = AList.update i e' (st_tunnels st) \<Longrightarrow> map_of (st_tunnels st) i = Some e \<Longrightarrow>
   tun_recv_key (te_tun e') = tun_recv_key (te_tun e) \<Longrightarrow> tview st' = tview st"
  by (auto simp: tview_def fun_eq_iff update_conv')

lemma send_inner_views:
  "st_pending (fst (send_inner cf st i src ps)) = st_pending st \<and> tview (fst (send_inner cf st i src ps)) = tview st"
proof (cases "map_of (st_tunnels st) i")
  case (Some e)
  obtain t' ws where t: "encrypt_all (cf_wg cf) (te_tun e) ps = (t', ws)" by fastforce
  with Some encrypt_all_counters(3) [OF t] show ?thesis
    by (auto simp: send_inner_def intro!: tview_entry)
qed (simp add: send_inner_def)

lemma steady_send: "st_pending st' = st_pending st \<Longrightarrow> tview st' = tview st \<Longrightarrow> steady st (Some (send_inner cf st' i src ps))"
  using send_inner_views by (simp add: steady_def) (metis fst_conv)

lemma outbound_replies_steady: "steady st (outbound_replies cf st i p src)"
  by (auto simp: steady_def outbound_replies_def owns_eq on_inner_eq Let_def split_beta send_inner_views
      split: option.splits if_splits)

lemma serve_inner_steady: "steady st (serve_inner cf rn st i p src)"
proof -
  have e: "tview (st\<lparr>st_proxy := q, st_tunnels := AList.update i (x\<lparr>te_tcp := y\<rparr>) (st_tunnels st)\<rparr>) = tview st"
      "tview (st\<lparr>st_tunnels := AList.update i (x\<lparr>te_tcp := y\<rparr>) (st_tunnels st)\<rparr>) = tview st"
    if "map_of (st_tunnels st) i = Some x" for x y q
    using that by (auto intro: tview_entry)
  show ?thesis
    by (auto simp: serve_inner_def echo_reply_any_eq proxy_handle_eq handle_eq Let_def e update_triv
        intro!: steady_send split: option.split prod.split)
qed

lemma handle_decrypted_steady: "steady st (handle_decrypted cf rn st i p src)"
proof (cases "map_of (st_tunnels st) i")
  case None
  then show ?thesis by (simp add: handle_decrypted_def)
next
  case (Some e)
  define st1 where "st1 = st\<lparr>st_tunnels := AList.update i (e\<lparr>te_addr := src\<rparr>) (st_tunnels st)\<rparr>"
  have 1: "st_pending st1 = st_pending st" "tview st1 = tview st"
    using Some by (auto simp: st1_def intro: tview_entry)
  have "steady st (outbound_replies cf st1 i p src)" "steady st (Some (st1, [], False))"
    using outbound_replies_steady by (rule steady_from [OF 1]) (simp add: 1)
  moreover have "steady st (serve_inner cf rn st2 i p src)" if "st_pending st2 = st_pending st" "tview st2 = tview st" for st2
    using serve_inner_steady by (rule steady_from [OF that])
  ultimately have 2: "steady st (do {
      (st, out, handled) \<leftarrow> (if b then outbound_replies cf st1 i p src else Some (st1, [], False));
      if handled then Some (st, out) else do {
      (st, out') \<leftarrow> serve_inner cf rn st i p src; Some (st, out @ out') }})" for b
    by (intro steady_bind) (auto intro!: steady_bind)
  show ?thesis
    using Some 1 2 [of True] 2 [of False] by (simp add: handle_decrypted_def src_allowed_eq udp_payload_to_port_eq Let_def flip: st1_def)
qed

lemma pview_cong: "st_pending st' = st_pending st \<Longrightarrow> pview st' = pview st"
  by (simp add: pview_def fun_eq_iff)

lemma ix_step_steady: "steady st res \<Longrightarrow> res = Some (st', out) \<Longrightarrow> ix_step r st st'"
  unfolding steady_def by (metis ix_step.shrink map_le_refl pview_cong)

lemma ix_step_refl [simp]: "ix_step r st st"
  by (rule ix_step.shrink) simp_all

lemma insert_tunnel_views:
  assumes "distinct (map fst (st_tunnels st))"
  shows "pview (insert_tunnel st i t addr node) = pview st"
    and "\<exists>T. T \<subseteq>\<^sub>m tview st \<and> tview (insert_tunnel st i t addr node) = T(i \<mapsto> tun_recv_key t)"
proof -
  let ?rest = "st\<lparr>st_tunnels := filter (\<lambda>(k, e). te_addr e \<noteq> addr) (st_tunnels st)\<rparr>"
  have "tview ?rest \<subseteq>\<^sub>m tview st"
    using map_of_filter_distinct [OF assms] by (fastforce simp: map_le_def tview_def dom_def)
  moreover have "tview (insert_tunnel st i t addr node) = (tview ?rest)(i \<mapsto> tun_recv_key t)"
    by (auto simp: tview_def insert_tunnel_def update_conv' fun_eq_iff)
  ultimately show "\<exists>T. T \<subseteq>\<^sub>m tview st \<and> tview (insert_tunnel st i t addr node) = T(i \<mapsto> tun_recv_key t)" by blast
qed (simp add: insert_tunnel_def)

lemma maybe_start_handshake_ix:
  assumes "maybe_start_handshake cf rn targets st tick dk src = Some (st', out)"
  shows "ix_step (rn_index rn) st st'"
proof -
  have "ix_step (rn_index rn) st (st\<lparr>st_pending := AList.update k
      \<lparr>pn_addr = a, pn_init = m, pn_hs = h, pn_our_index = rn_index rn, pn_sent_tick = t, pn_retries = x\<rparr> (st_pending st)\<rparr>)"
    for k a m h t x
    by (rule ix_step.start [of _ _ k]) (simp_all add: pview_def update_conv' fun_eq_iff)
  with assms show ?thesis
    by (auto simp: maybe_start_handshake_def Let_def bind_eq_Some_conv split: option.splits if_splits)
qed

text \<open>A response changes nothing, or ends the handshake it names, with a tunnel if it verifies.\<close>

lemma handle_wg_response_cases:
  assumes h: "handle_wg_response cf st pkt src = Some (st', out)"
  obtains "st' = st"
  | k p where "map_of (st_pending st) k = Some p" "st' = st\<lparr>st_pending := AList.delete k (st_pending st)\<rparr>"
  | k p t where "map_of (st_pending st) k = Some p"
      "st' = insert_tunnel (st\<lparr>st_pending := AList.delete k (st_pending st)\<rparr>) (pn_our_index p) t src k"
proof (cases "st' = st")
  case False
  then obtain k p x where p: "map_of (st_pending st) k = Some p"
      "consume_response (cf_wg cf) (pn_hs p) pkt = Some x"
      "(case x of Inl err \<Rightarrow> Some (st\<lparr>st_pending := AList.delete k (st_pending st)\<rparr>, [])
         | Inr tun \<Rightarrow> (case keepalive (cf_wg cf) tun of (tun, ka) \<Rightarrow>
             Some (insert_tunnel (st\<lparr>st_pending := AList.delete k (st_pending st)\<rparr>) (pn_our_index p) tun src k, [(ka, src)])))
       = Some (st', out)"
    using h by (auto simp: handle_wg_response_def rust_simps Let_def bind_eq_Some_conv split: option.splits if_splits)
  then show thesis using that(2,3) [OF p(1)] by (cases x) (auto simp: split_beta)
qed

lemma handle_wg_response_ix:
  assumes inv: "dp_inv st" and h: "handle_wg_response cf st pkt src = Some (st', out)"
  shows "ix_step r st st'"
proof -
  have v: "pview (st\<lparr>st_pending := AList.delete k (st_pending st)\<rparr>) = (pview st)(k := None)" for k
    by (auto simp: pview_def delete_conv' fun_eq_iff)
  from h show ?thesis
  proof (cases rule: handle_wg_response_cases)
    case (2 k p)
    then show ?thesis using v by (auto intro!: ix_step.shrink simp: map_le_def)
  next
    case (3 k p t)
    have "distinct (map fst (st_tunnels (st\<lparr>st_pending := AList.delete k (st_pending st)\<rparr>)))"
      using inv by (simp add: dp_inv_def)
    from insert_tunnel_views [OF this] v [of k] 3(1) show ?thesis
      unfolding 3(2) by (metis ix_step.complete option.simps(9) pview_def view_fields(10))
  qed simp
qed

lemma handle_packet_ix:
  assumes inv: "dp_inv st" and h: "handle_packet cf rn targets st tick pkt src = Some (st', out)"
  shows "ix_step (rn_index rn) st st'"
proof -
  have d: "distinct (map fst (st_tunnels st))" using inv by (simp add: dp_inv_def)
  have c: "ix_step r st st'" if "ix_step r (st\<lparr>st_confirmed := c\<rparr>) st'" for r c st'
    using that by cases (auto intro: ix_step.intros)
  have disco: "ix_step (rn_index rn) st st'" if "handle_disco cf rn targets st tick pkt src = Some (st', out)" for st' out
    using that by (auto simp: handle_disco_def disco_open_eq pong_plaintext_def addr_to_bytes_eq
        dest!: maybe_start_handshake_ix intro: c split: sum.splits option.splits if_splits)
  have init: "ix_step (rn_index rn) st st'" if i: "handle_wg_init cf rn st pkt src = Some (st', out)" for st' out
  proof (cases "st' = st")
    case False
    obtain r where r: "consume_initiation (cf_wg cf) (id_node_priv (cf_id cf)) (id_node_pub (cf_id cf)) pkt
        (rn_index rn) (rn_eph rn) = Some r"
      using i by (auto simp: handle_wg_init_def Let_def bind_eq_Some_conv)
    with False obtain t node where "st' = insert_tunnel st (rn_index rn) t src node"
      using i by (cases r) (auto simp: handle_wg_init_def Let_def)
    then show ?thesis using insert_tunnel_views [OF d] by (metis ix_step.respond)
  qed simp
  have transport: "ix_step r st st'" if "handle_wg_transport cf rn st pkt src = Some (st', out)" for st' out r
    using that
    by (auto simp: handle_wg_transport_def rust_simps Let_def decrypt_eq
        intro: ix_step_steady [OF handle_decrypted_steady]
        split: option.splits if_splits)
  show ?thesis using h
    by (auto simp: handle_packet_def is_disco_eq is_stun_eq intro: disco init transport handle_wg_response_ix [OF inv]
        split: list.splits if_splits)
qed

lemma retry_pending_views:
  assumes "distinct (map fst (st_pending st))"
  shows "pview (fst (retry_pending tick st)) \<subseteq>\<^sub>m pview st" and "tview (fst (retry_pending tick st)) = tview st"
proof -
  have "pn_our_index q = pn_our_index p" if "retry_one ts t p = Some q" for ts t p q
    using that by (auto simp: retry_one_def split: if_splits)
  then show "pview (fst (retry_pending tick st)) \<subseteq>\<^sub>m pview st"
    by (fastforce simp: map_le_def pview_def map_of_retry_pending [OF assms] bind_eq_Some_conv)
  show "tview (fst (retry_pending tick st)) = tview st"
    by (simp add: tview_def retry_pending_def split_beta Let_def fun_eq_iff)
qed

lemma encrypt_recv_key: "tun_recv_key (fst (encrypt C t p)) = tun_recv_key t"
  by (simp add: encrypt_def Let_def)

lemma keepalive_all_views:
  "st_pending (fst (keepalive_all cf st)) = st_pending st" "tview (fst (keepalive_all cf st)) = tview st"
  by (auto simp: keepalive_all_def tview_def map_of_map keepalive_def encrypt_recv_key
      option.map_comp comp_def fun_eq_iff)

lemma outbound_tick_steady:
  assumes "dp_inv st"
  shows "steady st (outbound_tick cf pr st)"
proof (cases "\<exists>ob i e. st_outbound st = Some ob \<and>
    List.find (\<lambda>(i, e). te_peer_node e = oc_target_node (ob_cfg ob)) (st_tunnels st) = Some (i, e)")
  case False
  then show ?thesis by (auto simp: outbound_tick_def split: option.split)
next
  case True
  then obtain ob i e where ob: "st_outbound st = Some ob"
    and f: "List.find (\<lambda>(i, e). te_peer_node e = oc_target_node (ob_cfg ob)) (st_tunnels st) = Some (i, e)" by blast
  have m: "map_of (st_tunnels st) i = Some e" using find_SomeD [OF f] assms by (simp add: dp_inv_def)
  have "tview (st\<lparr>st_tunnels := AList.update i (e\<lparr>te_tun := t\<rparr>) (st_tunnels st), st_outbound := o'\<rparr>) = tview st"
    if "tun_recv_key t = tun_recv_key (te_tun e)" for t o'
    using m that by (auto intro: tview_entry)
  then show ?thesis using ob f
    by (auto simp: outbound_tick_def icmp_request_layout cl_open_def cl_segment_eq split_beta Let_def encrypt_recv_key)
qed

lemma mdns_drain_steady: "distinct (map fst (st_tunnels st)) \<Longrightarrow> steady st (mdns_drain cf a b node st queue)"
proof (induction queue arbitrary: st)
  case (Cons payload queue)
  show ?case
  proof (cases "List.find (\<lambda>(i, e). te_peer_node e = node) (st_tunnels st)")
    case None
    then show ?thesis using Cons by simp
  next
    case (Some ie)
    obtain i e where ie: "ie = (i, e)" by fastforce
    obtain inner where u: "udp_datagram a b FWD_PORT FWD_PORT payload = Some inner"
      by (simp add: udp_datagram_layout Let_def)
    define st1 where "st1 = st\<lparr>st_tunnels := AList.update i (e\<lparr>te_tun := fst (encrypt (cf_wg cf) (te_tun e) inner)\<rparr>) (st_tunnels st)\<rparr>"
    have m: "map_of (st_tunnels st) i = Some e" using find_SomeD [OF Some] ie Cons.prems by simp
    have v: "st_pending st1 = st_pending st" "tview st1 = tview st" and d: "distinct (map fst (st_tunnels st1))"
      using m Cons.prems by (auto simp: st1_def encrypt_recv_key distinct_update intro: tview_entry)
    have "steady st (mdns_drain cf a b node st1 queue)"
      using Cons.IH [OF d] by (rule steady_from [OF v])
    then show ?thesis using Some ie u
      by (auto simp: split_beta st1_def [symmetric] intro!: steady_bind)
  qed
qed simp

lemma house_effect:
  assumes ok: "wg_crypto_lengths (cf_wg (lc_node rc))" and inv: "dp_inv (w_st w)"
    and h: "house rc w pr queue mdns = Some (w', out)"
  shows "st_pending (w_st w') = st_pending (fst (retry_pending (w_loop_tick w) (w_st w)))"
    and "tview (w_st w') = tview (w_st w)"
proof -
  let ?st = "w_st w" and ?t = "w_loop_tick w" and ?cf = "lc_node rc"
  define st1 where "st1 = fst (retry_pending ?t ?st)"
  define st2 where "st2 = fst (keepalive_all ?cf st1)"
  have i1: "dp_inv st1" using retry_pending_fine [OF inv, of ?t] unfolding st1_def
    by (cases "retry_pending ?t ?st") simp
  have i2: "dp_inv st2" using keepalive_all_fine [OF ok i1] unfolding st2_def
    by (cases "keepalive_all ?cf st1") simp
  have v1: "tview st1 = tview ?st"
    using inv retry_pending_views by (simp add: st1_def dp_inv_def)
  have s1: "steady st1 (Some (st2, ()))" by (simp add: st2_def keepalive_all_views)
  have s2: "steady st1 (outbound_tick ?cf pr st2)"
    using s1 outbound_tick_steady [OF i2] by (auto intro: steady_from)
  obtain st3 ts lp o3 where p: "run_periodic ?cf pr ?st (w_targets w) queue ?t (w_lp w) (lc_stun_addr rc) = Some (st3, ts, lp, o3)"
      "dp_inv st3"
    using run_periodic_fine [OF ok inv] by blast
  have "steady st1 (Some (st3, ()))"
    using p(1) s1 s2
    by (auto simp: run_periodic_def Let_def split_beta steady_def bind_eq_Some_conv simp flip: st1_def st2_def
        split: if_splits)
  then have v3: "st_pending st3 = st_pending st1" "tview st3 = tview st1" by simp_all
  have d3: "distinct (map fst (st_tunnels st3))" using p(2) by (simp add: dp_inv_def)
  have "w_st w' = st3 \<or> (\<exists>o4. mdns_drain ?cf (lc_our_ip rc) (lc_partner_ip rc) (lc_partner_node rc) st3 mdns = Some (w_st w', o4))"
    using h p(1) by (auto simp: house_def bind_eq_Some_conv split: if_splits)
  then have "st_pending (w_st w') = st_pending st1 \<and> tview (w_st w') = tview st1"
    using v3 mdns_drain_steady [OF d3] unfolding steady_def by metis
  then show "st_pending (w_st w') = st_pending (fst (retry_pending ?t ?st))" and "tview (w_st w') = tview ?st"
    using v1 by (simp_all add: st1_def)
qed

lemma house_ix:
  assumes "wg_crypto_lengths (cf_wg (lc_node rc))" and inv: "dp_inv (w_st w)"
    and "house rc w pr queue mdns = Some (w', out)"
  shows "pview (w_st w') \<subseteq>\<^sub>m pview (w_st w) \<and> tview (w_st w') \<subseteq>\<^sub>m tview (w_st w)"
proof -
  have "distinct (map fst (st_pending (w_st w)))" using inv by (simp add: dp_inv_def)
  then show ?thesis
    using retry_pending_views(1) house_effect(2) [OF assms] pview_cong [OF house_effect(1) [OF assms]] by simp
qed

lemma dp_handle_shrink:
  assumes "identity_ok (lc_node rc)" and "dp_inv (w_st w)" and "dp_handle rc w ev = Some (w', out)"
    and "\<And>rn pkt src. ev \<noteq> Packet rn pkt src"
  shows "pview (w_st w') \<subseteq>\<^sub>m pview (w_st w) \<and> tview (w_st w') \<subseteq>\<^sub>m tview (w_st w)"
proof (cases ev)
  case (House pr queue mdns)
  then show ?thesis using assms house_ix [of rc w pr queue mdns w' out] by (simp add: identity_ok_def)
next
  case (Rehash ps ts)
  have "pview ((w_st w)\<lparr>st_pending := ps, st_tunnels := ts\<rparr>) = pview (w_st w)"
      "tview ((w_st w)\<lparr>st_pending := ps, st_tunnels := ts\<rparr>) = tview (w_st w)"
    if "same_entries ps (st_pending (w_st w))" "same_entries ts (st_tunnels (w_st w))"
    using that assms(2) by (simp_all add: pview_def tview_def fun_eq_iff same_entries_map_of dp_inv_def)
  then show ?thesis using assms(3) Rehash by (auto split: if_splits)
qed (use assms(4) in blast)

end
