(* ===== verification/Dual_Core.thy ===== *)
theory Dual_Core
  imports Dataplane_Views "HOL-Library.Multiset"
begin

text \<open>
  The dual-core build of \<^verbatim>\<open>src/dataplane.rs\<close> (\<open>process_packet\<close>, \<open>run_dualcore\<close>): two threads
  receive packets. A transport packet is handled in two locked sections, one that copies the
  tunnel's receive key and one that handles the plaintext, with the decryption between them
  under no lock; everything else is one locked section. The step relation \<open>dual_step\<close>
  interleaves the sections of the two threads freely; its labels say which packet a thread
  received, which section it went through and what it drew. Shown: as long as freshly drawn indices
  are not in use, every run has the same state and sends the same datagrams as the
  single-threaded events that its labels spell, in the order in which the sections finished; no
  received packet is lost or handled twice; and no thread is ever stuck.
\<close>

subsection \<open>The two threads\<close>

text \<open>The first locked section of \<open>process_packet\<close>, and what follows once the key is there.\<close>

definition fetch_key :: "dp_state \<Rightarrow> bytes \<Rightarrow> (u32 \<times> bytes) option panics" where
  "fetch_key st pkt = do {
     p4 \<leftarrow> idx pkt 4; p5 \<leftarrow> idx pkt 5; p6 \<leftarrow> idx pkt 6; p7 \<leftarrow> idx pkt 7;
     let i = from_le_bytes [p4, p5, p6, p7];
     Some (map_option (\<lambda>e. (i, tun_recv_key (te_tun e))) (map_of (st_tunnels st) i))
   }"

definition finish_packet ::
  "node_cfg \<Rightarrow> packet_rand \<Rightarrow> dp_state \<Rightarrow> u32 \<Rightarrow> bytes \<Rightarrow> bytes \<Rightarrow> socket_addr \<Rightarrow> (dp_state \<times> datagram list) panics" where
  "finish_packet cf rn st i key pkt src = do {
     r \<leftarrow> decrypt_transport (cf_wg cf) key pkt;
     case r of
       None \<Rightarrow> Some (st, [])
     | Some inner \<Rightarrow> handle_decrypted cf rn st i inner src
   }"

definition process_packet ::
  "node_cfg \<Rightarrow> packet_rand \<Rightarrow> target list \<Rightarrow> dp_state \<Rightarrow> u32 \<Rightarrow> bytes \<Rightarrow> socket_addr \<Rightarrow>
   (dp_state \<times> datagram list) panics" where
  "process_packet cf rn targets st tick pkt src =
    (if is_transport pkt then do {
       key \<leftarrow> fetch_key st pkt;
       case key of
         None \<Rightarrow> Some (st, [])
       | Some (i, key) \<Rightarrow> finish_packet cf rn st i key pkt src }
     else handle_packet cf rn targets st tick pkt src)"

text \<open>A packet between its two locked sections, and the state of the two threads.\<close>

record flight =
  fl_pkt :: bytes
  fl_src :: socket_addr
  fl_index :: u32
  fl_key :: bytes

record dual =
  du_world :: dp_world
  du_flight :: "nat \<Rightarrow> flight option"

text \<open>
  The label says what the section does: the packet received, by which thread, and what it draws
  from the random source (\<open>DUnknown\<close> uses nothing of it). Thread \<open>1\<close> is the one that also does the
  housekeeping; a thread works on one packet at a time.
\<close>

datatype dual_label =
    DHouse periodic_rand "target list" "bytes list"
  | DRehash "(bytes \<times> pending) list" "(u32 \<times> tunnel_entry) list"
  | DOther nat packet_rand bytes socket_addr
  | DUnknown nat packet_rand bytes socket_addr
  | DFetch nat bytes socket_addr
  | DFinish nat packet_rand

inductive dual_step :: "loop_cfg \<Rightarrow> dual \<Rightarrow> dual_label \<Rightarrow> datagram list \<Rightarrow> dual \<Rightarrow> bool" for rc where
  housekeeping: "du_flight d 1 = None \<Longrightarrow> dp_handle rc (du_world d) (House pr queue mdns) = Some (w, out) \<Longrightarrow>
    dual_step rc d (DHouse pr queue mdns) out (d\<lparr>du_world := w\<rparr>)"
| rehash: "dp_handle rc (du_world d) (Rehash ps ts) = Some (w, out) \<Longrightarrow>
    dual_step rc d (DRehash ps ts) out (d\<lparr>du_world := w\<rparr>)"
| other: "t < 2 \<Longrightarrow> du_flight d t = None \<Longrightarrow> \<not> is_transport pkt \<Longrightarrow>
    handle_packet (lc_node rc) rn (w_targets (du_world d)) (w_st (du_world d)) (w_tick (du_world d)) pkt src = Some (st, out) \<Longrightarrow>
    dual_step rc d (DOther t rn pkt src) out (d\<lparr>du_world := (du_world d)\<lparr>w_st := st\<rparr>\<rparr>)"
| unknown: "t < 2 \<Longrightarrow> du_flight d t = None \<Longrightarrow> is_transport pkt \<Longrightarrow>
    fetch_key (w_st (du_world d)) pkt = Some None \<Longrightarrow> dual_step rc d (DUnknown t rn pkt src) [] d"
| fetch: "t < 2 \<Longrightarrow> du_flight d t = None \<Longrightarrow> is_transport pkt \<Longrightarrow>
    fetch_key (w_st (du_world d)) pkt = Some (Some (i, key)) \<Longrightarrow>
    dual_step rc d (DFetch t pkt src) [] (d\<lparr>du_flight := (du_flight d)(t \<mapsto> \<lparr>fl_pkt = pkt, fl_src = src, fl_index = i, fl_key = key\<rparr>)\<rparr>)"
| finish: "t < 2 \<Longrightarrow> du_flight d t = Some f \<Longrightarrow>
    finish_packet (lc_node rc) rn (w_st (du_world d)) (fl_index f) (fl_key f) (fl_pkt f) (fl_src f) = Some (st, out) \<Longrightarrow>
    dual_step rc d (DFinish t rn) out
      (d\<lparr>du_world := (du_world d)\<lparr>w_st := st\<rparr>, du_flight := (du_flight d)(t := None)\<rparr>)"

definition index_fresh :: "dual \<Rightarrow> u32 \<Rightarrow> bool" where
  "index_fresh d i \<longleftrightarrow> i \<noteq> STUN_INDEX \<and> map_of (st_tunnels (w_st (du_world d))) i = None \<and>
     (\<forall>kp \<in> set (st_pending (w_st (du_world d))). pn_our_index (snd kp) \<noteq> i) \<and>
     (\<forall>f \<in> ran (du_flight d). fl_index f \<noteq> i)"

fun draws_fresh :: "dual \<Rightarrow> dual_label \<Rightarrow> bool" where
  "draws_fresh d (DOther t rn pkt src) = index_fresh d (rn_index rn)"
| "draws_fresh d (DFinish t rn) = index_fresh d (rn_index rn)"
| "draws_fresh d l = True"

inductive dual_run :: "loop_cfg \<Rightarrow> dual \<Rightarrow> dual_label list \<Rightarrow> datagram list \<Rightarrow> dual \<Rightarrow> bool" for rc where
  idle: "dual_run rc d [] [] d"
| step: "dual_run rc d ls out d' \<Longrightarrow> dual_step rc d' l out' d'' \<Longrightarrow> draws_fresh d' l \<Longrightarrow>
    dual_run rc d (ls @ [l]) (out @ out') d''"

text \<open>
  The single-threaded events that a sequence of labels spells, read off the labels alone: a packet
  that takes two sections is an event when it finishes, and it is the packet that the thread
  received when it fetched the key.
\<close>

type_synonym holding = "nat \<rightharpoonup> bytes \<times> socket_addr"

fun holds_after :: "holding \<Rightarrow> dual_label \<Rightarrow> holding" where
  "holds_after H (DFetch t pkt src) = H(t \<mapsto> (pkt, src))"
| "holds_after H (DFinish t rn) = H(t := None)"
| "holds_after H l = H"

fun spells_events :: "holding \<Rightarrow> dual_label \<Rightarrow> dp_event list" where
  "spells_events H (DHouse pr queue mdns) = [House pr queue mdns]"
| "spells_events H (DRehash ps ts) = [Rehash ps ts]"
| "spells_events H (DOther t rn pkt src) = [Packet rn pkt src]"
| "spells_events H (DUnknown t rn pkt src) = [Packet rn pkt src]"
| "spells_events H (DFetch t pkt src) = []"
| "spells_events H (DFinish t rn) = (case H t of Some (pkt, src) \<Rightarrow> [Packet rn pkt src] | None \<Rightarrow> [])"

primrec sections :: "holding \<Rightarrow> dual_label list \<Rightarrow> dp_event list" where
  "sections H [] = []"
| "sections H (l # ls) = spells_events H l @ sections (holds_after H l) ls"

text \<open>The packets that the threads received, those that the events handle, and those between two sections.\<close>

fun receives :: "dual_label \<Rightarrow> (bytes \<times> socket_addr) list" where
  "receives (DOther t rn pkt src) = [(pkt, src)]"
| "receives (DUnknown t rn pkt src) = [(pkt, src)]"
| "receives (DFetch t pkt src) = [(pkt, src)]"
| "receives l = []"

fun packet_of :: "dp_event \<Rightarrow> (bytes \<times> socket_addr) option" where
  "packet_of (Packet rn pkt src) = Some (pkt, src)"
| "packet_of ev = None"

definition holding_of :: "dual \<Rightarrow> holding" where
  "holding_of d t = map_option (\<lambda>f. (fl_pkt f, fl_src f)) (du_flight d t)"

lemma sections_append: "sections H (ls @ ms) = sections H ls @ sections (foldl holds_after H ls) ms"
  by (induction ls arbitrary: H) simp_all

subsection \<open>What holds between two sections\<close>

definition flight_pkt :: "flight \<Rightarrow> bool" where
  "flight_pkt f \<longleftrightarrow> is_transport (fl_pkt f) \<and>
     fl_index f = from_le_bytes [fl_pkt f ! 4, fl_pkt f ! 5, fl_pkt f ! 6, fl_pkt f ! 7]"

definition ix_inv :: "(bytes \<Rightarrow> u32 option) \<Rightarrow> (u32 \<Rightarrow> bytes option) \<Rightarrow> (nat \<Rightarrow> flight option) \<Rightarrow> bool" where
  "ix_inv P T F \<longleftrightarrow> (\<forall>k k' i. P k = Some i \<longrightarrow> P k' = Some i \<longrightarrow> k = k') \<and> T STUN_INDEX = None \<and>
     (\<forall>k i. P k = Some i \<longrightarrow> T i = None \<and> i \<noteq> STUN_INDEX \<and> (\<forall>t f. F t = Some f \<longrightarrow> fl_index f \<noteq> i)) \<and>
     (\<forall>t f. F t = Some f \<longrightarrow> flight_pkt f \<and> fl_index f \<noteq> STUN_INDEX \<and> (\<forall>key. T (fl_index f) = Some key \<longrightarrow> key = fl_key f))"

lemma map_le_Some: "m \<subseteq>\<^sub>m m' \<Longrightarrow> m k = Some v \<Longrightarrow> m' k = Some v"
  by (force simp: map_le_def)

lemma map_le_None: "m \<subseteq>\<^sub>m m' \<Longrightarrow> m' k = None \<Longrightarrow> m k = None"
  by (force simp: map_le_def)

lemma ix_inv_shrink:
  assumes "ix_inv P T F" and "P' \<subseteq>\<^sub>m P" and "T' \<subseteq>\<^sub>m T"
  shows "ix_inv P' T' F"
  using assms(1) map_le_Some [OF assms(2)] map_le_None [OF assms(3)] map_le_Some [OF assms(3)]
  unfolding ix_inv_def by blast

definition unused :: "(bytes \<Rightarrow> u32 option) \<Rightarrow> (u32 \<Rightarrow> bytes option) \<Rightarrow> (nat \<Rightarrow> flight option) \<Rightarrow> u32 \<Rightarrow> bool" where
  "unused P T F i \<longleftrightarrow> i \<noteq> STUN_INDEX \<and> T i = None \<and> (\<forall>k. P k \<noteq> Some i) \<and> (\<forall>t f. F t = Some f \<longrightarrow> fl_index f \<noteq> i)"

lemma ix_inv_start: "ix_inv P T F \<Longrightarrow> unused P T F r \<Longrightarrow> ix_inv (P(k \<mapsto> r)) T F"
  unfolding ix_inv_def unused_def by (auto split: if_splits)

lemma ix_inv_respond: "ix_inv P T F \<Longrightarrow> unused P T F r \<Longrightarrow> ix_inv P (T(r \<mapsto> key)) F"
  unfolding ix_inv_def unused_def by (auto split: if_splits)

lemma ix_inv_complete:
  assumes "ix_inv P T F" and "P k = Some i"
  shows "ix_inv (P(k := None)) (T(i \<mapsto> key)) F"
proof -
  have "unused (P(k := None)) T F i" using assms unfolding ix_inv_def unused_def by (auto split: if_splits)
  moreover have "ix_inv (P(k := None)) T F" using assms(1) by (rule ix_inv_shrink) (simp_all add: map_le_def)
  ultimately show ?thesis by (rule ix_inv_respond [rotated])
qed

lemma ix_inv_fetch:
  "ix_inv P T F \<Longrightarrow> flight_pkt f \<Longrightarrow> T (fl_index f) = Some (fl_key f) \<Longrightarrow> ix_inv P T (F(t \<mapsto> f))"
  unfolding ix_inv_def by (auto split: if_splits)

lemma unused_shrink: "unused P T F r \<Longrightarrow> T' \<subseteq>\<^sub>m T \<Longrightarrow> unused P T' F r"
  unfolding unused_def by (blast dest: map_le_None)

lemma ix_inv_step:
  assumes "ix_step r st st'" and inv: "ix_inv (pview st) (tview st) F" and fresh: "unused (pview st) (tview st) F r"
  shows "ix_inv (pview st') (tview st') F"
  using assms(1)
proof cases
  case shrink
  then show ?thesis using inv by (blast intro: ix_inv_shrink)
next
  case (start k)
  then show ?thesis using inv fresh by (simp add: ix_inv_start)
next
  case (respond T key)
  then have "ix_inv (pview st) T F" using inv by (blast intro: ix_inv_shrink map_le_refl)
  then show ?thesis using respond fresh by (simp add: ix_inv_respond unused_shrink)
next
  case (complete k i T key)
  then have "ix_inv (pview st) T F" using inv by (blast intro: ix_inv_shrink map_le_refl)
  then show ?thesis using complete by (simp add: ix_inv_complete)
qed

subsection \<open>Simulation\<close>

definition dual_ok :: "loop_cfg \<Rightarrow> dual \<Rightarrow> bool" where
  "dual_ok rc d \<longleftrightarrow> identity_ok (lc_node rc) \<and> dp_inv (w_st (du_world d)) \<and>
     ix_inv (pview (w_st (du_world d))) (tview (w_st (du_world d))) (du_flight d)"

text \<open>
  The second section does what the single-threaded handler would do with the packet at that
  moment: if the tunnel is gone both drop it, and otherwise its key is the one copied before.
\<close>

lemma finish_is_packet:
  assumes "flight_pkt f" and "fl_index f \<noteq> STUN_INDEX" and "\<And>key. tview st (fl_index f) = Some key \<Longrightarrow> key = fl_key f"
  shows "finish_packet cf rn st (fl_index f) (fl_key f) (fl_pkt f) (fl_src f) =
    handle_packet cf rn targets st tick (fl_pkt f) (fl_src f)"
proof -
  let ?pkt = "fl_pkt f"
  have f: "is_transport ?pkt" "fl_index f = from_le_bytes [?pkt ! 4, ?pkt ! 5, ?pkt ! 6, ?pkt ! 7]"
    using assms(1) by (simp_all add: flight_pkt_def)
  have l: "16 \<le> length ?pkt" using f(1) by (simp add: is_transport_def)
  have "handle_packet cf rn targets st tick ?pkt (fl_src f) = handle_wg_transport cf rn st ?pkt (fl_src f)"
    using assms(2) f by (intro transport_dispatch) simp_all
  also have "\<dots> = finish_packet cf rn st (fl_index f) (fl_key f) ?pkt (fl_src f)"
    using assms(3) l
    by (auto simp: handle_wg_transport_def finish_packet_def rust_simps Let_def decrypt_eq decrypt_transport_eq
        tview_def handle_decrypted_def simp flip: f(2) split: option.split)
  finally show ?thesis by simp
qed

text \<open>A transport packet for no tunnel is dropped by both.\<close>

lemma stun_index_dropped:
  assumes "is_transport pkt" and "from_le_bytes [pkt ! 4, pkt ! 5, pkt ! 6, pkt ! 7] = STUN_INDEX"
  shows "handle_packet cf rn targets st tick pkt src = Some (st, [])"
proof -
  have p: "pkt \<noteq> []" "hd pkt = MSG_TRANSPORT" "16 \<le> length pkt"
    using assms(1) by (auto simp: is_transport_def split: list.splits)
  have "sub pkt 0 6 ! 0 = MSG_TRANSPORT" using p by (simp add: hd_conv_nth)
  then have "sub pkt 0 6 \<noteq> MAGIC" by (auto simp: MAGIC_def)
  moreover have "to_le_bytes (from_le_bytes (sub pkt 4 8) :: u32) = to_le_bytes STUN_INDEX" using assms(2) p(3) by (simp add: sub_4_eq)
  then have "sub pkt 4 8 = to_be_bytes MAGIC_COOKIE" using p(3) by (simp add: STUN_INDEX_def to_from_le_bytes)
  ultimately show ?thesis using p(3) by (simp add: handle_packet_def is_disco_eq is_stun_eq)
qed

lemma unknown_is_packet:
  assumes "is_transport pkt" and "fetch_key st pkt = Some None"
  shows "handle_packet cf rn targets st tick pkt src = Some (st, [])"
proof (cases "from_le_bytes [pkt ! 4, pkt ! 5, pkt ! 6, pkt ! 7] = STUN_INDEX")
  case True
  then show ?thesis by (rule stun_index_dropped [OF assms(1)])
next
  case False
  have "16 \<le> length pkt" using assms(1) by (simp add: is_transport_def)
  then show ?thesis unfolding transport_dispatch [OF assms(1) False] using assms(2)
    by (simp add: handle_wg_transport_def fetch_key_def rust_simps Let_def)
qed

lemma fresh_unused:
  assumes "dp_inv (w_st (du_world d))" and "index_fresh d i"
  shows "unused (pview (w_st (du_world d))) (tview (w_st (du_world d))) (du_flight d) i"
  using assms by (fastforce simp: unused_def index_fresh_def pview_def tview_def ran_def dest: map_of_SomeD)

lemma dual_step_simulated:
  assumes "dual_step rc d l out d'" and ok: "dual_ok rc d" and fresh: "draws_fresh d l"
  shows "dual_ok rc d' \<and> run_handler (dp_handle rc) (du_world d) (spells_events (holding_of d) l) = Some (du_world d', out) \<and>
    holding_of d' = holds_after (holding_of d) l"
proof -
  let ?w = "du_world d" and ?F = "du_flight d"
  have id: "identity_ok (lc_node rc)" and inv: "dp_inv (w_st ?w)"
    and ix: "ix_inv (pview (w_st ?w)) (tview (w_st ?w)) ?F"
    using ok by (simp_all add: dual_ok_def)
  have inv1: "dp_inv (w_st w)" if "dp_handle rc ?w ev = Some (w, out)" for ev w out
    using dataplane.step_ok [of rc ?w ev] id inv that by auto
  have packet: "ix_inv (pview (w_st w)) (tview (w_st w)) ?F"
    if "dp_handle rc ?w (Packet rn pkt src) = Some (w, out)" "index_fresh d (rn_index rn)" for rn pkt src w out
  proof -
    have "ix_step (rn_index rn) (w_st ?w) (w_st w)"
      using that(1) handle_packet_ix [OF inv] by (auto simp: bind_eq_Some_conv)
    then show ?thesis using ix_inv_step ix fresh_unused [OF inv that(2)] by blast
  qed
  show ?thesis using assms(1)
  proof cases
    case (housekeeping pr queue mdns w)
    note h = housekeeping(4)
    have "ix_inv (pview (w_st w)) (tview (w_st w)) ?F"
      using dp_handle_shrink [OF id inv h] ix by (auto intro: ix_inv_shrink)
    then show ?thesis using housekeeping inv1 [OF h] id by (simp add: dual_ok_def holding_of_def fun_eq_iff)
  next
    case (rehash ps ts w)
    note h = rehash(3)
    have "ix_inv (pview (w_st w)) (tview (w_st w)) ?F"
      using dp_handle_shrink [OF id inv h] ix by (auto intro: ix_inv_shrink)
    then show ?thesis using rehash inv1 [OF h] id by (simp add: dual_ok_def holding_of_def fun_eq_iff del: dp_handle.simps)
  next
    case (other t pkt rn src st)
    then have h: "dp_handle rc ?w (Packet rn pkt src) = Some (?w\<lparr>w_st := st\<rparr>, out)" by simp
    then show ?thesis using other fresh inv1 [OF h] packet [OF h] id by (simp add: dual_ok_def holding_of_def fun_eq_iff)
  next
    case (unknown t pkt rn src)
    then show ?thesis using ok by (simp add: unknown_is_packet)
  next
    case (fetch t pkt i key src)
    have l: "16 \<le> length pkt" using fetch(6) by (simp add: is_transport_def)
    have i: "i = from_le_bytes [pkt ! 4, pkt ! 5, pkt ! 6, pkt ! 7]" "tview (w_st ?w) i = Some key"
      using fetch(7) l by (auto simp: fetch_key_def rust_simps Let_def tview_def)
    then have "ix_inv (pview (w_st ?w)) (tview (w_st ?w)) (?F(t \<mapsto> \<lparr>fl_pkt = pkt, fl_src = src, fl_index = i, fl_key = key\<rparr>))"
      using fetch(6) by (intro ix_inv_fetch [OF ix]) (simp_all add: flight_pkt_def)
    then show ?thesis using fetch id inv by (simp add: dual_ok_def holding_of_def fun_eq_iff)
  next
    case (finish t f rn st)
    have "flight_pkt f" "fl_index f \<noteq> STUN_INDEX" "\<And>key. tview (w_st ?w) (fl_index f) = Some key \<Longrightarrow> key = fl_key f"
      using ix finish(4) unfolding ix_inv_def by blast+
    from finish_is_packet [OF this] finish(5)
    have h: "dp_handle rc ?w (Packet rn (fl_pkt f) (fl_src f)) = Some (?w\<lparr>w_st := st\<rparr>, out)" by simp
    have "ix_inv (pview st) (tview st) ?F" using packet [OF h] fresh finish(1) by simp
    then have "ix_inv (pview st) (tview st) (?F(t := None))"
      unfolding ix_inv_def by (auto split: if_splits)
    then show ?thesis using finish h inv1 [OF h] id by (simp add: dual_ok_def holding_of_def fun_eq_iff)
  qed
qed

lemma run_handler_append:
  "run_handler h s (xs @ ys) = do { (s', o1) \<leftarrow> run_handler h s xs; (s'', o2) \<leftarrow> run_handler h s' ys; Some (s'', o1 @ o2) }"
proof (induction xs arbitrary: s)
  case Nil
  then show ?case by (cases "run_handler h s ys") auto
next
  case (Cons x xs)
  show ?case
  proof (cases "h s x")
    case (Some r)
    obtain s1 o1 where r: "r = (s1, o1)" by fastforce
    show ?thesis by (simp add: Some r Cons.IH split_beta)
  qed simp
qed

lemma dual_run_simulated:
  assumes "dual_run rc d ls out d'" and "dual_ok rc d"
  shows "dual_ok rc d' \<and> run_handler (dp_handle rc) (du_world d) (sections (holding_of d) ls) = Some (du_world d', out) \<and>
    holding_of d' = foldl holds_after (holding_of d) ls"
  using assms
proof (induction rule: dual_run.induct)
  case (idle d)
  then show ?case by simp
next
  case (step d ls out d' l out' d'')
  then have 1: "run_handler (dp_handle rc) (du_world d) (sections (holding_of d) ls) = Some (du_world d', out)" "dual_ok rc d'"
      "holding_of d' = foldl holds_after (holding_of d) ls" by blast+
  from dual_step_simulated [OF step.hyps(2) 1(2) step.hyps(3)] 1 show ?case
    by (simp add: sections_append run_handler_append)
qed

text \<open>Every packet received is handled or still between its two sections.\<close>

definition in_flight :: "holding \<Rightarrow> (bytes \<times> socket_addr) list" where
  "in_flight H = List.map_filter H [0, 1]"

lemma dual_step_conserves:
  assumes "dual_step rc d l out d'"
  shows "mset (receives l) + mset (in_flight (holding_of d)) =
    mset (List.map_filter packet_of (spells_events (holding_of d) l)) + mset (in_flight (holds_after (holding_of d) l))"
proof -
  have two: "t < 2 \<longleftrightarrow> t = 0 \<or> t = 1" for t :: nat by auto
  show ?thesis using assms
    by cases (auto simp: in_flight_def holding_of_def two split: option.splits)
qed

lemma dual_run_conserves:
  assumes "dual_run rc d ls out d'" and "dual_ok rc d"
  shows "mset (concat (map receives ls)) + mset (in_flight (holding_of d)) =
    mset (List.map_filter packet_of (sections (holding_of d) ls)) + mset (in_flight (holding_of d'))"
  using assms
proof (induction rule: dual_run.induct)
  case (step d ls out d' l out' d'')
  have h: "dual_ok rc d'" "holding_of d' = foldl holds_after (holding_of d) ls"
    using dual_run_simulated [OF step.hyps(1) step.prems] by simp_all
  have "holding_of d'' = holds_after (holding_of d') l" using dual_step_simulated [OF step.hyps(2) h(1) step.hyps(3)] by simp
  with step.IH [OF step.prems] dual_step_conserves [OF step.hyps(2)] h(2) show ?case
    by (simp add: sections_append map_filter_def algebra_simps)
qed simp

text \<open>No thread is stuck: an idle one takes any packet, one between two sections finishes it.\<close>

lemma dual_progress:
  assumes ok: "dual_ok rc d" and "t < 2"
  shows "case du_flight d t of
      None \<Rightarrow> \<exists>l out d'. dual_step rc d l out d' \<and> receives l = [(pkt, src)]
    | Some f \<Rightarrow> \<exists>out d'. dual_step rc d (DFinish t rn) out d'"
proof -
  let ?w = "du_world d"
  have "\<exists>w out. dp_handle rc ?w (Packet rn p a) = Some (w, out)" for p a
    using dataplane.step_ok [of rc ?w "Packet rn p a"] ok by (auto simp: dual_ok_def)
  then have h: "\<exists>st out. handle_packet (lc_node rc) rn (w_targets ?w) (w_st ?w) (w_tick ?w) p a = Some (st, out)" for p a
    by (fastforce simp: bind_eq_Some_conv)
  show ?thesis
  proof (cases "du_flight d t")
    case None
    show ?thesis
    proof (cases "is_transport pkt")
      case True
      then have "\<exists>k. fetch_key (w_st ?w) pkt = Some k" by (simp add: fetch_key_def rust_simps is_transport_def Let_def)
      then consider "fetch_key (w_st ?w) pkt = Some None" | i key where "fetch_key (w_st ?w) pkt = Some (Some (i, key))"
        by (metis option.exhaust surj_pair)
      then show ?thesis
      proof cases
        case 1
        then have "dual_step rc d (DUnknown t rn pkt src) [] d" using True None assms(2) by (intro dual_step.unknown)
        then show ?thesis using None by (auto intro!: exI [of _ "DUnknown t rn pkt src"])
      next
        case 2
        from dual_step.fetch [OF assms(2) None True this, of rc src] show ?thesis
          using None by (auto intro!: exI [of _ "DFetch t pkt src"])
      qed
    next
      case False
      then obtain st out where "handle_packet (lc_node rc) rn (w_targets ?w) (w_st ?w) (w_tick ?w) pkt src = Some (st, out)" using h by blast
      from dual_step.other [OF assms(2) None False this] show ?thesis using None by (auto intro!: exI [of _ "DOther t rn pkt src"])
    qed
  next
    case (Some f)
    have "flight_pkt f" "fl_index f \<noteq> STUN_INDEX" "\<And>key. tview (w_st ?w) (fl_index f) = Some key \<Longrightarrow> key = fl_key f"
      using ok Some unfolding dual_ok_def ix_inv_def by blast+
    from finish_is_packet [OF this] h [of "fl_pkt f" "fl_src f"]
    obtain st out where "finish_packet (lc_node rc) rn (w_st ?w) (fl_index f) (fl_key f) (fl_pkt f) (fl_src f) = Some (st, out)" by metis
    from dual_step.finish [OF assms(2) Some this] show ?thesis using Some by auto
  qed
qed

subsection \<open>Properties\<close>

text \<open>
  C3. The dual-core build refines the single-threaded one. Take any interleaving of the
  locked sections of the two threads, from the state \<open>run\<close> starts with, in which each freshly
  drawn index is not in use (and not the one that reads as the STUN cookie). Running the
  single-threaded loop on the events that the sections spell, in the order in which they finished
  (a transport packet when its second section does), leads to exactly the same state and sends
  exactly the same datagrams in the same order; in particular the copy of the key that is used
  outside the lock is never stale. Every packet that a thread received is handled exactly once or is
  still between its two sections, and no thread is stuck: an idle one can take any packet, and one
  between two sections can finish.
\<close>

theorem dualcore_refines_single:
  assumes "identity_ok (lc_node rc)"
    and "dual_run rc \<lparr>du_world = dp_world_new targets (dp_new cfg s reinject partner) now, du_flight = (\<lambda>_. None)\<rparr> ls out d"
  shows "run_handler (dp_handle rc) (dp_world_new targets (dp_new cfg s reinject partner) now) (sections Map.empty ls) =
      Some (du_world d, out) \<and>
    mset (concat (map receives ls)) =
      mset (List.map_filter packet_of (sections Map.empty ls)) + mset (in_flight (holding_of d)) \<and>
    (\<forall>t < 2. \<forall>rn pkt src. case du_flight d t of
       None \<Rightarrow> \<exists>l out' d'. dual_step rc d l out' d' \<and> receives l = [(pkt, src)]
     | Some f \<Rightarrow> \<exists>out' d'. dual_step rc d (DFinish t rn) out' d')"
proof -
  let ?d = "\<lparr>du_world = dp_world_new targets (dp_new cfg s reinject partner) now, du_flight = (\<lambda>_. None)\<rparr>"
  have ok: "dual_ok rc ?d"
    using assms(1) by (simp add: dual_ok_def dp_world_new_def dp_new_def dp_inv_def ix_inv_def pview_def tview_def)
  have h: "holding_of ?d = Map.empty" by (simp add: holding_of_def fun_eq_iff)
  have e: "in_flight Map.empty = []" by (simp add: in_flight_def)
  note sim = dual_run_simulated [OF assms(2) ok, unfolded h]
  have "mset (concat (map receives ls)) =
      mset (List.map_filter packet_of (sections Map.empty ls)) + mset (in_flight (holding_of d))"
    using dual_run_conserves [OF assms(2) ok, unfolded h e] by simp
  with sim show ?thesis using dual_progress [of rc d] by simp
qed

text \<open>
  A run in which a peer's initiation is answered and a packet of the new tunnel takes its two
  sections, the other thread dropping a packet for no tunnel in between.
\<close>

theorem dualcore_refines_single_witness:
  "\<exists>msg w out d rn.
    dual_run toy_loop \<lparr>du_world = dp_world_new [] (dp_new None [] None []) 0, du_flight = (\<lambda>_. None)\<rparr>
      [DOther 0 toy_rand msg (V4 1 2), DFetch 0 w (V4 1 2), DUnknown 1 rn (MSG_TRANSPORT # replicate 15 0) (V4 3 4), DFinish 0 rn] out d \<and>
    run_handler (dp_handle toy_loop) (dp_world_new [] (dp_new None [] None []) 0)
      [Packet toy_rand msg (V4 1 2), Packet rn (MSG_TRANSPORT # replicate 15 0) (V4 3 4), Packet rn w (V4 1 2)] = Some (du_world d, out)"
proof -
  let ?w0 = "dp_world_new [] (dp_new None [] None []) 0" and ?a = "V4 1 2" and ?z = "MSG_TRANSPORT # replicate 15 0"
  let ?d0 = "\<lparr>du_world = ?w0, du_flight = (\<lambda>_. None)\<rparr>" and ?rn = "toy_rand\<lparr>rn_index := 6\<rparr>"
  obtain msg resp ti tr where h: "consume_initiation toy_crypto (replicate 32 2) (pubkey toy_crypto (replicate 32 2)) msg 5 (replicate 32 3) =
        Some (Inr (resp, tr, pubkey toy_crypto (replicate 32 1)))"
      "length msg = 148" "msg ! 0 = MSG_INITIATION" "sub msg 4 8 = to_le_bytes (7 :: u32)"
      "tun_send_key (ti :: tunnel) = tun_recv_key tr" "tun_their_index ti = 5"
    using handshake_completes [OF toy_crypto_ok length_replicate length_replicate length_replicate length_replicate length_replicate, of 1 2 0 7 4 5 3] by metis
  define st1 where "st1 = insert_tunnel (dp_new None [] None []) 5 tr ?a (pubkey toy_crypto (replicate 32 1))"
  have st1: "map_of (st_tunnels st1) 5 = Some \<lparr>te_tun = tr, te_addr = ?a, te_peer_node = pubkey toy_crypto (replicate 32 1), te_tcp = tcp_server_new\<rparr>"
      "st_pending st1 = []" "i \<noteq> 5 \<Longrightarrow> map_of (st_tunnels st1) i = None" for i
    by (simp_all add: st1_def insert_tunnel_def dp_new_def)
  have nt: "\<not> is_transport msg" using h(2,3) by (cases msg) (simp_all add: is_transport_def)
  have "sub msg 0 6 ! 0 = MSG_INITIATION" using h(2,3) by simp
  then have "sub msg 0 6 \<noteq> MAGIC" by (auto simp: MAGIC_def)
  moreover have "from_be_bytes (sub msg 4 8) \<noteq> MAGIC_COOKIE" unfolding h(4)
    by (simp add: MAGIC_COOKIE_def to_le_bytes_def upt_rec from_be_bytes_def from_le_bytes.simps)
  ultimately have hp: "handle_packet (lc_node toy_loop) toy_rand (w_targets ?w0) (w_st ?w0) (w_tick ?w0) msg ?a = Some (st1, [(resp, ?a)])"
    using h(1-3) by (cases msg) (simp_all add: handle_packet_def is_disco_eq is_stun_eq handle_wg_init_def st1_def toy_loop_def toy_node_def toy_rand_def dp_world_new_def)
  let ?d1 = "?d0\<lparr>du_world := (du_world ?d0)\<lparr>w_st := st1\<rparr>\<rparr>"
  have s1: "dual_step toy_loop ?d0 (DOther 0 toy_rand msg ?a) [(resp, ?a)] ?d1"
    by (rule dual_step.other) (use nt hp in simp_all)
  obtain t' w where e: "encrypt toy_crypto ti [] = (t', w)" by fastforce
  note w = encrypt_is_transport [OF e, unfolded h(6)]
  have "16 \<le> length w" using w(1) by (simp add: is_transport_def)
  then have k: "fetch_key (w_st (du_world ?d1)) w = Some (Some (5, tun_recv_key tr))"
    using w(2) st1(1) by (simp add: fetch_key_def rust_simps Let_def)
  let ?f = "\<lparr>fl_pkt = w, fl_src = ?a, fl_index = 5, fl_key = tun_recv_key tr\<rparr>"
  let ?d2 = "?d1\<lparr>du_flight := (du_flight ?d1)(0 \<mapsto> ?f)\<rparr>"
  have s2: "dual_step toy_loop ?d1 (DFetch 0 w ?a) [] ?d2" by (rule dual_step.fetch [OF _ _ w(1) k]) simp_all
  have "fetch_key (w_st (du_world ?d2)) ?z = Some None"
    using st1(3) [of 0] by (simp add: fetch_key_def rust_simps Let_def from_le_bytes.simps)
  then have s3: "dual_step toy_loop ?d2 (DUnknown 1 ?rn ?z (V4 3 4)) [] ?d2"
    by (intro dual_step.unknown) (simp_all add: is_transport_def)
  have f: "index_fresh ?d0 5" "index_fresh ?d2 6"
    using st1 by (simp_all add: index_fresh_def STUN_INDEX_eq dp_world_new_def dp_new_def ran_def)
  have r0: "dual_run toy_loop ?d0 ([] @ [DOther 0 toy_rand msg ?a]) ([] @ [(resp, ?a)]) ?d1"
    by (rule dual_run.step [OF dual_run.idle s1]) (use f(1) in \<open>simp add: toy_rand_def\<close>)
  have r3: "dual_run toy_loop ?d0 ((([] @ [DOther 0 toy_rand msg ?a]) @ [DFetch 0 w ?a]) @ [DUnknown 1 ?rn ?z (V4 3 4)]) ((([] @ [(resp, ?a)]) @ []) @ []) ?d2"
    by (intro dual_run.step [OF dual_run.step [OF r0 s2] s3]) simp_all
  have id: "identity_ok (lc_node toy_loop)" using toy_node_ok by (simp add: toy_loop_def)
  have "\<exists>out d. dual_step toy_loop ?d2 (DFinish 0 ?rn) out d"
    using dualcore_refines_single [OF id r3] by force
  then obtain out d where "dual_step toy_loop ?d2 (DFinish 0 ?rn) out d" by blast
  from dual_run.step [OF r3 this] f(2)
  have r4: "dual_run toy_loop ?d0 [DOther 0 toy_rand msg ?a, DFetch 0 w ?a, DUnknown 1 ?rn ?z (V4 3 4), DFinish 0 ?rn] ([(resp, ?a)] @ out) d"
    by simp
  from dualcore_refines_single [OF id r4] r4 show ?thesis
    by (intro exI [of _ msg] exI [of _ w] exI [of _ "[(resp, ?a)] @ out"] exI [of _ d] exI [of _ ?rn]) simp
qed

end
