(* ===== verification/Retries.thy ===== *)
theory Retries
  imports Dataplane_Views
begin

text \<open>
  Unanswered handshakes. \<open>run_periodic\<close> resends a pending initiation when it is older than three
  ticks and gives it up after four retries; at most eight may be pending, so a peer that does
  not answer must not hold its slot. The measure is the age of a handshake, four per retry
  plus the ticks since it was last sent (modulo \<open>2 ^ 32\<close>, as the source subtracts): every
  housekeeping raises it by one, and at 20 the handshake is dropped.
\<close>

subsection \<open>What the events do to a pending handshake\<close>

lemma house_ticks:
  "house rc w pr queue mdns = Some (w', out) \<Longrightarrow> w_tick w' = w_loop_tick w \<and> w_loop_tick w' = w_loop_tick w + 1"
  by (auto simp: house_def bind_eq_Some_conv split: if_splits)

text \<open>A packet leaves a pending handshake as it is, or ends it; a new one starts only for a free key.\<close>

definition pending_step :: "u32 \<Rightarrow> (bytes \<rightharpoonup> pending) \<Rightarrow> (bytes \<rightharpoonup> pending) \<Rightarrow> bool" where
  "pending_step tick P P' \<longleftrightarrow> (\<forall>k. P' k = P k \<or> P' k = None \<or>
     P k = None \<and> (\<exists>p. P' k = Some p \<and> pn_sent_tick p = tick \<and> pn_retries p = 0))"

lemma pending_step_refl [simp]: "pending_step tick P P"
  by (simp add: pending_step_def)

lemma pending_step_steady:
  "steady st res \<Longrightarrow> res = Some (st', out) \<Longrightarrow> pending_step tick (map_of (st_pending st)) (map_of (st_pending st'))"
  unfolding steady_def by (metis pending_step_refl)

lemma maybe_start_handshake_step:
  assumes "maybe_start_handshake cf rn targets st tick dk src = Some (st', out)"
  shows "pending_step tick (map_of (st_pending st)) (map_of (st_pending st'))"
  using assms
  by (auto simp: maybe_start_handshake_def Let_def bind_eq_Some_conv pending_step_def update_conv'
      split: option.splits if_splits)

lemma handle_packet_step:
  assumes "handle_packet cf rn targets st tick pkt src = Some (st', out)"
  shows "pending_step tick (map_of (st_pending st)) (map_of (st_pending st'))" (is "?step st'")
proof -
  have "?step st'" if "handle_disco cf rn targets st tick pkt src = Some (st', out)" for st' out
    using that by (auto simp: handle_disco_def disco_open_eq pong_plaintext_def addr_to_bytes_eq
        dest!: maybe_start_handshake_step split: sum.splits option.splits if_splits)
  moreover have "?step st'" if i: "handle_wg_init cf rn st pkt src = Some (st', out)" for st' out
  proof -
    obtain r where r: "consume_initiation (cf_wg cf) (id_node_priv (cf_id cf)) (id_node_pub (cf_id cf)) pkt
        (rn_index rn) (rn_eph rn) = Some r"
      using i by (auto simp: handle_wg_init_def Let_def bind_eq_Some_conv)
    then show ?thesis using i by (cases r) (auto simp: handle_wg_init_def Let_def insert_tunnel_def)
  qed
  moreover have "?step st'" if r: "handle_wg_response cf st pkt src = Some (st', out)" for st' out
    using r by (cases rule: handle_wg_response_cases) (auto simp: pending_step_def delete_conv' insert_tunnel_def)
  moreover have "?step st'" if "handle_wg_transport cf rn st pkt src = Some (st', out)" for st' out
    using that
    by (auto simp: handle_wg_transport_def rust_simps Let_def decrypt_eq
        intro: pending_step_steady [OF handle_decrypted_steady] split: option.splits if_splits)
  ultimately show ?thesis using assms
    by (auto simp: handle_packet_def is_disco_eq is_stun_eq split: list.splits if_splits)
qed

subsection \<open>Ageing\<close>

definition is_House :: "dp_event \<Rightarrow> bool" where
  "is_House ev = (case ev of House pr q m \<Rightarrow> True | Packet rn pkt src \<Rightarrow> False | Rehash ps ts \<Rightarrow> False)"

definition age :: "dp_world \<Rightarrow> pending \<Rightarrow> nat" where
  "age w p = 4 * unat (pn_retries p) + unat (w_loop_tick w - pn_sent_tick p)"

definition clocked :: "dp_world \<Rightarrow> bool" where
  "clocked w \<longleftrightarrow> dp_inv (w_st w) \<and> unat (w_loop_tick w - w_tick w) \<le> 1 \<and>
     (\<forall>k p. map_of (st_pending (w_st w)) k = Some p \<longrightarrow> unat (w_loop_tick w - pn_sent_tick p) \<le> 4)"

lemma clocked_age: "clocked w \<Longrightarrow> map_of (st_pending (w_st w)) k = Some p \<Longrightarrow> age w p \<le> 20"
  by (fastforce simp: clocked_def age_def dp_inv_def pending_ok_def MAX_HS_RETRIES_def word_le_nat_alt)

lemma unat_next: "unat (x :: u32) \<le> 4 \<Longrightarrow> unat (x + 1) = unat x + 1"
  by (simp add: unat_word_ariths)

lemma retry_one_ages:
  assumes d: "unat (T - pn_sent_tick p) \<le> 4" and r: "pn_retries p \<le> MAX_HS_RETRIES" and q: "retry_one ts T p = Some q"
  shows "unat (T + 1 - pn_sent_tick q) \<le> 4 \<and>
    4 * unat (pn_retries q) + unat (T + 1 - pn_sent_tick q) = 4 * unat (pn_retries p) + unat (T - pn_sent_tick p) + 1"
proof -
  have u: "unat (T + 1 - pn_sent_tick p) = unat (T - pn_sent_tick p) + 1"
    using unat_next [OF d] by (simp add: algebra_simps)
  have n: "unat (pn_retries p + 1) = unat (pn_retries p) + 1"
    by (rule unat_next) (use r in \<open>simp add: MAX_HS_RETRIES_def word_le_nat_alt\<close>)
  consider "q = p" "unat (T - pn_sent_tick p) \<le> 3"
    | "q = p\<lparr>pn_sent_tick := T, pn_retries := pn_retries p + 1\<rparr>" "unat (T - pn_sent_tick p) > 3"
    using q by (auto simp: retry_one_def PENDING_TIMEOUT_TICKS_def word_less_nat_alt split: if_splits)
  then show ?thesis
  proof cases
    case 1
    then show ?thesis using u by simp
  next
    case 2
    then show ?thesis using n d by simp
  qed
qed

lemma house_ages:
  assumes "identity_ok (lc_node rc)" and c: "clocked w" and h: "house rc w pr queue mdns = Some (w', out)"
  shows "clocked w'"
    and "map_of (st_pending (w_st w')) k = Some q \<Longrightarrow>
      \<exists>p. map_of (st_pending (w_st w)) k = Some p \<and> age w' q = age w p + 1"
proof -
  have len: "wg_crypto_lengths (cf_wg (lc_node rc))" using assms(1) by (simp add: identity_ok_def)
  have inv: "dp_inv (w_st w)" using c by (simp add: clocked_def)
  have inv': "dp_inv (w_st w')" using house_fine [OF len inv, of pr queue mdns] h by auto
  have d: "distinct (map fst (st_pending (w_st w)))" using inv by (simp add: dp_inv_def)
  have m: "map_of (st_pending (w_st w')) k = Option.bind (map_of (st_pending (w_st w)) k)
      (retry_one (st_tunnels (w_st w)) (w_loop_tick w))" for k
    unfolding house_effect(1) [OF len inv h] by (rule map_of_retry_pending [OF d])
  have one: "\<exists>p. map_of (st_pending (w_st w)) k = Some p \<and> unat (w_loop_tick w' - pn_sent_tick q) \<le> 4 \<and>
      age w' q = age w p + 1" if q: "map_of (st_pending (w_st w')) k = Some q" for k q
  proof -
    obtain p where p: "map_of (st_pending (w_st w)) k = Some p" "retry_one (st_tunnels (w_st w)) (w_loop_tick w) p = Some q"
      using q unfolding m bind_eq_Some_conv by blast
    have "unat (w_loop_tick w - pn_sent_tick p) \<le> 4" "pn_retries p \<le> MAX_HS_RETRIES"
      using c p(1) by (auto simp: clocked_def dp_inv_def pending_ok_def)
    from retry_one_ages [OF this p(2)] show ?thesis using p(1) house_ticks [OF h] by (simp add: age_def)
  qed
  then show "map_of (st_pending (w_st w')) k = Some q \<Longrightarrow>
      \<exists>p. map_of (st_pending (w_st w)) k = Some p \<and> age w' q = age w p + 1" by blast
  show "clocked w'" using inv' one house_ticks [OF h] by (auto simp: clocked_def)
qed

lemma other_ages:
  assumes "identity_ok (lc_node rc)" and c: "clocked w" and h: "dp_handle rc w ev = Some (w', out)" and ev: "\<not> is_House ev"
  shows "clocked w'"
    and "map_of (st_pending (w_st w)) k = Some p \<Longrightarrow> map_of (st_pending (w_st w')) k = Some q \<Longrightarrow> age w' q = age w p"
proof -
  have inv: "dp_inv (w_st w)" using c by (simp add: clocked_def)
  then have inv': "dp_inv (w_st w')" using dataplane.step_ok [of rc w ev] assms(1) h by auto
  have s: "pending_step (w_tick w) (map_of (st_pending (w_st w))) (map_of (st_pending (w_st w')))"
    and t: "w_tick w' = w_tick w" "w_loop_tick w' = w_loop_tick w"
    using h ev inv
    by (cases ev; auto simp: is_House_def same_entries_map_of dp_inv_def dest: handle_packet_step split: bind_splits if_splits)+
  show "map_of (st_pending (w_st w)) k = Some p \<Longrightarrow> map_of (st_pending (w_st w')) k = Some q \<Longrightarrow> age w' q = age w p"
    using s t unfolding pending_step_def age_def by (metis option.distinct(1) option.inject)
  have "unat (w_loop_tick w' - pn_sent_tick q) \<le> 4" if q: "map_of (st_pending (w_st w')) k = Some q" for k q
  proof -
    consider "map_of (st_pending (w_st w)) k = Some q" | "pn_sent_tick q = w_tick w"
      using s q unfolding pending_step_def by (metis option.distinct(1) option.inject)
    then show ?thesis using c t by cases (auto simp: clocked_def)
  qed
  then show "clocked w'" using inv' c t by (auto simp: clocked_def)
qed

lemma clocked_start: "clocked (dp_world_new targets (dp_new cfg s reinject partner) now)"
  by (simp add: clocked_def dp_world_new_def dp_new_def dp_inv_def)

lemma event_ages:
  assumes "identity_ok (lc_node rc)" and "clocked w" and "dp_handle rc w ev = Some (w', out)"
  shows "clocked w'"
    and "map_of (st_pending (w_st w)) k = Some p \<Longrightarrow> map_of (st_pending (w_st w')) k = Some q \<Longrightarrow>
      age w' q = age w p + (if is_House ev then 1 else 0)"
proof -
  have "clocked w' \<and> (map_of (st_pending (w_st w)) k = Some p \<longrightarrow> map_of (st_pending (w_st w')) k = Some q \<longrightarrow>
      age w' q = age w p + (if is_House ev then 1 else 0))"
  proof (cases ev)
    case (House pr queue mdns)
    then have h: "house rc w pr queue mdns = Some (w', out)" using assms(3) by simp
    show ?thesis using house_ages(1) [OF assms(1,2) h] house_ages(2) [OF assms(1,2) h, of k q] House
      by (auto simp: is_House_def)
  qed (use other_ages [OF assms] in \<open>simp_all add: is_House_def\<close>)
  then show "clocked w'"
    and "map_of (st_pending (w_st w)) k = Some p \<Longrightarrow> map_of (st_pending (w_st w')) k = Some q \<Longrightarrow>
      age w' q = age w p + (if is_House ev then 1 else 0)" by auto
qed

lemma clocked_run:
  "identity_ok (lc_node rc) \<Longrightarrow> clocked w \<Longrightarrow> run_handler (dp_handle rc) w evs = Some (w', out) \<Longrightarrow> clocked w'"
  by (induction evs arbitrary: w out) (auto simp: bind_eq_Some_conv dest: event_ages(1))

lemma slot_freed:
  assumes "identity_ok (lc_node rc)" and "clocked w" and "map_of (st_pending (w_st w)) k = Some p"
    and "20 < age w p + length (filter is_House evs)"
  shows "\<exists>n \<le> length evs. \<exists>w' out. run_handler (dp_handle rc) w (take n evs) = Some (w', out) \<and>
    map_of (st_pending (w_st w')) k = None"
  using assms(2-)
proof (induction evs arbitrary: w p)
  case Nil
  then show ?case using clocked_age [of w k p] by simp
next
  case (Cons ev evs)
  obtain w1 o1 where h: "dp_handle rc w ev = Some (w1, o1)"
    using dataplane.step_ok [of rc w ev] assms(1) Cons.prems(1) by (auto simp: clocked_def)
  note c = event_ages [OF assms(1) Cons.prems(1) h]
  show ?case
  proof (cases "map_of (st_pending (w_st w1)) k")
    case None
    then show ?thesis using h by (intro exI [of _ "Suc 0"]) simp
  next
    case (Some q)
    have "20 < age w1 q + length (filter is_House evs)"
      using c(2) [OF Cons.prems(2) Some] Cons.prems(3) by (auto split: if_splits)
    from Cons.IH [OF c(1) Some this] obtain n w' o' where
      n: "n \<le> length evs" "run_handler (dp_handle rc) w1 (take n evs) = Some (w', o')" "map_of (st_pending (w_st w')) k = None"
      by blast
    then show ?thesis using h by (intro exI [of _ "Suc n"]) simp
  qed
qed

subsection \<open>Property\<close>

text \<open>
  C6. A handshake slot is always freed: from every state the data plane can reach, whatever
  packets arrive and however they interleave with the housekeeping, within 21 housekeepings
  there is a moment at which no handshake with peer \<open>k\<close> is pending: it has completed, was
  cancelled, or was given up after four retries. The tick counter may wrap meanwhile.
\<close>

theorem handshake_slot_freed:
  assumes "identity_ok (lc_node rc)"
    and "run_handler (dp_handle rc) (dp_world_new targets (dp_new cfg s reinject partner) now) past = Some (w, out)"
    and "21 \<le> length (filter is_House future)"
  shows "\<exists>n w' out'. n \<le> length future \<and> run_handler (dp_handle rc) w (take n future) = Some (w', out') \<and>
    map_of (st_pending (w_st w')) k = None"
proof (cases "map_of (st_pending (w_st w)) k")
  case None
  then show ?thesis by (intro exI [of _ 0]) simp
next
  case (Some p)
  have "clocked w" by (rule clocked_run [OF assms(1) clocked_start assms(2)])
  from slot_freed [OF assms(1) this Some, of future] assms(3) show ?thesis by auto
qed

definition toy_periodic :: periodic_rand where
  "toy_periodic = \<lparr>pr_probe_read = 0, pr_probe_set = 0, pr_stun_read = 0, pr_stun_set = 0, pr_txid = (\<lambda>_. replicate 12 0),
     pr_nonce = (\<lambda>_. replicate 24 0), pr_tail = (\<lambda>_ _. []), pr_sent = (\<lambda>_. True), pr_client = 7, pr_stun_txid = 0\<rparr>"

theorem handshake_slot_freed_witness:
  "\<exists>n w out. n \<le> 21 \<and> run_handler (dp_handle toy_loop) (dp_world_new [] (dp_new None [] None []) 0)
     (take n (replicate 21 (House toy_periodic [] []))) = Some (w, out) \<and> map_of (st_pending (w_st w)) (replicate 32 8) = None"
proof -
  have "identity_ok (lc_node toy_loop)" using toy_node_ok by (simp add: toy_loop_def)
  moreover have "filter is_House (replicate 21 (House toy_periodic [] [])) = replicate 21 (House toy_periodic [] [])"
    by (simp add: is_House_def)
  ultimately show ?thesis
    using handshake_slot_freed [of toy_loop "[]" None "[]" None "[]" 0 "[]" _ "[]"
        "replicate 21 (House toy_periodic [] [])" "replicate 32 8"] by simp
qed

end
