(* ===== verification/Port_Spray.thy ===== *)
theory Port_Spray
  imports Dataplane_Periodic
begin

text \<open>
  The birthday port spray of \<open>run_periodic\<close>. Round \<open>r\<close> sweeps a window of 1024 ports around a
  centre that walks outward from the peer's last known port, alternating between the two
  sides. Shown: whatever the base port, the windows of the first 129 rounds cover every
  unprivileged port, and no privileged port is ever sprayed.
\<close>

lemma i32_id: "- 2147483648 \<le> x \<Longrightarrow> x < 2147483648 \<Longrightarrow> i32 x = x"
  by (simp add: i32_def signed_of_int signed_take_bit_int_eq_self)

lemma uint_of_small: "n < 2 ^ 32 \<Longrightarrow> uint (word_of_nat n :: u32) = int n"
  by (simp add: unsigned_of_nat take_bit_nat_eq_self)

text \<open>The centre of round \<open>r\<close>, without machine arithmetic: the offsets are \<open>0, -1, 1, -2, 2, ...\<close> windows.\<close>

definition sweep_offset :: "nat \<Rightarrow> int" where
  "sweep_offset r = (if even r then int (r div 2) else - int (r div 2 + 1))"

lemma sweep_center_eq:
  assumes "r \<le> 128" and "t < 2"
  shows "sweep_center base (word_of_nat (2 * r + t)) = uint base + 1024 * sweep_offset r"
proof -
  have "uint (word_of_nat (2 * r + t) div 2 :: u32) = int r"
    using assms by (simp add: uint_div_distrib uint_of_small del: of_nat_add of_nat_mult)
  moreover have "uint base < 65536" "0 \<le> uint base" using uint_lt2p [of base] by simp_all
  moreover have "int r mod 2 = 0 \<longleftrightarrow> even r" by presburger
  moreover have "(int r + 1) div 2 = (if even r then int (r div 2) else int (r div 2 + 1))" by presburger
  moreover have h: "0 \<le> int (r div 2)" "int (r div 2) \<le> 64" using assms(1) by simp_all
  have "i32 (uint base + int (r div 2) * 1024) = uint base + int (r div 2) * 1024"
    by (rule i32_id) (use calculation(2,3) h in linarith)+
  moreover have "i32 (uint base + (- 1024 - int (r div 2) * 1024)) = uint base + (- 1024 - int (r div 2) * 1024)"
    by (rule i32_id) (use calculation(2,3) h in linarith)+
  ultimately show ?thesis using assms(1)
    by (simp add: sweep_center_def Let_def i32_id i32_div_def SWEEP_WIN_def sweep_offset_def)
qed

lemma sweep_offset_surj:
  assumes "- 64 \<le> k" and "k \<le> 64"
  obtains r where "r \<le> 128" and "sweep_offset r = k"
proof (cases "0 \<le> k")
  case True
  then show ?thesis using assms that [of "2 * nat k"] by (simp add: sweep_offset_def)
next
  case False
  then have "sweep_offset (2 * nat (- k) - 1) = k" by (auto simp: sweep_offset_def)
  then show ?thesis using assms False that [of "2 * nat (- k) - 1"] by simp
qed

lemma swept_ports:
  assumes c: "sweep_center base tick = c" and "\<bar>c\<bar> < 1000000" and "c - 512 \<le> uint p" and "uint p < c + 512" and "1024 \<le> p"
  shows "p \<in> set (birthday_ports base tick rnd)"
proof -
  define d where "d = uint p - (c - 512)"
  have d: "0 \<le> d" "d \<le> SWEEP_WIN - 1" using assms by (simp_all add: d_def SWEEP_WIN_def)
  have w: "i32 (i32 (c - SWEEP_WIN div 2) + d) = uint p"
    using assms d by (simp add: i32_id SWEEP_WIN_def d_def)
  have "1024 \<le> uint p" "uint p \<le> 65535" using assms(5) uint_lt2p [of p] by (simp_all add: word_le_def)
  then have "uint p \<in> set (filter (\<lambda>p. 1024 \<le> p \<and> p \<le> 65535)
      (map (\<lambda>d. i32 (i32 (c - SWEEP_WIN div 2) + d)) [0..SWEEP_WIN - 1]))"
    using w d by (auto intro!: image_eqI [where x = d])
  from imageI [OF this, of "word_of_int :: int \<Rightarrow> u16"] show ?thesis
    by (simp add: birthday_ports_def Let_def c image_Un)
qed

text \<open>
  C40. The port spray is complete: for every known base port of a peer and every unprivileged
  port there is a probe round among the first 258 in which the port is sprayed, whatever the
  random tail; and no round ever sprays a port below 1024.
\<close>

theorem spray_covers_ports:
  assumes "1024 \<le> p"
  shows "(\<exists>tick < 258. p \<in> set (birthday_ports base tick rnd)) \<and>
    list_all (\<lambda>q. 1024 \<le> q) (birthday_ports base round rnd')"
proof
  define k where "k = (uint p - uint base + 512) div 1024"
  have u: "0 \<le> uint base" "uint base < 65536" "0 \<le> uint p" "uint p < 65536"
    using uint_lt2p [of base] uint_lt2p [of p] by simp_all
  have "(- 65536) div 1024 \<le> k" unfolding k_def by (rule zdiv_mono1) (use u in linarith)+
  moreover have "k \<le> 66047 div 1024" unfolding k_def by (rule zdiv_mono1) (use u in linarith)+
  ultimately have k: "- 64 \<le> k" "k \<le> 64" by simp_all
  obtain r where r: "r \<le> 128" "sweep_offset r = k" using sweep_offset_surj [OF k] by blast
  have "sweep_center base (word_of_nat (2 * r)) = uint base + 1024 * k"
    using sweep_center_eq [OF r(1), of 0 base] r(2) by simp
  moreover have "uint base + 1024 * k - 512 \<le> uint p" "uint p < uint base + 1024 * k + 512"
    using mult_div_mod_eq [of 1024 "uint p - uint base + 512"] pos_mod_bound [of 1024 "uint p - uint base + 512"]
      pos_mod_sign [of 1024 "uint p - uint base + 512"] unfolding k_def by linarith+
  moreover have "\<bar>uint base + 1024 * k\<bar> < 1000000" using u k by linarith
  ultimately have "p \<in> set (birthday_ports base (word_of_nat (2 * r)) rnd)"
    using assms by (intro swept_ports)
  moreover have "(word_of_nat (2 * r) :: u32) < 258"
    using r(1) by (simp add: word_less_def uint_of_small del: of_nat_mult)
  ultimately show "\<exists>tick < 258. p \<in> set (birthday_ports base tick rnd)" by blast
  have "1024 \<le> (word_of_int q :: u16)" if "1024 \<le> q" "q \<le> 65535" for q
    using that by (simp add: word_le_def uint_word_of_int_eq take_bit_int_eq_self)
  then show "list_all (\<lambda>q. 1024 \<le> q) (birthday_ports base round rnd')"
    by (auto simp: birthday_ports_def Let_def list_all_iff)
qed

theorem spray_covers_ports_witness:
  "\<exists>tick < 258. 61000 \<in> set (birthday_ports 41641 tick (replicate 512 0))"
  using spray_covers_ports [of 61000 41641 "replicate 512 0" 0 "[]"] by simp

end
