(* ===== verification/Derp_Stream.thy ===== *)
theory Derp_Stream
  imports Byte_Stream Rust_Text Disco
begin

text \<open>
  \<^verbatim>\<open>src/derp.rs\<close>, the connection to the relay: raw TLS I/O, frames, the HTTP upgrade and the
  DERP handshake. The TLS session is a script: what the next calls of \<open>esp_tls_conn_read\<close> and
  \<open>esp_tls_conn_write\<close> return, in order, with the retry codes; a read returns at most as much
  as the buffer holds and the rest stays; a script that has ended is a connection that was
  closed. Shown: \<open>read_exact\<close> is an exact reader, so frames are read back as they were written,
  and the client's handshake reaches a server that follows the protocol.
\<close>

subsection \<open>Raw TLS\<close>

datatype tls_read = TlsData bytes | TlsWant | TlsReadFail

datatype tls_write = TlsWrote nat | TlsWantW | TlsWriteFail

datatype derp_error =
    TlsReadError | TlsWriteError | DerpClosed | ClosedInUpgrade | UpgradeTooLarge | DerpUpgradeFailed bytes
  | WrongFrame u8 | BadServerKey nat | ClientInfoSeal | FrameTooLarge nat

record derp_conn =
  dc_reads :: "tls_read list"
  dc_writes :: "tls_write list"
  dc_sent :: bytes

text \<open>\<open>read_some\<close> into a buffer of \<open>len\<close> bytes; no bytes means closed.\<close>

primrec read_some :: "nat \<Rightarrow> tls_read list \<Rightarrow> tls_read list \<times> (derp_error + bytes)" where
  "read_some len [] = ([], Inr [])"
| "read_some len (r # rs) =
    (case r of
       TlsWant \<Rightarrow> read_some len rs
     | TlsReadFail \<Rightarrow> (rs, Inl TlsReadError)
     | TlsData d \<Rightarrow> if length d \<le> len then (rs, Inr d) else (TlsData (drop len d) # rs, Inr (take len d)))"

text \<open>\<open>read_exact\<close>, with the bytes read so far.\<close>

function read_exact_loop :: "nat \<Rightarrow> tls_read list \<Rightarrow> bytes \<Rightarrow> tls_read list \<times> (derp_error + bytes)" where
  "read_exact_loop n rs buf =
    (if n \<le> length buf then (rs, Inr buf)
     else case read_some (n - length buf) rs of
       (rs, Inl e) \<Rightarrow> (rs, Inl e)
     | (rs, Inr d) \<Rightarrow> if d = [] then (rs, Inl DerpClosed) else read_exact_loop n rs (buf @ d))"
  by pat_completeness auto
termination
  by (relation "measure (\<lambda>(n, rs, buf). n - length buf)") (auto simp: not_le simp flip: length_greater_0_conv)

declare read_exact_loop.simps [simp del]

definition read_exact :: "nat \<Rightarrow> derp_conn \<Rightarrow> derp_conn \<times> (derp_error + bytes)" where
  "read_exact n d =
    (case read_exact_loop n (dc_reads d) [] of (rs, r) \<Rightarrow> (d\<lparr>dc_reads := rs\<rparr>, r))"

text \<open>\<open>write_all\<close>: what the session took, and what is left to write.\<close>

primrec write_loop :: "tls_write list \<Rightarrow> bytes \<Rightarrow> bytes \<Rightarrow> tls_write list \<times> bytes \<times> (derp_error + unit)" where
  "write_loop [] sent buf = ([], sent, if buf = [] then Inr () else Inl TlsWriteError)"
| "write_loop (r # ws) sent buf =
    (if buf = [] then (r # ws, sent, Inr ())
     else case r of
       TlsWantW \<Rightarrow> write_loop ws sent buf
     | TlsWriteFail \<Rightarrow> (ws, sent, Inl TlsWriteError)
     | TlsWrote n \<Rightarrow> if n = 0 then (ws, sent, Inl TlsWriteError)
                     else write_loop ws (sent @ take n buf) (drop n buf))"

definition write_all :: "bytes \<Rightarrow> derp_conn \<Rightarrow> derp_conn \<times> (derp_error + unit)" where
  "write_all buf d =
    (case write_loop (dc_writes d) (dc_sent d) buf of (ws, sent, r) \<Rightarrow> (d\<lparr>dc_writes := ws, dc_sent := sent\<rparr>, r))"

subsection \<open>Frames\<close>

definition FRAME_SERVER_KEY :: u8 where "FRAME_SERVER_KEY = 0x01"
definition FRAME_CLIENT_INFO :: u8 where "FRAME_CLIENT_INFO = 0x02"
definition FRAME_SEND_PACKET :: u8 where "FRAME_SEND_PACKET = 0x04"
definition FRAME_RECV_PACKET :: u8 where "FRAME_RECV_PACKET = 0x05"
definition DERP_MAGIC :: bytes where "DERP_MAGIC = [0x44, 0x45, 0x52, 0x50, 0xf0, 0x9f, 0x94, 0x91]"
definition MAX_FRAME :: nat where "MAX_FRAME = 64 * 1024"

definition write_frame :: "u8 \<Rightarrow> bytes \<Rightarrow> derp_conn \<Rightarrow> derp_conn \<times> (derp_error + unit)" where
  "write_frame typ payload d =
    (let hdr = typ # to_be_bytes (of_nat (length payload) :: u32)
     in case write_all hdr d of
          (d, Inl e) \<Rightarrow> (d, Inl e)
        | (d, Inr _) \<Rightarrow> if payload \<noteq> [] then write_all payload d else (d, Inr ()))"

definition read_frame :: "derp_conn \<Rightarrow> derp_conn \<times> (derp_error + u8 \<times> bytes)" where
  "read_frame d =
    (case read_exact 5 d of
       (d, Inl e) \<Rightarrow> (d, Inl e)
     | (d, Inr hdr) \<Rightarrow>
        (let typ = hdr ! 0; len = unat (from_be_bytes [hdr ! 1, hdr ! 2, hdr ! 3, hdr ! 4] :: u32)
         in if len > MAX_FRAME then (d, Inl (FrameTooLarge len))
            else if len > 0 then
              (case read_exact len d of (d, Inl e) \<Rightarrow> (d, Inl e) | (d, Inr payload) \<Rightarrow> (d, Inr (typ, payload)))
            else (d, Inr (typ, []))))"

definition send_packet :: "bytes \<Rightarrow> bytes \<Rightarrow> derp_conn \<Rightarrow> derp_conn \<times> (derp_error + unit)" where
  "send_packet dst pkt d = write_frame FRAME_SEND_PACKET (dst @ pkt) d"

subsection \<open>Upgrade and handshake\<close>

definition derp_upgrade_request :: "string \<Rightarrow> bytes" where
  "derp_upgrade_request host =
    ascii ''GET /derp HTTP/1.1'' @ [13, 10] @ ascii ''Host: '' @ ascii host @ [13, 10] @
    ascii ''Connection: Upgrade'' @ [13, 10] @ ascii ''Upgrade: DERP'' @ [13, 10, 13, 10]"

definition ends_with :: "bytes \<Rightarrow> bytes \<Rightarrow> bool" where
  "ends_with xs ys \<longleftrightarrow> length ys \<le> length xs \<and> drop (length xs - length ys) xs = ys"

function derp_head_loop :: "tls_read list \<Rightarrow> bytes \<Rightarrow> tls_read list \<times> (derp_error + bytes)" where
  "derp_head_loop rs head =
    (case read_some 1 rs of
       (rs, Inl e) \<Rightarrow> (rs, Inl e)
     | (rs, Inr b) \<Rightarrow>
        if b = [] then (rs, Inl ClosedInUpgrade)
        else let head = head @ b in
          if ends_with head [13, 10, 13, 10] then (rs, Inr head)
          else if length head > 4096 then (rs, Inl UpgradeTooLarge)
          else derp_head_loop rs head)"
  by pat_completeness auto
termination
  by (relation "measure (\<lambda>(rs, head). 4097 - length head)") (auto simp flip: length_greater_0_conv)

declare derp_head_loop.simps [simp del]

definition http_upgrade :: "string \<Rightarrow> derp_conn \<Rightarrow> derp_conn \<times> (derp_error + unit)" where
  "http_upgrade host d =
    (case write_all (derp_upgrade_request host) d of
       (d, Inl e) \<Rightarrow> (d, Inl e)
     | (d, Inr _) \<Rightarrow>
        (case derp_head_loop (dc_reads d) [] of
           (rs, Inl e) \<Rightarrow> (d\<lparr>dc_reads := rs\<rparr>, Inl e)
         | (rs, Inr head) \<Rightarrow>
            (let line = takeWhile (\<lambda>b. b \<noteq> 10) head
             in if find_sub line (ascii '' 101 '') = None then (d\<lparr>dc_reads := rs\<rparr>, Inl (DerpUpgradeFailed line))
                else (d\<lparr>dc_reads := rs\<rparr>, Inr ()))))"

definition read_server_key :: "derp_conn \<Rightarrow> derp_conn \<times> (derp_error + bytes)" where
  "read_server_key d =
    (case read_frame d of
       (d, Inl e) \<Rightarrow> (d, Inl e)
     | (d, Inr (typ, payload)) \<Rightarrow>
        if typ \<noteq> FRAME_SERVER_KEY then (d, Inl (WrongFrame typ))
        else if length payload < length DERP_MAGIC + 32 \<or> take (length DERP_MAGIC) payload \<noteq> DERP_MAGIC
        then (d, Inl (BadServerKey (length payload)))
        else (d, Inr (sub payload (length DERP_MAGIC) (length DERP_MAGIC + 32))))"

definition CLIENT_INFO :: bytes where
  "CLIENT_INFO = ascii (CHR 0x7B # CHR 0x22 # ''version'' @ CHR 0x22 # '':2'' @ [CHR 0x7D])"

definition send_client_info ::
  "box_crypto \<Rightarrow> bytes \<Rightarrow> bytes \<Rightarrow> bytes \<Rightarrow> bytes \<Rightarrow> derp_conn \<Rightarrow> derp_conn \<times> (derp_error + unit)" where
  "send_client_info B node_priv node_pub server_pub nbytes d =
    (case box_encrypt B node_priv server_pub nbytes CLIENT_INFO of
       None \<Rightarrow> (d, Inl ClientInfoSeal)
     | Some ct \<Rightarrow> write_frame FRAME_CLIENT_INFO (node_pub @ nbytes @ ct) d)"

text \<open>\<open>Derp::connect\<close> on a TLS session that \<open>tls_connect\<close> has opened.\<close>

definition derp_connect ::
  "box_crypto \<Rightarrow> string \<Rightarrow> bytes \<Rightarrow> bytes \<Rightarrow> bytes \<Rightarrow> derp_conn \<Rightarrow> derp_conn \<times> (derp_error + unit)" where
  "derp_connect B host node_priv node_pub nbytes d =
    (case http_upgrade host d of
       (d, Inl e) \<Rightarrow> (d, Inl e)
     | (d, Inr _) \<Rightarrow>
        (case read_server_key d of
           (d, Inl e) \<Rightarrow> (d, Inl e)
         | (d, Inr server_pub) \<Rightarrow> send_client_info B node_priv node_pub server_pub nbytes d))"

subsection \<open>The session is an exact reader\<close>

primrec tls_bytes :: "tls_read list \<Rightarrow> bytes" where
  "tls_bytes [] = []"
| "tls_bytes (r # rs) =
    (case r of TlsWant \<Rightarrow> tls_bytes rs | TlsReadFail \<Rightarrow> [] | TlsData d \<Rightarrow> if d = [] then [] else d @ tls_bytes rs)"

lemma read_some_data:
  "tls_bytes rs \<noteq> [] \<Longrightarrow> 0 < n \<Longrightarrow>
   \<exists>rs' d. read_some n rs = (rs', Inr d) \<and> d \<noteq> [] \<and> length d \<le> n \<and> tls_bytes rs = d @ tls_bytes rs'"
  by (induction rs) (auto split: tls_read.splits if_splits)

lemma read_exact_loop_ok:
  "n \<le> length (buf @ tls_bytes rs) \<Longrightarrow> length buf \<le> n \<Longrightarrow>
   \<exists>rs'. read_exact_loop n rs buf = (rs', Inr (take n (buf @ tls_bytes rs))) \<and>
     tls_bytes rs' = drop n (buf @ tls_bytes rs)"
proof (induction n rs buf rule: read_exact_loop.induct)
  case (1 n rs buf)
  show ?case
  proof (cases "n \<le> length buf")
    case True
    then show ?thesis using 1(3) by (subst read_exact_loop.simps) simp
  next
    case False
    then have "tls_bytes rs \<noteq> []" "0 < n - length buf" using 1(2) by auto
    then obtain rs' d where r: "read_some (n - length buf) rs = (rs', Inr d)" "d \<noteq> []" "length d \<le> n - length buf"
        "tls_bytes rs = d @ tls_bytes rs'"
      using read_some_data by blast
    have "read_exact_loop n rs buf = read_exact_loop n rs' (buf @ d)"
      using False r by (subst read_exact_loop.simps) simp
    moreover have "\<exists>rs''. read_exact_loop n rs' (buf @ d) = (rs'', Inr (take n ((buf @ d) @ tls_bytes rs'))) \<and>
        tls_bytes rs'' = drop n ((buf @ d) @ tls_bytes rs')"
      using 1(1) [OF False r(1) [symmetric] refl r(2)] 1(2,3) r(3,4) False by simp
    ultimately show ?thesis using r(4) by simp
  qed
qed

interpretation derp: byte_reader read_exact "\<lambda>_. True" "\<lambda>d. tls_bytes (dc_reads d)"
proof
  fix d :: derp_conn and n
  assume "n \<le> length (tls_bytes (dc_reads d))"
  then show "\<exists>d'. read_exact n d = (d', Inr (take n (tls_bytes (dc_reads d)))) \<and> True \<and>
      tls_bytes (dc_reads d') = drop n (tls_bytes (dc_reads d))"
    using read_exact_loop_ok [of n "[]" "dc_reads d"] by (auto simp: read_exact_def)
qed

subsection \<open>Frames read back\<close>

definition enc_derp_frame :: "u8 \<times> bytes \<Rightarrow> bytes" where
  "enc_derp_frame f = fst f # to_be_bytes (of_nat (length (snd f)) :: u32) @ snd f"

lemma read_exact_keeps: "read_exact n d = (d', r) \<Longrightarrow> dc_writes d' = dc_writes d \<and> dc_sent d' = dc_sent d"
  by (auto simp: read_exact_def split: prod.splits)

lemma derp_frame_next:
  assumes "tls_bytes (dc_reads d) = enc_derp_frame f @ rest" and "length (snd f) \<le> MAX_FRAME"
  shows "\<exists>d'. read_frame d = (d', Inr f) \<and> tls_bytes (dc_reads d') = rest \<and>
    dc_writes d' = dc_writes d \<and> dc_sent d' = dc_sent d"
proof -
  let ?hdr = "fst f # to_be_bytes (of_nat (length (snd f)) :: u32)"
  have hdr: "[?hdr ! 1, ?hdr ! 2, ?hdr ! 3, ?hdr ! 4] = to_be_bytes (of_nat (length (snd f)) :: u32)"
    by (simp add: to_be_bytes_32)
  obtain d1 d2 where d: "read_exact 5 d = (d1, Inr ?hdr)" "tls_bytes (dc_reads d1) = snd f @ rest"
      "read_exact (length (snd f)) d1 = (d2, Inr (snd f))" "tls_bytes (dc_reads d2) = rest"
    using derp.rd_framed [of d ?hdr "snd f" rest 5 "length (snd f)"] assms(1) by (auto simp: enc_derp_frame_def)
  have l: "unat (from_be_bytes [?hdr ! 1, ?hdr ! 2, ?hdr ! 3, ?hdr ! 4] :: u32) = length (snd f)"
    unfolding hdr bytes_roundtrip using assms(2) by (simp add: unat_of_nat MAX_FRAME_def)
  show ?thesis
    using d l assms(2) read_exact_keeps [OF d(1)] read_exact_keeps [OF d(3)]
    by (cases f) (auto simp: read_frame_def Let_def)
qed

lemma write_loop_sent: "write_loop ws sent buf = (ws', sent', Inr ()) \<Longrightarrow> sent' = sent @ buf"
  by (induction ws arbitrary: sent buf) (auto split: if_splits tls_write.splits, metis append.assoc append_take_drop_id)

lemma write_frame_sent: "write_frame typ p d = (d', Inr ()) \<Longrightarrow> dc_sent d' = dc_sent d @ enc_derp_frame (typ, p)"
  by (auto simp: write_frame_def write_all_def enc_derp_frame_def Let_def dest!: write_loop_sent
      split: prod.splits sum.splits if_splits)

primrec write_frames :: "(u8 \<times> bytes) list \<Rightarrow> derp_conn \<Rightarrow> derp_conn \<times> (derp_error + unit)" where
  "write_frames [] d = (d, Inr ())"
| "write_frames (f # fs) d =
    (case write_frame (fst f) (snd f) d of (d, Inl e) \<Rightarrow> (d, Inl e) | (d, Inr _) \<Rightarrow> write_frames fs d)"

primrec read_derp_frames :: "nat \<Rightarrow> derp_conn \<Rightarrow> derp_conn \<times> (derp_error + (u8 \<times> bytes) list)" where
  "read_derp_frames 0 d = (d, Inr [])"
| "read_derp_frames (Suc n) d =
    (case read_frame d of
       (d, Inl e) \<Rightarrow> (d, Inl e)
     | (d, Inr f) \<Rightarrow>
        (case read_derp_frames n d of (d, Inl e) \<Rightarrow> (d, Inl e) | (d, Inr fs) \<Rightarrow> (d, Inr (f # fs))))"

lemma write_frames_sent:
  "write_frames fs d = (d', Inr ()) \<Longrightarrow> dc_sent d' = dc_sent d @ concat (map enc_derp_frame fs)"
proof (induction fs arbitrary: d)
  case (Cons f fs)
  then obtain d1 where "write_frame (fst f) (snd f) d = (d1, Inr ())" "write_frames fs d1 = (d', Inr ())"
    by (auto split: prod.splits sum.splits)
  with Cons.IH show ?case using write_frame_sent by fastforce
qed simp

lemma read_derp_frames_all:
  assumes "tls_bytes (dc_reads d) = concat (map enc_derp_frame fs) @ rest" and "\<forall>f \<in> set fs. length (snd f) \<le> MAX_FRAME"
  shows "\<exists>d'. read_derp_frames (length fs) d = (d', Inr fs) \<and> tls_bytes (dc_reads d') = rest"
  using assms
proof (induction fs arbitrary: d)
  case (Cons f fs)
  obtain d1 where 1: "read_frame d = (d1, Inr f)" "tls_bytes (dc_reads d1) = concat (map enc_derp_frame fs) @ rest"
    using derp_frame_next [of d f] Cons.prems by auto
  with Cons.IH [OF 1(2)] Cons.prems(2) show ?case by auto
qed simp

subsection \<open>Reading the upgrade response\<close>

text \<open>A response head: it ends with an empty line, and no shorter prefix does.\<close>

definition is_head :: "bytes \<Rightarrow> bytes \<Rightarrow> bool" where
  "is_head head h \<longleftrightarrow> h \<noteq> [] \<and> ends_with (head @ h) [13, 10, 13, 10] \<and>
     list_all (\<lambda>k. \<not> ends_with (head @ take k h) [13, 10, 13, 10]) [1..<length h]"

lemma is_head_Cons:
  assumes "is_head head (b # h)" and "h \<noteq> []"
  shows "is_head (head @ [b]) h" and "\<not> ends_with (head @ [b]) [13, 10, 13, 10]"
proof -
  have n: "\<not> ends_with (head @ take k (b # h)) [13, 10, 13, 10]" if "1 \<le> k" "k < length (b # h)" for k
    using assms(1) that by (auto simp: is_head_def list_all_iff simp del: upt_Suc)
  show "\<not> ends_with (head @ [b]) [13, 10, 13, 10]" using n [of 1] assms(2) by (cases h) simp_all
  have "\<not> ends_with ((head @ [b]) @ take k h) [13, 10, 13, 10]" if "1 \<le> k" "k < length h" for k
    using n [of "Suc k"] that by simp
  then show "is_head (head @ [b]) h" using assms by (auto simp: is_head_def list_all_iff simp del: upt_Suc)
qed

lemma derp_head_loop_ok:
  assumes "tls_bytes rs = h @ rest" and "is_head head h" and "length (head @ h) \<le> 4097"
  shows "\<exists>rs'. derp_head_loop rs head = (rs', Inr (head @ h)) \<and> tls_bytes rs' = rest"
  using assms
proof (induction h arbitrary: rs head)
  case (Cons b h)
  obtain rs' d where "read_some 1 rs = (rs', Inr d)" "d \<noteq> []" "length d \<le> 1" "tls_bytes rs = d @ tls_bytes rs'"
    using read_some_data [of rs 1] Cons.prems(1) by auto
  then have r: "read_some (Suc 0) rs = (rs', Inr [b])" "tls_bytes rs' = h @ rest"
    using Cons.prems(1) by (cases d; simp)+
  show ?case
  proof (cases "h = []")
    case True
    then show ?thesis using r Cons.prems(2) by (subst derp_head_loop.simps) (simp add: is_head_def)
  next
    case False
    note n = is_head_Cons [OF Cons.prems(2) False]
    have "derp_head_loop rs head = derp_head_loop rs' (head @ [b])"
      using r n(2) Cons.prems(3) False by (subst derp_head_loop.simps) (cases h, auto)
    then show ?thesis using Cons.IH [OF r(2) n(1)] Cons.prems(3) by simp
  qed
qed (simp add: is_head_def)

subsection \<open>Writing\<close>

text \<open>How many more calls will take at least a byte.\<close>

primrec tls_turns :: "tls_write list \<Rightarrow> nat" where
  "tls_turns [] = 0"
| "tls_turns (r # ws) =
    (case r of TlsWantW \<Rightarrow> tls_turns ws | TlsWriteFail \<Rightarrow> 0 | TlsWrote n \<Rightarrow> if n = 0 then 0 else Suc (tls_turns ws))"

lemma write_loop_ok:
  "length buf \<le> tls_turns ws \<Longrightarrow>
   \<exists>ws'. write_loop ws sent buf = (ws', sent @ buf, Inr ()) \<and> tls_turns ws \<le> tls_turns ws' + length buf"
proof (induction ws arbitrary: sent buf)
  case (Cons r ws)
  show ?case
  proof (cases "buf = []")
    case False
    show ?thesis
    proof (cases r)
      case (TlsWrote n)
      then have n: "0 < n" "length (drop n buf) \<le> tls_turns ws" using Cons.prems False by (auto split: if_splits)
      from Cons.IH [OF n(2), of "sent @ take n buf"] obtain ws' where
        w: "write_loop ws (sent @ take n buf) (drop n buf) = (ws', (sent @ take n buf) @ drop n buf, Inr ())"
          "tls_turns ws \<le> tls_turns ws' + length (drop n buf)" by blast
      have "Suc (length (drop n buf)) \<le> length buf" using n(1) False by (cases buf) auto
      with w n(1) TlsWrote False show ?thesis by (intro exI [of _ ws']) auto
    qed (use Cons False in auto)
  qed simp
qed simp

lemma write_all_ok:
  assumes "length buf \<le> tls_turns (dc_writes d)"
  shows "\<exists>d'. write_all buf d = (d', Inr ()) \<and> dc_sent d' = dc_sent d @ buf \<and> dc_reads d' = dc_reads d \<and>
    tls_turns (dc_writes d) \<le> tls_turns (dc_writes d') + length buf"
  using write_loop_ok [OF assms, of "dc_sent d"] by (auto simp: write_all_def)

lemma write_frame_ok:
  assumes "length p + 5 \<le> tls_turns (dc_writes d)"
  shows "\<exists>d'. write_frame typ p d = (d', Inr ()) \<and> dc_sent d' = dc_sent d @ enc_derp_frame (typ, p) \<and> dc_reads d' = dc_reads d"
proof -
  let ?h = "typ # to_be_bytes (of_nat (length p) :: u32)"
  obtain d1 where 1: "write_all ?h d = (d1, Inr ())" "dc_reads d1 = dc_reads d"
      "tls_turns (dc_writes d) \<le> tls_turns (dc_writes d1) + 5" "dc_sent d1 = dc_sent d @ ?h"
    using write_all_ok [of ?h d] assms by auto
  obtain d2 where 2: "write_all p d1 = (d2, Inr ())" "dc_sent d2 = dc_sent d1 @ p" "dc_reads d2 = dc_reads d1"
    using write_all_ok [of p d1] assms 1(3) by auto
  show ?thesis using 1 2 by (auto simp: write_frame_def enc_derp_frame_def)
qed

subsection \<open>Properties\<close>

text \<open>
  C30. Relay frames are read back as they were written: when the frames \<open>fs\<close> (of at most 64 KiB)
  have been written to one end, the other end, however TLS cuts and delays the bytes, reads
  exactly \<open>fs\<close>, in order, and leaves what follows them.
\<close>

theorem derp_frames_read_back:
  assumes "write_frames fs d = (d', Inr ())" and "dc_sent d = []" and "list_all (\<lambda>f. length (snd f) \<le> MAX_FRAME) fs"
    and "tls_bytes (dc_reads c) = dc_sent d' @ rest"
  shows "\<exists>c'. read_derp_frames (length fs) c = (c', Inr fs) \<and> tls_bytes (dc_reads c') = rest"
  using read_derp_frames_all [of c fs rest] write_frames_sent [OF assms(1)] assms(2-) by (simp add: list_all_iff)

theorem derp_frames_read_back_witness:
  "\<exists>c'. read_derp_frames 2 \<lparr>dc_reads = [TlsData [6, 0], TlsWant, TlsData [0, 0, 0, 4, 0, 0, 0], TlsData [1, 9, 7]],
     dc_writes = [], dc_sent = []\<rparr> = (c', Inr [(6, []), (4, [9])])"
proof -
  let ?d = "\<lparr>dc_reads = [], dc_writes = [TlsWrote 3, TlsWantW, TlsWrote 2, TlsWrote 5, TlsWrote 1], dc_sent = []\<rparr>"
  have "write_frames [(6, []), (4, [9])] ?d =
      (?d\<lparr>dc_writes := [], dc_sent := [6, 0, 0, 0, 0, 4, 0, 0, 0, 1, 9]\<rparr>, Inr ())"
    by (simp add: write_frame_def write_all_def to_be_bytes_32)
  from derp_frames_read_back [OF this, of "\<lparr>dc_reads = [TlsData [6, 0], TlsWant, TlsData [0, 0, 0, 4, 0, 0, 0], TlsData [1, 9, 7]],
     dc_writes = [], dc_sent = []\<rparr>" "[7]"]
  show ?thesis unfolding numeral_2_eq_2 by (auto simp: MAX_FRAME_def simp del: read_derp_frames.simps)
qed

text \<open>
  C31. Joining the relay succeeds against a server that follows the protocol: if the server
  answers the upgrade with a 101 head of at most 4096 bytes and then announces its key, and the
  session takes what is written, then \<open>connect\<close> succeeds; it has sent the upgrade request
  and one client-info frame that names our node key and whose box the server can open; and no
  byte after the server's key frame is lost, even if it came with the head.
\<close>

theorem derp_connect_joins:
  assumes "box_crypto_ok B" and "length nonce = 24" and "is_head [] head" and "length head \<le> 4096"
    and "find_sub (takeWhile (\<lambda>b. b \<noteq> 10) head) (ascii '' 101 '') \<noteq> None"
    and "tls_bytes (dc_reads d) = head @ enc_derp_frame (FRAME_SERVER_KEY, DERP_MAGIC @ box_public B server @ extra) @ rest"
    and "length extra \<le> 1000" and "dc_sent d = []"
    and "box_encrypt B node (box_public B server) nonce CLIENT_INFO = Some ct"
    and "length host + length ct + 1000 \<le> tls_turns (dc_writes d)"
  shows "\<exists>d'. derp_connect B host node (box_public B node) nonce d = (d', Inr ()) \<and>
    dc_sent d' = derp_upgrade_request host @ enc_derp_frame (FRAME_CLIENT_INFO, box_public B node @ nonce @ ct) \<and>
    box_decrypt B server (box_public B node) nonce ct = Some CLIENT_INFO \<and> tls_bytes (dc_reads d') = rest"
proof -
  have pub: "length (box_public B x) = 32" for x using assms(1) by (simp add: box_crypto_ok_def)
  have open': "box_decrypt B server (box_public B node) nonce ct = Some CLIENT_INFO"
    using assms(1,2,9) by (auto simp: box_crypto_ok_def)
  have lr: "length (derp_upgrade_request host) = length host + 66" by (simp add: derp_upgrade_request_def)
  obtain d1 where 1: "write_all (derp_upgrade_request host) d = (d1, Inr ())" "dc_sent d1 = derp_upgrade_request host"
      "dc_reads d1 = dc_reads d" "tls_turns (dc_writes d) \<le> tls_turns (dc_writes d1) + (length host + 66)"
    using write_all_ok [of "derp_upgrade_request host" d] assms(8,10) lr by auto
  let ?key = "(FRAME_SERVER_KEY, DERP_MAGIC @ box_public B server @ extra)"
  obtain rs where 2: "derp_head_loop (dc_reads d1) [] = (rs, Inr head)" "tls_bytes rs = enc_derp_frame ?key @ rest"
    using derp_head_loop_ok [of "dc_reads d1" head "enc_derp_frame ?key @ rest" "[]"] 1(3) assms(3,4,6) by auto
  have u: "http_upgrade host d = (d1\<lparr>dc_reads := rs\<rparr>, Inr ())"
    using 1 2 assms(5) by (auto simp: http_upgrade_def Let_def)
  obtain d2 where 3: "read_frame (d1\<lparr>dc_reads := rs\<rparr>) = (d2, Inr ?key)" "tls_bytes (dc_reads d2) = rest"
      "dc_writes d2 = dc_writes d1" "dc_sent d2 = dc_sent d1"
    using derp_frame_next [of "d1\<lparr>dc_reads := rs\<rparr>" ?key rest] 2(2) assms(7)
    by (auto simp: pub MAX_FRAME_def DERP_MAGIC_def)
  have k: "read_server_key (d1\<lparr>dc_reads := rs\<rparr>) = (d2, Inr (box_public B server))"
    using 3(1) by (simp add: read_server_key_def pub sub_def)
  let ?p = "box_public B node @ nonce @ ct"
  have "length ?p + 5 \<le> tls_turns (dc_writes d2)" using 1(4) 3(3) assms(2,10) pub by simp
  from write_frame_ok [OF this, of FRAME_CLIENT_INFO] obtain d3 where
    "write_frame FRAME_CLIENT_INFO ?p d2 = (d3, Inr ())" "dc_sent d3 = dc_sent d2 @ enc_derp_frame (FRAME_CLIENT_INFO, ?p)"
    "dc_reads d3 = dc_reads d2" by blast
  with u k open' 1(2) 3 assms(9) show ?thesis by (auto simp: derp_connect_def send_client_info_def)
qed

definition toy_head :: bytes where
  "toy_head = ascii ''HTTP/1.1 101 Switching Protocols'' @ [13, 10, 13, 10]"

lemma toy_head_ok: "is_head [] toy_head" "find_sub (takeWhile (\<lambda>b. b \<noteq> 10) toy_head) (ascii '' 101 '') \<noteq> None"
proof -
  show "is_head [] toy_head" by (simp add: is_head_def toy_head_def ascii_def ends_with_def upt_rec)
  show "find_sub (takeWhile (\<lambda>b. b \<noteq> 10) toy_head) (ascii '' 101 '') \<noteq> None"
    by (simp add: toy_head_def ascii_def find_sub_def)
qed

theorem derp_connect_joins_witness:
  "\<exists>d'. derp_connect toy_box ''derp1f.tailscale.com'' [1] (box_public toy_box [1]) (replicate 24 0)
     \<lparr>dc_reads = [TlsData (toy_head @ enc_derp_frame (FRAME_SERVER_KEY, DERP_MAGIC @ box_public toy_box [2]))],
      dc_writes = replicate 2000 (TlsWrote 7), dc_sent = []\<rparr> = (d', Inr ())"
proof -
  have "tls_turns (replicate n (TlsWrote 7)) = n" for n by (induction n) simp_all
  moreover have "box_encrypt toy_box [1] (box_public toy_box [2]) (replicate 24 0) CLIENT_INFO = Some (CLIENT_INFO @ replicate 16 0)"
    by (simp add: toy_box_def)
  ultimately show ?thesis
    using derp_connect_joins [of toy_box "replicate 24 0" toy_head
      "\<lparr>dc_reads = [TlsData (toy_head @ enc_derp_frame (FRAME_SERVER_KEY, DERP_MAGIC @ box_public toy_box [2]))],
      dc_writes = replicate 2000 (TlsWrote 7), dc_sent = []\<rparr>" "[2]" "[]" "[]" "[1]" _ "''derp1f.tailscale.com''"]
      toy_box_ok toy_head_ok
    by (auto simp: toy_head_def CLIENT_INFO_def)
qed

end
