(* ===== verification/Derp.thy ===== *)
theory Derp
  imports Dataplane Derp_Stream
begin

text \<open>
  \<^verbatim>\<open>src/derp.rs\<close>, the relay responder (\<open>serve\<close>, \<open>try_upgrade\<close>, \<open>handle_inner\<close>): frames from the
  relay carry disco and WireGuard packets of peers named by their node keys; the device
  answers as WireGuard responder and offers each new peer a direct path once. What a frame
  makes the device do is a list of packets given to \<open>send_packet\<close> and targets given to the
  UDP data plane; \<open>derp_serve\<close> runs over the connection of \<open>Derp_Stream\<close>. Random draws are
  the record \<open>derp_rand\<close>, one per frame.
\<close>

record derp_peer =
  pe_tun :: tunnel
  pe_tcp :: tcp_server

record upgrade =
  up_our_endpoints :: "socket_addr list"
  up_peers :: "peer_dir list"

record derp_state =
  ds_peers :: "(bytes \<times> derp_peer) list"
  ds_upgraded :: "bytes set"

record derp_rand =
  dr_index :: u32
  dr_eph :: bytes
  dr_iss :: u32
  dr_nonce :: bytes
  dr_upgrade_nonce :: bytes

datatype derp_out = Relay bytes bytes | NewTarget target

definition hex_digit :: "nat \<Rightarrow> char" where
  "hex_digit n = char_of (if n < 10 then 48 + n else 87 + n)"

definition hex8 :: "bytes \<Rightarrow> string" where
  "hex8 b = concat (map (\<lambda>x. [hex_digit (unat x div 16), hex_digit (unat x mod 16)]) (take 8 b))"

definition derp_target :: "bytes \<Rightarrow> bytes \<Rightarrow> socket_addr list \<Rightarrow> target" where
  "derp_target src disco_pub endpoints =
    \<lparr>tg_name = ''derp:'' @ hex8 src, tg_disco_pub = disco_pub, tg_node_pub = src, tg_endpoints = endpoints, tg_spray = True\<rparr>"

definition try_upgrade :: "node_cfg \<Rightarrow> derp_rand \<Rightarrow> upgrade \<Rightarrow> bytes \<Rightarrow> derp_out list panics" where
  "try_upgrade cf rn up src =
    (case List.find (\<lambda>p. pd_node_pub p = src) (up_peers up) of
       None \<Rightarrow> Some []
     | Some peer \<Rightarrow>
       if pd_endpoints peer = [] \<and> up_our_endpoints up = [] then Some [] else do {
       cmm \<leftarrow> call_me_maybe_plaintext (up_our_endpoints up);
       let sends = (case disco_seal (cf_box cf) (id_disco_priv (cf_id cf)) (id_disco_pub (cf_id cf)) (pd_disco_pub peer)
                      cmm (dr_upgrade_nonce rn) of Inr wire \<Rightarrow> [Relay src wire] | Inl err \<Rightarrow> []);
       Some (sends @ [NewTarget (derp_target src (pd_disco_pub peer) (pd_endpoints peer))])
       })"

definition handle_inner ::
  "node_cfg \<Rightarrow> derp_rand \<Rightarrow> derp_peer \<Rightarrow> bytes \<Rightarrow> bytes \<Rightarrow> (derp_peer \<times> derp_out list) panics" where
  "handle_inner cf rn p src inner = do {
     ping \<leftarrow> (if ft_icmp (cf_features cf) then echo_reply_any inner else Some None);
     case ping of
       Some reply \<Rightarrow> (let (tun, w) = encrypt (cf_wg cf) (pe_tun p) reply in Some (p\<lparr>pe_tun := tun\<rparr>, [Relay src w]))
     | None \<Rightarrow>
       if ft_http_server (cf_features cf) then do {
         (srv, replies) \<leftarrow> handle (pe_tcp p) (dr_iss rn) inner;
         let (tun, ws) = encrypt_all (cf_wg cf) (pe_tun p) replies;
         Some (p\<lparr>pe_tun := tun, pe_tcp := srv\<rparr>, map (Relay src) ws) }
       else Some (p, [])
   }"

text \<open>Disco over the relay: a ping is answered with an empty address, fresh endpoints are passed on.\<close>

definition derp_disco :: "node_cfg \<Rightarrow> derp_rand \<Rightarrow> upgrade option \<Rightarrow> bytes \<Rightarrow> bytes \<Rightarrow> derp_out list panics" where
  "derp_disco cf rn up src pkt = do {
     r \<leftarrow> disco_open (cf_box cf) (id_disco_priv (cf_id cf)) pkt;
     case r of
       Inl err \<Rightarrow> Some []
     | Inr msg \<Rightarrow>
       if inc_msg_type msg = PING then do {
         pong \<leftarrow> pong_plaintext (inc_txid msg) (V4 0 0);
         Some (case disco_seal (cf_box cf) (id_disco_priv (cf_id cf)) (id_disco_pub (cf_id cf))
                 (inc_sender_disco_pub msg) pong (dr_nonce rn) of Inr wire \<Rightarrow> [Relay src wire] | Inl err \<Rightarrow> []) }
       else if inc_msg_type msg = CALL_ME_MAYBE \<and> inc_endpoints msg \<noteq> [] then
         Some (case up of None \<Rightarrow> [] | Some _ \<Rightarrow> [NewTarget (derp_target src (inc_sender_disco_pub msg) (inc_endpoints msg))])
       else Some []
   }"

definition derp_wg ::
  "node_cfg \<Rightarrow> derp_rand \<Rightarrow> derp_state \<Rightarrow> bytes \<Rightarrow> bytes \<Rightarrow> (derp_state \<times> derp_out list) panics" where
  "derp_wg cf rn st src pkt =
    (case pkt of
       [] \<Rightarrow> Some (st, [])
     | x # _ \<Rightarrow>
       if x = MSG_INITIATION then do {
         r \<leftarrow> consume_initiation (cf_wg cf) (id_node_priv (cf_id cf)) (id_node_pub (cf_id cf)) pkt (dr_index rn) (dr_eph rn);
         case r of
           Inr (resp, tun, peer_static) \<Rightarrow>
             Some (st\<lparr>ds_peers := AList.update src \<lparr>pe_tun = tun, pe_tcp = tcp_server_new\<rparr> (ds_peers st)\<rparr>, [Relay src resp])
         | Inl err \<Rightarrow> Some (st, []) }
       else if x = MSG_TRANSPORT then
         (case map_of (ds_peers st) src of
            None \<Rightarrow> Some (st, [])
          | Some p \<Rightarrow> do {
              r \<leftarrow> decrypt (cf_wg cf) (pe_tun p) pkt;
              case r of
                Inl err \<Rightarrow> Some (st, [])
              | Inr inner \<Rightarrow>
                if inner = [] then Some (st, []) else do {
                allowed \<leftarrow> src_allowed (id_allowed_srcs (cf_id cf)) inner;
                if \<not> allowed then Some (st, []) else do {
                (p, out) \<leftarrow> handle_inner cf rn p src inner;
                Some (st\<lparr>ds_peers := AList.update src p (ds_peers st)\<rparr>, out) }} })
       else Some (st, []))"

text \<open>The first packet of a peer over this connection starts an upgrade.\<close>

definition first_contact ::
  "node_cfg \<Rightarrow> derp_rand \<Rightarrow> upgrade option \<Rightarrow> derp_state \<Rightarrow> bytes \<Rightarrow> (derp_state \<times> derp_out list) panics" where
  "first_contact cf rn up st src =
    (case up of
       None \<Rightarrow> Some (st, [])
     | Some u \<Rightarrow>
       if src \<in> ds_upgraded st then Some (st, []) else do {
         out \<leftarrow> try_upgrade cf rn u src;
         Some (st\<lparr>ds_upgraded := insert src (ds_upgraded st)\<rparr>, out) })"

text \<open>The body of \<open>serve\<close>'s loop after \<open>read_frame\<close>.\<close>

definition derp_frame ::
  "node_cfg \<Rightarrow> upgrade option \<Rightarrow> derp_state \<Rightarrow> derp_rand \<times> u8 \<times> bytes \<Rightarrow> (derp_state \<times> derp_out list) panics" where
  "derp_frame cf up st f =
    (case f of (rn, typ, payload) \<Rightarrow>
     if typ \<noteq> FRAME_RECV_PACKET \<or> length payload < 32 then Some (st, []) else do {
     src \<leftarrow> subslice payload 0 32;
     pkt \<leftarrow> subslice payload 32 (length payload);
     if pkt = [] then Some (st, []) else do {
     (st, out) \<leftarrow> first_contact cf rn up st src;
     disco \<leftarrow> is_disco pkt;
     if disco then do { out' \<leftarrow> derp_disco cf rn up src pkt; Some (st, out @ out') }
     else do { (st, out') \<leftarrow> derp_wg cf rn st src pkt; Some (st, out @ out') }
     }})"

definition derp_state_new :: derp_state where
  "derp_state_new = \<lparr>ds_peers = [], ds_upgraded = {}\<rparr>"

text \<open>The packets go to the relay, whether or not the write succeeds; the targets to the data plane.\<close>

definition derp_send :: "derp_out list \<Rightarrow> derp_conn \<Rightarrow> derp_conn" where
  "derp_send outs d = fold (\<lambda>x d. case x of Relay dst pkt \<Rightarrow> fst (send_packet dst pkt d) | NewTarget t \<Rightarrow> d) outs d"

definition new_targets :: "derp_out list \<Rightarrow> target list" where
  "new_targets outs = List.map_filter (\<lambda>x. case x of Relay dst pkt \<Rightarrow> None | NewTarget t \<Rightarrow> Some t) outs"

primrec tls_size :: "tls_read list \<Rightarrow> nat" where
  "tls_size [] = 0"
| "tls_size (r # rs) = (case r of TlsData d \<Rightarrow> length d | TlsWant \<Rightarrow> 0 | TlsReadFail \<Rightarrow> 0) + tls_size rs"

lemma read_some_size: "read_some n rs = (rs', Inr d) \<Longrightarrow> tls_size rs' + length d \<le> tls_size rs"
  by (induction rs) (auto split: tls_read.splits if_splits)

lemma read_exact_loop_size:
  "read_exact_loop n rs buf = (rs', Inr d) \<Longrightarrow> tls_size rs' + length d \<le> tls_size rs + length buf \<and> n \<le> length d"
proof (induction n rs buf rule: read_exact_loop.induct)
  case (1 n rs buf)
  show ?case
  proof (cases "n \<le> length buf")
    case True
    then show ?thesis using 1(2) by (subst (asm) read_exact_loop.simps) simp
  next
    case False
    then obtain rs1 e where r: "read_some (n - length buf) rs = (rs1, Inr e)" "e \<noteq> []"
        "read_exact_loop n rs1 (buf @ e) = (rs', Inr d)"
      using 1(2) by (subst (asm) read_exact_loop.simps) (auto split: prod.splits sum.splits if_splits)
    from 1(1) [OF False r(1) [symmetric] refl r(2,3)] read_some_size [OF r(1)] show ?thesis by simp
  qed
qed

lemma read_exact_size:
  "read_exact n d = (d', Inr b) \<Longrightarrow> tls_size (dc_reads d') + n \<le> tls_size (dc_reads d)"
  using read_exact_loop_size [of n "dc_reads d" "[]"] by (fastforce simp: read_exact_def split: prod.splits)

lemma read_frame_size: "read_frame d = (d', Inr f) \<Longrightarrow> tls_size (dc_reads d') < tls_size (dc_reads d)"
  by (fastforce simp: read_frame_def Let_def dest!: read_exact_size split: prod.splits sum.splits if_splits)

lemma write_all_reads: "dc_reads (fst (write_all b d)) = dc_reads d"
  by (simp add: write_all_def split: prod.splits)

lemma send_packet_reads: "dc_reads (fst (send_packet dst p d)) = dc_reads d"
  using write_all_reads
  by (auto simp: send_packet_def write_frame_def Let_def split: prod.splits sum.splits) (metis fst_conv)+

lemma derp_send_reads: "dc_reads (derp_send outs d) = dc_reads d"
  by (induction outs arbitrary: d) (auto simp: derp_send_def send_packet_reads split: derp_out.splits)

text \<open>The loop of \<open>serve\<close>: it ends when reading a frame fails.\<close>

function derp_serve ::
  "node_cfg \<Rightarrow> upgrade option \<Rightarrow> (nat \<Rightarrow> derp_rand) \<Rightarrow> nat \<Rightarrow> derp_state \<Rightarrow> derp_conn \<Rightarrow>
   (derp_state \<times> derp_conn \<times> target list) panics" where
  "derp_serve cf up rns n st d =
    (case read_frame d of
       (d, Inl e) \<Rightarrow> Some (st, d, [])
     | (d, Inr f) \<Rightarrow> do {
         (st, out) \<leftarrow> derp_frame cf up st (rns n, f);
         (st, d, ts) \<leftarrow> derp_serve cf up rns (Suc n) st (derp_send out d);
         Some (st, d, new_targets out @ ts)
       })"
  by pat_completeness auto
termination
  by (relation "measure (\<lambda>(cf, up, rns, n, st, d). tls_size (dc_reads d))")
    (auto simp: derp_send_reads dest: read_frame_size [OF sym])

declare derp_serve.simps [simp del]

subsection \<open>One frame\<close>

text \<open>
  What may leave the device because of a frame from \<open>src\<close>: well-formed packets back to
  \<open>src\<close>, and a target for the data plane that is \<open>src\<close>.
\<close>

fun relay_ok :: "bytes \<Rightarrow> derp_out \<Rightarrow> bool" where
  "relay_ok src (Relay dst pkt) \<longleftrightarrow> dst = src \<and> datagram_ok pkt"
| "relay_ok src (NewTarget t) \<longleftrightarrow> tg_node_pub t = src \<and> tg_spray t"

definition peers_step :: "bytes \<Rightarrow> derp_state \<Rightarrow> derp_state \<Rightarrow> bool" where
  "peers_step src st st' \<longleftrightarrow> (distinct (map fst (ds_peers st)) \<longrightarrow> distinct (map fst (ds_peers st'))) \<and>
     (\<exists>v. map_of (ds_peers st') = (map_of (ds_peers st))(src := v))"

lemma peers_step_refl [simp]: "peers_step src st st"
  by (auto simp: peers_step_def intro: fun_upd_triv [symmetric])

lemma peers_step_upgraded [simp]:
  "peers_step src (st\<lparr>ds_upgraded := u\<rparr>) st' = peers_step src st st'"
  "peers_step src st (st'\<lparr>ds_upgraded := u\<rparr>) = peers_step src st st'"
  by (simp_all add: peers_step_def)

lemma peers_step_update: "peers_step src st (st\<lparr>ds_peers := AList.update src p (ds_peers st)\<rparr>)"
  by (auto simp: peers_step_def distinct_update update_conv')

lemma seal_datagram: "disco_seal B a p q pt n = Inr w \<Longrightarrow> datagram_ok w"
  by (auto simp: disco_seal_def datagram_ok_def is_disco_eq split: option.splits)

lemma try_upgrade_ok: "\<exists>out. try_upgrade cf rn up src = Some out \<and> list_all (relay_ok src) out"
  by (auto simp: try_upgrade_def call_me_maybe_plaintext_def extend_addrs_eq derp_target_def dest: seal_datagram
      split: option.split sum.split)

lemma derp_disco_ok: "\<exists>out. derp_disco cf rn up src pkt = Some out \<and> list_all (relay_ok src) out"
  by (auto simp: derp_disco_def disco_open_eq pong_plaintext_def addr_to_bytes_eq derp_target_def dest: seal_datagram
      split: option.split sum.split)

lemma handle_inner_ok:
  assumes ok: "wg_crypto_lengths (cf_wg cf)"
  shows "\<exists>p' out. handle_inner cf rn p src inner = Some (p', out) \<and> list_all (relay_ok src) out"
proof -
  have one: "datagram_ok w" if "encrypt (cf_wg cf) t r = (t', w)" for t r t' w
    using encrypt_all_sends(2) [OF ok, of t "[r]" t' "[w]"] that by simp
  have all: "list_all (relay_ok src) (map (Relay src) ws)" if "encrypt_all (cf_wg cf) t rs = (t', ws)" for t rs t' ws
    using encrypt_all_sends(2) [OF ok that] by (auto simp: list_all_iff)
  show ?thesis
    by (auto simp: handle_inner_def echo_reply_any_eq handle_eq dest: one all split: option.split prod.split)
qed

lemma derp_wg_ok:
  assumes ok: "identity_ok cf"
  shows "\<exists>st' out. derp_wg cf rn st src pkt = Some (st', out) \<and> list_all (relay_ok src) out \<and> peers_step src st st'"
proof -
  have len: "wg_crypto_lengths (cf_wg cf)" using ok by (simp add: identity_ok_def)
  obtain r where r: "consume_initiation (cf_wg cf) (id_node_priv (cf_id cf)) (id_node_pub (cf_id cf)) pkt (dr_index rn) (dr_eph rn) = Some r"
      "\<And>resp t s. r = Inr (resp, t, s) \<Longrightarrow> length resp = 92 \<and> resp ! 0 = MSG_RESPONSE"
    using consume_initiation_total [OF len] by blast
  have h: "\<exists>p' out. handle_inner cf rn p src inner = Some (p', out) \<and> list_all (relay_ok src) out" for p inner
    by (rule handle_inner_ok [OF len])
  show ?thesis
  proof (cases pkt)
    case (Cons x xs)
    consider "x = MSG_INITIATION" | "x = MSG_TRANSPORT" "x \<noteq> MSG_INITIATION" | "x \<noteq> MSG_INITIATION" "x \<noteq> MSG_TRANSPORT" by blast
    then show ?thesis
    proof cases
      case 1
      then show ?thesis using Cons r
        by (cases r) (auto simp: derp_wg_def datagram_ok_def peers_step_update)
    next
      case 2
      show ?thesis
      proof (cases "map_of (ds_peers st) src")
        case (Some p)
        obtain d where d: "decrypt (cf_wg cf) (pe_tun p) pkt = Some d" by (simp add: decrypt_eq)
        show ?thesis
        proof (cases d)
          case (Inr inner)
          obtain p' out where "handle_inner cf rn p src inner = Some (p', out)" "list_all (relay_ok src) out" using h by blast
          then show ?thesis using 2 Cons Some d Inr by (auto simp: derp_wg_def src_allowed_eq peers_step_update)
        qed (use 2 Cons Some d in \<open>simp add: derp_wg_def\<close>)
      qed (use 2 Cons in \<open>simp add: derp_wg_def\<close>)
    qed (use Cons in \<open>simp add: derp_wg_def\<close>)
  qed (simp add: derp_wg_def)
qed

lemma first_contact_ok:
  "\<exists>st' out. first_contact cf rn up st src = Some (st', out) \<and> list_all (relay_ok src) out \<and> ds_peers st' = ds_peers st"
proof (cases up)
  case (Some u)
  obtain out where "try_upgrade cf rn u src = Some out" "list_all (relay_ok src) out" using try_upgrade_ok by blast
  then show ?thesis using Some by (simp add: first_contact_def)
qed (simp add: first_contact_def)

lemma derp_frame_ok:
  assumes ok: "identity_ok cf"
  shows "\<exists>st' out. derp_frame cf up st (rn, typ, payload) = Some (st', out) \<and>
    list_all (relay_ok (take 32 payload)) out \<and> peers_step (take 32 payload) st st'"
proof (cases "typ = FRAME_RECV_PACKET \<and> 32 < length payload")
  case False
  then show ?thesis by (auto simp: derp_frame_def rust_simps sub_def)
next
  case True
  let ?src = "take 32 payload" and ?pkt = "drop 32 payload"
  obtain st1 o1 where 1: "first_contact cf rn up st ?src = Some (st1, o1)" "list_all (relay_ok ?src) o1" "ds_peers st1 = ds_peers st"
    using first_contact_ok by blast
  obtain o2 where 2: "derp_disco cf rn up ?src ?pkt = Some o2" "list_all (relay_ok ?src) o2" using derp_disco_ok by blast
  obtain st3 o3 where 3: "derp_wg cf rn st1 ?src ?pkt = Some (st3, o3)" "list_all (relay_ok ?src) o3" "peers_step ?src st1 st3"
    using derp_wg_ok [OF ok] by blast
  have p: "peers_step ?src st st1" "peers_step ?src st st3"
    using 1(3) 3(3) peers_step_refl [of ?src st] unfolding peers_step_def by metis+
  have f: "derp_frame cf up st (rn, typ, payload) = do {
      (st, out) \<leftarrow> first_contact cf rn up st ?src;
      disco \<leftarrow> is_disco ?pkt;
      if disco then do { out' \<leftarrow> derp_disco cf rn up ?src ?pkt; Some (st, out @ out') }
      else do { (st, out') \<leftarrow> derp_wg cf rn st ?src ?pkt; Some (st, out @ out') } }"
    using True by (simp add: derp_frame_def rust_simps sub_def)
  show ?thesis using 1 2 3 p unfolding f by (simp add: is_disco_eq)
qed

subsection \<open>The relay connection\<close>

definition from_peer :: "derp_rand \<times> u8 \<times> bytes \<Rightarrow> bool" where
  "from_peer f = (case f of (rn, typ, payload) \<Rightarrow> typ = FRAME_RECV_PACKET \<and> 32 < length payload)"

interpretation relay: inner_handler "derp_frame cf up"
  "\<lambda>st. identity_ok cf \<and> distinct (map fst (ds_peers st))" from_peer "\<lambda>q. \<exists>src. relay_ok src q" for cf up
proof
  fix st :: derp_state and f :: "derp_rand \<times> u8 \<times> bytes"
  assume inv: "identity_ok cf \<and> distinct (map fst (ds_peers st))"
  obtain rn ty payload where f: "f = (rn, ty, payload)" by (cases f)
  obtain st' out where "derp_frame cf up st (rn, ty, payload) = Some (st', out)"
      "list_all (relay_ok (take 32 payload)) out" "peers_step (take 32 payload) st st'"
    using derp_frame_ok inv by blast
  then show "\<exists>st' out. derp_frame cf up st f = Some (st', out) \<and>
      (identity_ok cf \<and> distinct (map fst (ds_peers st'))) \<and> (\<forall>q \<in> set out. \<exists>src. relay_ok src q)"
    using inv f by (auto simp: peers_step_def list_all_iff)
next
  fix st :: derp_state and f :: "derp_rand \<times> u8 \<times> bytes"
  assume "\<not> from_peer f"
  then show "derp_frame cf up st f = Some (st, [])"
    by (cases f) (auto simp: from_peer_def derp_frame_def rust_simps)
qed

lemma derp_serve_returns:
  "identity_ok cf \<Longrightarrow> distinct (map fst (ds_peers st)) \<Longrightarrow>
   \<exists>st' d' ts. derp_serve cf up rns n st d = Some (st', d', ts) \<and> distinct (map fst (ds_peers st'))"
proof (induction cf up rns n st d rule: derp_serve.induct)
  case (1 cf up rns n st d)
  show ?case
  proof (cases "read_frame d")
    case (Pair d1 r)
    show ?thesis
    proof (cases r)
      case (Inl e)
      then show ?thesis using Pair 1(3) by (subst derp_serve.simps) simp
    next
      case (Inr f)
      obtain st1 out where f: "derp_frame cf up st (rns n, f) = Some (st1, out)" "distinct (map fst (ds_peers st1))"
        using relay.step_ok [of cf st up "(rns n, f)"] 1(2,3) by blast
      obtain st2 d2 ts where "derp_serve cf up rns (Suc n) st1 (derp_send out d1) = Some (st2, d2, ts)"
          "distinct (map fst (ds_peers st2))"
        using 1(1) [OF Pair [symmetric] Inr f(1) refl 1(2) f(2)] by blast
      then show ?thesis using Pair Inr f(1) by (subst derp_serve.simps) simp
    qed
  qed
qed

lemma derp_frame_wg:
  assumes "length src = 32" and "pkt \<noteq> []" and "pkt ! 0 \<noteq> MAGIC ! 0"
    and "first_contact cf rn up st src = Some (st1, o1)" and "derp_wg cf rn st1 src pkt = Some (st2, o2)"
  shows "derp_frame cf up st (rn, FRAME_RECV_PACKET, src @ pkt) = Some (st2, o1 @ o2)"
proof -
  have "sub pkt 0 6 \<noteq> MAGIC" if l: "6 \<le> length pkt"
  proof
    assume "sub pkt 0 6 = MAGIC"
    then have "sub pkt 0 6 ! 0 = MAGIC ! 0" by simp
    then show False using l assms(3) by simp
  qed
  then have "is_disco pkt = Some False" by (simp add: is_disco_eq)
  then show ?thesis using assms by (simp add: derp_frame_def rust_simps sub_def)
qed

lemma first_contact_upgraded:
  "first_contact cf rn up st src = Some (st', out) \<Longrightarrow>
   first_contact cf rn' up (st'\<lparr>ds_peers := ps\<rparr>) src = Some (st'\<lparr>ds_peers := ps\<rparr>, [])"
  by (auto simp: first_contact_def bind_eq_Some_conv split: option.splits if_splits)

subsection \<open>A node for the examples\<close>

definition toy_relay :: node_cfg where
  "toy_relay = \<lparr>cf_wg = toy_crypto, cf_box = toy_box,
     cf_id = \<lparr>id_disco_priv = replicate 32 1, id_disco_pub = box_public toy_box (replicate 32 1),
       id_node_priv = replicate 32 2, id_node_pub = pubkey toy_crypto (replicate 32 2),
       id_allowed_srcs = None\<rparr>,
     cf_features = \<lparr>ft_icmp = True, ft_http_server = True, ft_outbound = False, ft_mdns_forward = False,
       ft_tcp_proxy = False, ft_birthday = False\<rparr>,
     cf_proxy_port = 8080, cf_fetch = (\<lambda>_. [])\<rparr>"

definition toy_relay_rand :: derp_rand where
  "toy_relay_rand = \<lparr>dr_index = 5, dr_eph = replicate 32 3, dr_iss = 1, dr_nonce = replicate 24 0,
     dr_upgrade_nonce = replicate 24 1\<rparr>"

lemma toy_relay_ok: "identity_ok toy_relay"
  using toy_crypto_ok by (simp add: identity_ok_def toy_relay_def wg_crypto_ok_lengths)

subsection \<open>Properties\<close>

text \<open>
  C9. The relay responder neither panics nor hangs: whatever a connection delivers, in whatever
  pieces, and however writes fail, \<open>serve\<close> returns when the connection ends; and frames
  that are not packets from a peer (keepalives, server info, truncated ones) change nothing
  and cause nothing: without them the outcome of any sequence of frames is the same.
\<close>

theorem relay_serves:
  assumes "identity_ok cf"
  shows "(\<exists>st d' ts. derp_serve cf up rns 0 derp_state_new d = Some (st, d', ts)) \<and>
    run_handler (derp_frame cf up) derp_state_new frames = run_handler (derp_frame cf up) derp_state_new (filter from_peer frames)"
  using derp_serve_returns [OF assms, of derp_state_new up rns 0 d] relay.run_filter [of cf derp_state_new up frames] assms
  by (auto simp: derp_state_new_def)

text \<open>
  C8. What a frame causes stays with its sender: everything sent because of a frame goes back
  to the peer that sent it and is a well-formed disco or WireGuard message, a target handed
  to the data plane is that peer, and the tunnels of all other peers are untouched.
\<close>

theorem relay_isolates_peers:
  assumes "identity_ok cf"
  shows "\<exists>st' out v. derp_frame cf up st (rn, ty, payload) = Some (st', out) \<and>
    list_all (relay_ok (take 32 payload)) out \<and> map_of (ds_peers st') = (map_of (ds_peers st))(take 32 payload := v)"
  using derp_frame_ok [OF assms, of up st rn ty payload] unfolding peers_step_def by blast

theorem relay_serves_witness:
  "\<exists>st d' ts. derp_serve toy_relay None (\<lambda>_. toy_relay_rand) 0 derp_state_new
     \<lparr>dc_reads = [TlsData [5, 0, 0, 0, 40], TlsData (replicate 40 4)], dc_writes = [], dc_sent = []\<rparr> = Some (st, d', ts)"
  using relay_serves [OF toy_relay_ok, of None "\<lambda>_. toy_relay_rand"
    "\<lparr>dc_reads = [TlsData [5, 0, 0, 0, 40], TlsData (replicate 40 4)], dc_writes = [], dc_sent = []\<rparr>" "[]"] by blast

theorem relay_isolates_peers_witness:
  "\<exists>st' out. derp_frame toy_relay None derp_state_new (toy_relay_rand, 5, replicate 40 4) = Some (st', out) \<and>
     list_all (relay_ok (replicate 32 4)) out"
  using relay_isolates_peers [OF toy_relay_ok, of None derp_state_new toy_relay_rand 5 "replicate 40 4"] by auto

text \<open>
  C7. A remote peer reaches the device through the relay. A peer that knows the device's node
  key sends its initiation in a relay frame; the device answers it with a response in a frame
  to that peer, which the peer accepts; and when the peer then sends, through its new tunnel,
  an inner packet that the filter allows and the echo responder answers, the device sends one
  packet back that opens in the peer's tunnel to exactly the (padded) echo reply. This holds
  in every state, with or without an upgrade under way.
\<close>

theorem relay_session:
  assumes "wg_crypto_ok (cf_wg cf)" and "identity_ok cf" and "ft_icmp (cf_features cf)"
    and "length s = 32" and "length e = 32" and "length stamp = 12" and "length src = 32" and "length (dr_eph rn) = 32"
    and "build_initiation (cf_wg cf) s (pubkey (cf_wg cf) s) (id_node_pub (cf_id cf)) stamp i e = Some (msg, hs)"
    and "src_allowed (id_allowed_srcs (cf_id cf)) (pad_loop req) = Some True"
    and "echo_reply_any (pad_loop req) = Some (Some reply)"
  shows "\<exists>st1 out resp t st2 w. derp_frame cf up st (rn, FRAME_RECV_PACKET, src @ msg) = Some (st1, out @ [Relay src resp]) \<and>
    consume_response (cf_wg cf) hs resp = Some (Inr t) \<and>
    derp_frame cf up st1 (rn', FRAME_RECV_PACKET, src @ snd (encrypt (cf_wg cf) t req)) = Some (st2, [Relay src w]) \<and>
    decrypt (cf_wg cf) t w = Some (Inr (pad_loop reply))"
proof -
  let ?C = "cf_wg cf"
  have id: "length (id_node_priv (cf_id cf)) = 32" "id_node_pub (cf_id cf) = pubkey ?C (id_node_priv (cf_id cf))"
    using assms(2) by (simp_all add: identity_ok_def)
  obtain resp t t' where hs: "consume_initiation ?C (id_node_priv (cf_id cf)) (id_node_pub (cf_id cf)) msg (dr_index rn) (dr_eph rn)
        = Some (Inr (resp, t', pubkey ?C s))" "consume_response ?C hs resp = Some (Inr t)"
      "length msg = 148" "msg ! 0 = MSG_INITIATION" "tun_send_key t = tun_recv_key t'" "tun_recv_key t = tun_send_key t'"
    using handshake_completes [OF assms(1,4) id(1) assms(5,8,6), of i "dr_index rn"] assms(9) id(2) by auto
  obtain st0 out where c: "first_contact cf rn up st src = Some (st0, out)" using first_contact_ok by blast
  define st1 where "st1 = st0\<lparr>ds_peers := AList.update src \<lparr>pe_tun = t', pe_tcp = tcp_server_new\<rparr> (ds_peers st0)\<rparr>"
  have "derp_wg cf rn st0 src msg = Some (st1, [Relay src resp])"
    using hs(1,3,4) by (cases msg) (simp_all add: derp_wg_def st1_def)
  moreover have "msg \<noteq> []" "msg ! 0 \<noteq> MAGIC ! 0" using hs(3,4) by (auto simp: MAGIC_def)
  ultimately have f1: "derp_frame cf up st (rn, FRAME_RECV_PACKET, src @ msg) = Some (st1, out @ [Relay src resp])"
    by (intro derp_frame_wg [OF assms(7) _ _ c])
  obtain t2 w1 where e: "encrypt ?C t req = (t2, w1)" by fastforce
  obtain t3 w where e': "encrypt ?C t' reply = (t3, w)" by fastforce
  have d: "decrypt ?C t' w1 = Some (Inr (pad_loop req))" using decrypt_encrypt [OF assms(1) e] hs(5) by simp
  have d': "decrypt ?C t w = Some (Inr (pad_loop reply))" using decrypt_encrypt [OF assms(1) e'] hs(6) by simp
  have w1: "w1 \<noteq> []" "w1 ! 0 = MSG_TRANSPORT"
  proof -
    note l = encrypt_wire [OF e]
    have "w1 ! 0 = sub w1 0 4 ! 0" using l(6) by simp
    then show "w1 ! 0 = MSG_TRANSPORT" using l(2) by simp
    show "w1 \<noteq> []" using l(6) by auto
  qed
  have ne: "pad_loop req \<noteq> []" using assms(11) by (auto simp: echo_reply_any_def)
  have m: "map_of (ds_peers st1) src = Some \<lparr>pe_tun = t', pe_tcp = tcp_server_new\<rparr>"
    by (simp add: st1_def update_conv')
  have "handle_inner cf rn' \<lparr>pe_tun = t', pe_tcp = tcp_server_new\<rparr> src (pad_loop req) =
      Some (\<lparr>pe_tun = t3, pe_tcp = tcp_server_new\<rparr>, [Relay src w])"
    using assms(3,11) e' by (simp add: handle_inner_def)
  then obtain st2 where "derp_wg cf rn' st1 src w1 = Some (st2, [Relay src w])"
    using w1 m d ne assms(10) by (cases w1) (simp_all add: derp_wg_def)
  moreover have "first_contact cf rn' up st1 src = Some (st1, [])"
    unfolding st1_def by (rule first_contact_upgraded [OF c])
  moreover have "w1 ! 0 \<noteq> MAGIC ! 0" using w1(2) by (simp add: MAGIC_def)
  ultimately have "derp_frame cf up st1 (rn', FRAME_RECV_PACKET, src @ w1) = Some (st2, [Relay src w])"
    using derp_frame_wg [OF assms(7) w1(1), of cf rn' up st1 st1 "[]" st2 "[Relay src w]"] by simp
  with f1 hs(2) d' e show ?thesis by auto
qed

theorem relay_session_witness:
  "\<exists>msg hs st1 out resp t st2 w.
     build_initiation toy_crypto (replicate 32 7) (pubkey toy_crypto (replicate 32 7)) (pubkey toy_crypto (replicate 32 2))
       (replicate 12 0) 9 (replicate 32 8) = Some (msg, hs) \<and>
     derp_frame toy_relay None derp_state_new (toy_relay_rand, FRAME_RECV_PACKET, replicate 32 1 @ msg) = Some (st1, out @ [Relay (replicate 32 1) resp]) \<and>
     consume_response toy_crypto hs resp = Some (Inr t) \<and>
     derp_frame toy_relay None st1 (toy_relay_rand, FRAME_RECV_PACKET, replicate 32 1 @ snd (encrypt toy_crypto t sample_ping6)) =
       Some (st2, [Relay (replicate 32 1) w])"
proof -
  have pl: "payload_len_of sample_ping6 = 8"
    by (simp add: payload_len_of_def sample_ping6_def from_be_16)
  then have "is_echo_request_v6 sample_ping6"
    by (simp add: is_echo_request_v6_def) (simp add: sample_ping6_def nth_append)
  then have r: "echo_reply_any sample_ping6 = Some (Some (reply_v6 sample_ping6))"
    using request_versions_disjoint by (auto simp: echo_reply_any_eq)
  have p: "pad_loop sample_ping6 = sample_ping6" by (simp add: pad_loop_eq sample_ping6_def)
  obtain msg hs where b: "build_initiation toy_crypto (replicate 32 7) (pubkey toy_crypto (replicate 32 7)) (pubkey toy_crypto (replicate 32 2))
       (replicate 12 0) 9 (replicate 32 8) = Some (msg, hs)"
    using handshake_completes [OF toy_crypto_ok, of "replicate 32 7" "replicate 32 2" "replicate 32 8" "replicate 32 8" "replicate 12 0" 9 9] by auto
  obtain st1 out resp t st2 w where
    "derp_frame toy_relay None derp_state_new (toy_relay_rand, FRAME_RECV_PACKET, replicate 32 1 @ msg) = Some (st1, out @ [Relay (replicate 32 1) resp])"
    "consume_response toy_crypto hs resp = Some (Inr t)"
    "derp_frame toy_relay None st1 (toy_relay_rand, FRAME_RECV_PACKET, replicate 32 1 @ snd (encrypt toy_crypto t sample_ping6)) =
       Some (st2, [Relay (replicate 32 1) w])"
    using relay_session [of toy_relay "replicate 32 7" "replicate 32 8" "replicate 12 0" "replicate 32 1" toy_relay_rand 9 msg hs
        sample_ping6 "reply_v6 sample_ping6" None derp_state_new toy_relay_rand] toy_crypto_ok toy_relay_ok b r p
    by (auto simp: toy_relay_def toy_relay_rand_def src_allowed_eq)
  with b show ?thesis by blast
qed

end
