(* ===== verification/Transport.thy ===== *)
theory Transport
  imports Byte_Stream Rust_Text
begin

text \<open>
  \<^verbatim>\<open>core/src/transport.rs\<close>: the HTTP/1.1 upgrade, the buffered connection with its frame reader,
  and the base64 encoder of the handshake header. The socket is the read results to come and
  what was written so far. Shown: \<open>take\<close> is an exact reader, so the frames of the control
  protocol are read back however TCP cuts them and bytes that arrive with the upgrade response
  are not lost; and base64 is inverted by a reference decoder.
\<close>

subsection \<open>The connection\<close>

datatype conn_error =
    UpgradeWrite | UpgradeRead | ClosedDuringUpgrade | HeadersTooLarge | UpgradeFailed bytes
  | StreamRead | ConnClosed nat nat | StreamWrite

record tconn =
  tc_reads :: "read_result list"
  tc_writes :: "nat option"
  tc_sent :: bytes
  tc_rx :: bytes

text \<open>
  \<open>ByteStream::write_all\<close> and \<open>read\<close>; a list of reads that has ended is a closed stream. \<open>tc_writes\<close> is
  how many writes the stream still takes before it breaks, \<open>None\<close> for a stream that never does: a
  write may fail after earlier ones have succeeded, and every write after a failed one fails too.
\<close>

abbreviation tc_write_ok :: "tconn \<Rightarrow> bool" where
  "tc_write_ok c \<equiv> tc_writes c = None"

definition stream_write :: "tconn \<Rightarrow> bytes \<Rightarrow> tconn option" where
  "stream_write c d =
    (case tc_writes c of
       None \<Rightarrow> Some (c\<lparr>tc_sent := tc_sent c @ d\<rparr>)
     | Some 0 \<Rightarrow> None
     | Some (Suc n) \<Rightarrow> Some (c\<lparr>tc_writes := Some n, tc_sent := tc_sent c @ d\<rparr>))"

fun fill_loop :: "nat \<Rightarrow> read_result list \<Rightarrow> bytes \<Rightarrow> read_result list \<times> bytes \<times> (conn_error + unit)" where
  "fill_loop n rs rx =
    (if n \<le> length rx then (rs, rx, Inr ())
     else case rs of
       [] \<Rightarrow> ([], rx, Inl (ConnClosed n (length rx)))
     | ReadErr # rs \<Rightarrow> (rs, rx, Inl StreamRead)
     | ReadOk d # rs \<Rightarrow> if d = [] then (rs, rx, Inl (ConnClosed n (length rx))) else fill_loop n rs (rx @ d))"

declare fill_loop.simps [simp del]

definition fill_to :: "nat \<Rightarrow> tconn \<Rightarrow> tconn \<times> (conn_error + unit)" where
  "fill_to n c =
    (case fill_loop n (tc_reads c) (tc_rx c) of
       (rs, rx, r) \<Rightarrow> (c\<lparr>tc_reads := rs, tc_rx := rx\<rparr>, r))"

definition conn_take :: "nat \<Rightarrow> tconn \<Rightarrow> tconn \<times> (conn_error + bytes)" where
  "conn_take n c =
    (case fill_to n c of
       (c, Inl e) \<Rightarrow> (c, Inl e)
     | (c, Inr _) \<Rightarrow> (c\<lparr>tc_rx := drop n (tc_rx c)\<rparr>, Inr (take n (tc_rx c))))"

definition conn_read_frame :: "tconn \<Rightarrow> tconn \<times> (conn_error + u8 \<times> bytes)" where
  "conn_read_frame c =
    (case conn_take 3 c of
       (c, Inl e) \<Rightarrow> (c, Inl e)
     | (c, Inr hdr) \<Rightarrow>
        (let typ = hdr ! 0; len = unat (from_be_bytes [hdr ! 1, hdr ! 2] :: u16)
         in case conn_take len c of
              (c, Inl e) \<Rightarrow> (c, Inl e)
            | (c, Inr payload) \<Rightarrow> (c, Inr (typ, payload))))"

definition conn_write_all :: "tconn \<Rightarrow> bytes \<Rightarrow> tconn \<times> (conn_error + unit)" where
  "conn_write_all c d =
    (case stream_write c d of None \<Rightarrow> (c, Inl StreamWrite) | Some c \<Rightarrow> (c, Inr ()))"

subsection \<open>The upgrade\<close>

definition UPGRADE_VALUE :: string where "UPGRADE_VALUE = ''tailscale-control-protocol''"

definition crlf2 :: bytes where "crlf2 = [13, 10, 13, 10]"

definition upgrade_request :: "string \<Rightarrow> string \<Rightarrow> bytes" where
  "upgrade_request host handshake_b64 =
     ascii ''POST /ts2021 HTTP/1.1'' @ [13, 10] @
     ascii ''Host: '' @ ascii host @ [13, 10] @
     ascii ''Upgrade: '' @ ascii UPGRADE_VALUE @ [13, 10] @
     ascii ''Connection: upgrade'' @ [13, 10] @
     ascii ''X-Tailscale-Handshake: '' @ ascii handshake_b64 @ [13, 10] @
     ascii ''Content-Length: 0'' @ crlf2"

text \<open>The loop that reads until the end of the response headers: the head and where its body starts.\<close>

primrec head_loop :: "read_result list \<Rightarrow> bytes \<Rightarrow> read_result list \<times> (conn_error + bytes \<times> nat)" where
  "head_loop [] head = ([], Inl ClosedDuringUpgrade)"
| "head_loop (r # rs) head =
    (case r of
       ReadErr \<Rightarrow> (rs, Inl UpgradeRead)
     | ReadOk d \<Rightarrow>
        if d = [] then (rs, Inl ClosedDuringUpgrade)
        else let head = head @ d in
          (case find_sub head crlf2 of
             Some pos \<Rightarrow> (rs, Inr (head, pos + 4))
           | None \<Rightarrow> if length head > 8192 then (rs, Inl HeadersTooLarge) else head_loop rs head))"

definition status_line :: "bytes \<Rightarrow> bytes" where
  "status_line head = trim (takeWhile (\<lambda>b. b \<noteq> 10) head)"

definition connect_and_upgrade ::
  "read_result list \<Rightarrow> nat option \<Rightarrow> string \<Rightarrow> string \<Rightarrow> conn_error + tconn" where
  "connect_and_upgrade reads writes host handshake_b64 =
    (let c = \<lparr> tc_reads = reads, tc_writes = writes, tc_sent = [], tc_rx = [] \<rparr> in
     case stream_write c (upgrade_request host handshake_b64) of
       None \<Rightarrow> Inl UpgradeWrite
     | Some c \<Rightarrow>
       (case head_loop (tc_reads c) [] of
          (rs, Inl e) \<Rightarrow> Inl e
        | (rs, Inr (head, body_start)) \<Rightarrow>
            if find_sub (status_line head) (ascii '' 101 '') = None
            then Inl (UpgradeFailed (status_line head))
            else Inr (c\<lparr>tc_reads := rs, tc_rx := tc_rx c @ drop body_start head\<rparr>)))"

subsection \<open>Base64\<close>

definition T64 :: bytes where
  "T64 = ascii ''ABCDEFGHIJKLMNOPQRSTUVWXYZabcdefghijklmnopqrstuvwxyz0123456789+/''"

definition b64_group :: "bytes \<Rightarrow> bytes panics" where
  "b64_group chunk = do {
     b0 \<leftarrow> idx chunk 0;
     let b1 = (if 1 < length chunk then chunk ! 1 else 0);
     let b2 = (if 2 < length chunk then chunk ! 2 else 0);
     let n = (push_bit 16 (ucast b0) OR push_bit 8 (ucast b1) OR ucast b2 :: u32);
     c0 \<leftarrow> idx T64 (unat (drop_bit 18 n AND 0x3f));
     c1 \<leftarrow> idx T64 (unat (drop_bit 12 n AND 0x3f));
     c2 \<leftarrow> (if length chunk > 1 then idx T64 (unat (drop_bit 6 n AND 0x3f)) else Some 61);
     c3 \<leftarrow> (if length chunk > 2 then idx T64 (unat (n AND 0x3f)) else Some 61);
     Some [c0, c1, c2, c3]
   }"

primrec b64_loop :: "bytes \<Rightarrow> bytes list \<Rightarrow> bytes panics" where
  "b64_loop out [] = Some out"
| "b64_loop out (c # cs) = do { g \<leftarrow> b64_group c; b64_loop (out @ g) cs }"

definition base64_std :: "bytes \<Rightarrow> bytes panics" where
  "base64_std data = b64_loop [] (chunks 3 data)"

subsection \<open>The connection is an exact reader\<close>

definition tc_pending :: "tconn \<Rightarrow> bytes" where
  "tc_pending c = tc_rx c @ stream_data (tc_reads c)"

lemma fill_loop_ok:
  "n \<le> length (rx @ stream_data rs) \<Longrightarrow>
   \<exists>rs' rx'. fill_loop n rs rx = (rs', rx', Inr ()) \<and> n \<le> length rx' \<and>
     rx' @ stream_data rs' = rx @ stream_data rs"
proof (induction n rs rx rule: fill_loop.induct)
  case (1 n rs rx)
  show ?case
  proof (cases "n \<le> length rx")
    case True
    then show ?thesis by (simp add: fill_loop.simps)
  next
    case False
    then obtain d rs' where rs: "rs = ReadOk d # rs'" "d \<noteq> []"
      using 1(2) by (cases rs) (auto split: read_result.splits if_splits)
    have "n \<le> length ((rx @ d) @ stream_data rs')" using 1(2) rs by simp
    from 1(1) [OF False rs(1) refl rs(2) this] False rs show ?thesis
      by (subst fill_loop.simps) simp
  qed
qed

interpretation conn: byte_reader conn_take "\<lambda>_. True" tc_pending
proof
  fix c :: tconn and n
  assume "n \<le> length (tc_pending c)"
  then obtain rs rx where f: "fill_loop n (tc_reads c) (tc_rx c) = (rs, rx, Inr ())" "n \<le> length rx"
      "rx @ stream_data rs = tc_pending c"
    using fill_loop_ok [of n "tc_rx c" "tc_reads c"] by (auto simp: tc_pending_def)
  have "take n (tc_pending c) = take n rx" "drop n (tc_pending c) = drop n rx @ stream_data rs"
    using f(2) by (simp_all flip: f(3))
  then show "\<exists>c'. conn_take n c = (c', Inr (take n (tc_pending c))) \<and> True \<and> tc_pending c' = drop n (tc_pending c)"
    using f(1) by (simp add: conn_take_def fill_to_def) (simp add: tc_pending_def)
qed

text \<open>The frames of the control protocol, as they are written.\<close>

definition enc_frame :: "u8 \<times> bytes \<Rightarrow> bytes" where
  "enc_frame f = fst f # to_be_bytes (of_nat (length (snd f)) :: u16) @ snd f"

primrec read_frames :: "nat \<Rightarrow> tconn \<Rightarrow> tconn \<times> (conn_error + (u8 \<times> bytes) list)" where
  "read_frames 0 c = (c, Inr [])"
| "read_frames (Suc n) c =
    (case conn_read_frame c of
       (c, Inl e) \<Rightarrow> (c, Inl e)
     | (c, Inr f) \<Rightarrow>
        (case read_frames n c of (c, Inl e) \<Rightarrow> (c, Inl e) | (c, Inr fs) \<Rightarrow> (c, Inr (f # fs))))"

lemma read_frame_next:
  assumes "tc_pending c = enc_frame f @ rest" and "length (snd f) < 65536"
  shows "\<exists>c'. conn_read_frame c = (c', Inr f) \<and> tc_pending c' = rest"
proof -
  let ?hdr = "fst f # to_be_bytes (of_nat (length (snd f)) :: u16)"
  have hdr: "[?hdr ! 1, ?hdr ! 2] = to_be_bytes (of_nat (length (snd f)) :: u16)"
    by (simp add: to_be_bytes_16)
  obtain c1 c2 where "conn_take 3 c = (c1, Inr ?hdr)" "conn_take (length (snd f)) c1 = (c2, Inr (snd f))"
      "tc_pending c2 = rest"
    using conn.rd_framed [of c ?hdr "snd f" rest 3 "length (snd f)"] assms(1) by (auto simp: enc_frame_def)
  moreover have "unat (from_be_bytes [?hdr ! 1, ?hdr ! 2] :: u16) = length (snd f)"
    unfolding hdr bytes_roundtrip using assms(2) by (simp add: unat_of_nat)
  ultimately show ?thesis by (simp add: conn_read_frame_def)
qed

lemma read_frames_all:
  assumes "tc_pending c = concat (map enc_frame fs) @ rest" and "\<forall>f \<in> set fs. length (snd f) < 65536"
  shows "\<exists>c'. read_frames (length fs) c = (c', Inr fs) \<and> tc_pending c' = rest"
  using assms
proof (induction fs arbitrary: c)
  case (Cons f fs)
  obtain c1 where 1: "conn_read_frame c = (c1, Inr f)" "tc_pending c1 = concat (map enc_frame fs) @ rest"
    using read_frame_next [of c f] Cons.prems by auto
  with Cons.IH [OF 1(2)] Cons.prems(2) show ?case by auto
qed simp

lemma head_loop_split:
  "head_loop rs head = (rs', Inr (h, b)) \<Longrightarrow>
     h @ stream_data rs' = head @ stream_data rs \<and> find_sub h crlf2 = Some (b - 4) \<and> 4 \<le> b \<and> b \<le> length h"
proof (induction rs arbitrary: head)
  case (Cons r rs)
  obtain d where r: "r = ReadOk d" "d \<noteq> []"
    using Cons.prems by (auto split: read_result.splits if_splits)
  show ?case
  proof (cases "find_sub (head @ d) crlf2")
    case None
    then show ?thesis using Cons.prems Cons.IH [of "head @ d"] r by (simp add: Let_def split: if_splits)
  next
    case (Some pos)
    then have "pos + 4 \<le> length (head @ d)"
      using find_from_Some [of crlf2 0 "head @ d" pos] by (simp add: find_sub_def crlf2_def)
    with Some Cons.prems r show ?thesis by auto
  qed
qed simp

subsection \<open>Base64 decoded\<close>

text \<open>The reference decoder (RFC 4648).\<close>

definition val64 :: "u8 \<Rightarrow> nat option" where
  "val64 c =
    (if 65 \<le> c \<and> c \<le> 90 then Some (unat c - 65) else if 97 \<le> c \<and> c \<le> 122 then Some (unat c - 71)
     else if 48 \<le> c \<and> c \<le> 57 then Some (unat c + 4) else if c = 43 then Some 62
     else if c = 47 then Some 63 else None)"

fun unbase64 :: "bytes \<Rightarrow> bytes option" where
  "unbase64 [] = Some []"
| "unbase64 (a # b # c # d # rest) = do {
     i \<leftarrow> val64 a; j \<leftarrow> val64 b;
     if c = 61 then (if d = 61 \<and> rest = [] then Some [of_nat (4 * i + j div 16)] else None)
     else do {
     k \<leftarrow> val64 c;
     if d = 61 then (if rest = [] then Some [of_nat (4 * i + j div 16), of_nat (16 * (j mod 16) + k div 4)] else None)
     else do {
     l \<leftarrow> val64 d;
     r \<leftarrow> unbase64 rest;
     Some ([of_nat (4 * i + j div 16), of_nat (16 * (j mod 16) + k div 4), of_nat (64 * (k mod 4) + l)] @ r) }}}"
| "unbase64 _ = None"

lemma length_T64: "length T64 = 64"
  by (simp add: T64_def)

lemma val64_T64: "i < 64 \<Longrightarrow> val64 (T64 ! i) = Some i \<and> T64 ! i \<noteq> 61"
proof -
  assume "i < 64"
  then have "i \<in> set [0..<64]" by simp
  moreover have "list_all (\<lambda>i. val64 (T64 ! i) = Some i \<and> T64 ! i \<noteq> 61) [0..<64]"
    by (simp add: T64_def ascii_def val64_def upt_rec bit_0)
  ultimately show ?thesis by (simp add: list_all_iff)
qed

lemma sextets:
  assumes "x < 256" and "y < 256" and "z < (256 :: nat)"
  defines "n \<equiv> x * 65536 + y * 256 + z"
  shows "n div 262144 mod 64 = x div 4" "n div 4096 mod 64 = 16 * (x mod 4) + y div 16"
    "n div 64 mod 64 = 4 * (y mod 16) + z div 64" "n mod 64 = z mod 64"
proof -
  define xq xr yq yr zq zr where q: "xq = x div 4" "xr = x mod 4" "yq = y div 16" "yr = y mod 16"
    "zq = z div 64" "zr = z mod 64"
  have x: "x = 4 * xq + xr" "xr < 4" and y: "y = 16 * yq + yr" "yr < 16" and z: "z = 64 * zq + zr" "zr < 64"
    by (simp_all add: q)
  have b: "xq < 64" "yq < 16" "zq < 4" using assms x y z by linarith+
  have le: "xr \<le> 3" "yq \<le> 15" "yr \<le> 15" "zq \<le> 3" "zr \<le> 63" using x y z b by linarith+
  have split: "(k * q + r) div k = q" if "r < k" for k q r :: nat using that by simp
  have rem: "(k * q + r) mod k = r" if "r < k" for k q r :: nat using that by simp
  have n: "n = 262144 * xq + 65536 * xr + 4096 * yq + 256 * yr + 64 * zq + zr"
    unfolding n_def x(1) y(1) z(1) by simp
  have "n = 262144 * xq + (65536 * xr + 4096 * yq + 256 * yr + 64 * zq + zr)" by (simp add: n)
  moreover have "65536 * xr + 4096 * yq + 256 * yr + 64 * zq + zr < 262144" using le by linarith
  ultimately have "n div 262144 = xq" by (simp only: split)
  then show "n div 262144 mod 64 = x div 4" using b by (simp flip: q)
  have "n = 4096 * (64 * xq + (16 * xr + yq)) + (256 * yr + 64 * zq + zr)" by (simp add: n)
  moreover have "256 * yr + 64 * zq + zr < 4096" using le by linarith
  ultimately have "n div 4096 = 64 * xq + (16 * xr + yq)" by (simp only: split)
  moreover have "16 * xr + yq < 64" using le by linarith
  ultimately show "n div 4096 mod 64 = 16 * (x mod 4) + y div 16" by (simp flip: q)
  have "n = 64 * (64 * (64 * xq + 16 * xr + yq) + (4 * yr + zq)) + zr" by (simp add: n)
  then have "n div 64 = 64 * (64 * xq + 16 * xr + yq) + (4 * yr + zq)" using z(2) by (simp only: split)
  moreover have "4 * yr + zq < 64" using le by linarith
  ultimately show "n div 64 mod 64 = 4 * (y mod 16) + z div 64" by (simp only: rem q [symmetric])
  have "n = 64 * (64 * (64 * xq + 16 * xr + yq) + (4 * yr + zq)) + zr" by (simp add: n)
  then show "n mod 64 = z mod 64" using z(2) by (simp only: rem q [symmetric])
qed

lemma unat_and_63: "unat ((w :: u32) AND 0x3f) = unat w mod 64"
proof -
  have "w AND 0x3f = take_bit 6 w" by (simp add: take_bit_eq_mask mask_eq_exp_minus_1)
  then have "unat (w AND 0x3f) = take_bit 6 (unat w)" by (simp only: unsigned_take_bit_eq)
  then show ?thesis by (simp add: take_bit_eq_mod)
qed

lemma b64_word:
  fixes b0 b1 b2 :: u8
  defines "n \<equiv> (push_bit 16 (ucast b0) OR push_bit 8 (ucast b1) OR ucast b2 :: u32)"
  shows "unat (drop_bit 18 n AND 0x3f) = unat b0 div 4"
    "unat (drop_bit 12 n AND 0x3f) = 16 * (unat b0 mod 4) + unat b1 div 16"
    "unat (drop_bit 6 n AND 0x3f) = 4 * (unat b1 mod 16) + unat b2 div 64"
    "unat (n AND 0x3f) = unat b2 mod 64"
proof -
  have "n = from_le_bytes [b2, b1, b0]"
    by (simp add: n_def from_le_bytes.simps or.left_commute or.commute)
  then have u: "unat n = unat b0 * 65536 + unat b1 * 256 + unat b2"
    using unat_from_le_bytes [of "[b2, b1, b0]", where ?'a = 32] by simp
  have d: "unat (drop_bit k n) = unat n div 2 ^ k" for k
    by (simp only: unat_drop_bit_eq) (simp add: drop_bit_eq_div)
  have b: "unat b < 256" for b :: u8 using unsigned_less [of b] by simp
  have p: "(2 :: nat) ^ 18 = 262144" "(2 :: nat) ^ 12 = 4096" "(2 :: nat) ^ 6 = 64" by simp_all
  note s = sextets [OF b b b]
  show "unat (drop_bit 18 n AND 0x3f) = unat b0 div 4"
    unfolding unat_and_63 d u p by (rule s)
  show "unat (drop_bit 12 n AND 0x3f) = 16 * (unat b0 mod 4) + unat b1 div 16"
    unfolding unat_and_63 d u p by (rule s)
  show "unat (drop_bit 6 n AND 0x3f) = 4 * (unat b1 mod 16) + unat b2 div 64"
    unfolding unat_and_63 d u p by (rule s)
  show "unat (n AND 0x3f) = unat b2 mod 64"
    unfolding unat_and_63 u by (rule s)
qed

lemma b64_group_decodes:
  assumes "chunk \<noteq> []" and "length chunk \<le> 3" and "length chunk = 3 \<or> rest = []"
  shows "\<exists>g. b64_group chunk = Some g \<and> length g = 4 \<and>
    unbase64 (g @ rest) = (case unbase64 rest of None \<Rightarrow> None | Some r \<Rightarrow> Some (chunk @ r))"
proof -
  obtain b0 t where c0: "chunk = b0 # t" using assms(1) by (cases chunk) auto
  then have "length t \<le> 2" using assms(2) by simp
  then consider "t = []" | b1 where "t = [b1]" | b1 b2 where "t = [b1, b2]"
    by (cases t; cases "tl t") auto
  note cases3 = this
  have byte: "of_nat (unat b) = b" for b :: u8 by simp
  have top: "4 * of_nat (unat b div 4) + of_nat (unat b mod 4) = b" for b :: u8
  proof -
    have "of_nat (4 * (unat b div 4) + unat b mod 4) = b" by (simp only: mult_div_mod_eq byte)
    then show ?thesis by (simp only: of_nat_add of_nat_mult of_nat_numeral)
  qed
  have mid: "16 * of_nat (unat b div 16 mod 16) + of_nat (unat b mod 16) = b" for b :: u8
  proof -
    have "unat b div 16 < 16" by (rule less_mult_imp_div_less) simp
    then have "of_nat (16 * (unat b div 16 mod 16) + unat b mod 16) = b"
      by (simp only: mod_less mult_div_mod_eq byte)
    then show ?thesis by (simp only: of_nat_add of_nat_mult of_nat_numeral)
  qed
  have i64: "unat a div 4 < 64" "16 * (unat a mod 4) + unat b div 16 < 64"
      "4 * (unat b mod 16) + unat c div 64 < 64" "unat c mod 64 < 64" for a b c :: u8
  proof -
    have "unat a div 4 < 64" "unat b div 16 < 16" "unat c div 64 < 4"
      by (rule less_mult_imp_div_less, simp)+
    moreover have "unat a mod 4 < 4" "unat b mod 16 < 16" by simp_all
    ultimately show "unat a div 4 < 64" "16 * (unat a mod 4) + unat b div 16 < 64"
      "4 * (unat b mod 16) + unat c div 64 < 64" "unat c mod 64 < 64" by linarith+
  qed
  have re: "4 * (x div 4) + (16 * (x mod 4) + y div 16) div 16 = x"
      "16 * ((16 * (x mod 4) + y div 16) mod 16) + (4 * (y mod 16) + z div 64) div 4 = y"
      "64 * ((4 * (y mod 16) + z div 64) mod 4) + z mod 64 = z"
    if "x < 256" "y < 256" "z < 256" for x y z :: nat
  proof -
    have "y div 16 < 16" "z div 64 < 4" using that by (auto intro: less_mult_imp_div_less)
    then show "4 * (x div 4) + (16 * (x mod 4) + y div 16) div 16 = x"
      "16 * ((16 * (x mod 4) + y div 16) mod 16) + (4 * (y mod 16) + z div 64) div 4 = y"
      "64 * ((4 * (y mod 16) + z div 64) mod 4) + z mod 64 = z" by simp_all
  qed
  from cases3 show ?thesis
  proof cases
    case 1
    then show ?thesis using assms(3) re [of "unat b0" 0 0] b64_word [of b0 0 0] i64(1) [of b0] i64(2) [of b0 0]
      by (simp add: top c0 b64_group_def rust_simps length_T64 val64_T64 Let_def)
  next
    case (2 b1)
    then show ?thesis using assms(3) re [of "unat b0" "unat b1" 0] b64_word [of b0 b1 0] i64(1) [of b0] i64(2) [of b0 b1] i64(3) [of b1 0]
      by (simp add: top mid c0 b64_group_def rust_simps length_T64 val64_T64 Let_def)
  next
    case (3 b1 b2)
    define i j k l where ix: "i = unat b0 div 4" "j = 16 * (unat b0 mod 4) + unat b1 div 16"
      "k = 4 * (unat b1 mod 16) + unat b2 div 64" "l = unat b2 mod 64"
    have lt: "i < 64" "j < 64" "k < 64" "l < 64" unfolding ix by (rule i64)+
    define n where "n = (push_bit 16 (ucast b0) OR push_bit 8 (ucast b1) OR ucast b2 :: u32)"
    have w: "unat (drop_bit 18 n AND 0x3f) = i" "unat (drop_bit 12 n AND 0x3f) = j"
        "unat (drop_bit 6 n AND 0x3f) = k" "unat (n AND 0x3f) = l"
      unfolding ix n_def by (rule b64_word)+
    have g: "b64_group chunk = Some [T64 ! i, T64 ! j, T64 ! k, T64 ! l]"
    proof -
      have ix0: "idx chunk 0 = Some b0" "1 < length chunk" "2 < length chunk" "chunk ! 1 = b1" "chunk ! 2 = b2"
        using 3 by (simp_all add: c0 idx_def)
      have tx: "idx T64 m = Some (T64 ! m)" if "m < 64" for m using that by (simp add: idx_def length_T64)
      show ?thesis unfolding b64_group_def Let_def
        by (simp only: ix0 bind.bind_lunit if_True n_def [symmetric] w tx lt)
    qed
    have b: "unat b < 256" for b :: u8 using unsigned_less [of b] by simp
    have r: "of_nat (4 * i + j div 16) = b0" "of_nat (16 * (j mod 16) + k div 4) = b1"
        "of_nat (64 * (k mod 4) + l) = b2"
      unfolding ix by (simp_all only: re [OF b b b] byte)
    have "unbase64 ([T64 ! i, T64 ! j, T64 ! k, T64 ! l] @ rest) =
        unbase64 rest \<bind> (\<lambda>r. Some ([b0, b1, b2] @ r))"
      using lt by (simp add: val64_T64 r del: of_nat_add of_nat_mult)
    then show ?thesis using g 3 by (simp add: c0 split: option.split)
  qed
qed

lemma b64_loop_acc: "b64_loop out cs = map_option (\<lambda>e. out @ e) (b64_loop [] cs)"
proof (induction cs arbitrary: out)
  case (Cons c cs)
  show ?case
  proof (cases "b64_group c")
    case (Some g)
    then show ?thesis using Cons.IH [of "out @ g"] Cons.IH [of g] by (simp add: option.map_comp comp_def)
  qed simp
qed simp

lemma b64_loop_decodes:
  "\<exists>e. b64_loop [] (chunks 3 d) = Some e \<and> unbase64 e = Some d \<and> length e = 4 * ((length d + 2) div 3)"
proof (induction "length d" arbitrary: d rule: less_induct)
  case less
  show ?case
  proof (cases "d = []")
    case True
    then show ?thesis by simp
  next
    case False
    define c where "c = take 3 d"
    have ch: "chunks 3 d = c # chunks 3 (drop 3 d)" using False by (simp add: chunks.simps [of 3 d] c_def)
    obtain e where IH: "b64_loop [] (chunks 3 (drop 3 d)) = Some e"
        "unbase64 e = Some (drop 3 d)" "length e = 4 * ((length (drop 3 d) + 2) div 3)"
      using less.hyps [of "drop 3 d"] False by (auto simp: length_greater_0_conv)
    have "length c = 3 \<or> e = []"
    proof (cases "3 \<le> length d")
      case True
      then show ?thesis by (simp add: c_def)
    next
      case False
      then show ?thesis using IH(3) by simp
    qed
    moreover have "c \<noteq> []" "length c \<le> 3" using False by (simp_all add: c_def)
    ultimately obtain g where g: "b64_group c = Some g" "length g = 4" "unbase64 (g @ e) = Some (c @ drop 3 d)"
      using b64_group_decodes [of c e] IH(2) by auto
    have "(length d + 2) div 3 = Suc ((length d - 3 + 2) div 3)"
    proof (cases "3 \<le> length d")
      case True
      then have "length d + 2 = (length d - 3 + 2) + 3" by simp
      then show ?thesis by simp
    next
      case False': False
      moreover have "length d \<noteq> 0" using False by simp
      ultimately have "length d = 1 \<or> length d = 2" by linarith
      then show ?thesis by auto
    qed
    moreover have "b64_loop [] (chunks 3 d) = Some (g @ e)"
      using g(1) IH(1) b64_loop_acc [of g "chunks 3 (drop 3 d)"] by (simp add: ch)
    ultimately show ?thesis using g IH(3) by (simp add: c_def)
  qed
qed

subsection \<open>Properties\<close>

text \<open>
  Control frames are read back however TCP cuts them: for any sequence of frames, any
  division of their bytes (and of what follows) into reads, and whatever part is already
  buffered, reading as many frames returns them all in order and leaves exactly what follows.
\<close>

theorem control_frames_read_back:
  assumes "\<forall>f \<in> set fs. length (snd f) < 65536" and "[] \<notin> set ds"
    and "tc_rx c @ concat ds = concat (map enc_frame fs) @ rest" and "tc_reads c = cut_as ds"
  shows "\<exists>c'. read_frames (length fs) c = (c', Inr fs) \<and> tc_rx c' @ stream_data (tc_reads c') = rest"
  using read_frames_all [of c fs rest] assms by (simp add: tc_pending_def stream_data_cut)

theorem control_frames_read_back_witness:
  "\<exists>c'. read_frames (Suc (Suc 0)) \<lparr> tc_reads = cut_as [[2, 0], [1, 9, 4], [0, 2, 7], [8]], tc_writes = None, tc_sent = [], tc_rx = [] \<rparr> =
     (c', Inr [(2, [9]), (4, [7, 8])])"
  using control_frames_read_back [of "[(2, [9]), (4, [7, 8])]" "[[2, 0], [1, 9, 4], [0, 2, 7], [8]]"
      "\<lparr> tc_reads = cut_as [[2, 0], [1, 9, 4], [0, 2, 7], [8]], tc_writes = None, tc_sent = [], tc_rx = [] \<rparr>" "[]"]
  by (simp add: enc_frame_def to_be_bytes_16 del: read_frames.simps) blast

text \<open>
  The upgrade loses nothing: when it succeeds, the request written is the upgrade request
  with the handshake, the response's first line contains the status 101, and what the
  connection will deliver is exactly the server's stream after its first blank line, including
  bytes that arrived together with the headers.
\<close>

theorem upgrade_keeps_early_bytes:
  assumes "connect_and_upgrade reads ok host hs = Inr c"
  shows "tc_sent c = upgrade_request host hs \<and>
    (\<exists>h n. h @ n = stream_data reads \<and> (\<exists>pos. find_sub h crlf2 = Some pos \<and>
       tc_rx c @ stream_data (tc_reads c) = drop (pos + 4) (stream_data reads)) \<and>
       find_sub (status_line h) (ascii '' 101 '') \<noteq> None)"
proof -
  obtain rs h b ok' where hl: "head_loop reads [] = (rs, Inr (h, b))"
      "find_sub (status_line h) (ascii '' 101 '') \<noteq> None"
      "c = \<lparr> tc_reads = rs, tc_writes = ok', tc_sent = upgrade_request host hs, tc_rx = drop b h \<rparr>"
    using assms by (auto simp: connect_and_upgrade_def stream_write_def Let_def
        split: if_splits prod.splits sum.splits option.splits nat.splits)
  have "h @ stream_data rs = stream_data reads" "find_sub h crlf2 = Some (b - 4)" "4 \<le> b" "b \<le> length h"
    using head_loop_split [OF hl(1)] by simp_all
  then have "drop b h @ stream_data rs = drop (b - 4 + 4) (stream_data reads)"
    by (simp flip: \<open>h @ stream_data rs = stream_data reads\<close>)
  with hl(2,3) \<open>find_sub h crlf2 = Some (b - 4)\<close> \<open>h @ stream_data rs = stream_data reads\<close> show ?thesis
    by auto
qed

definition sample_response :: "read_result list" where
  "sample_response = [ReadOk (ascii ''HTTP/1.1 101 Switching''), ReadOk [13, 10, 13, 10, 2, 0, 1, 9]]"

theorem upgrade_keeps_early_bytes_witness:
  "\<exists>c. connect_and_upgrade sample_response None ''h'' ''AA=='' = Inr c \<and>
     tc_sent c = upgrade_request ''h'' ''AA=='' \<and> tc_rx c = [2, 0, 1, 9]"
proof -
  have "trim (ascii ''HTTP/1.1 101 Switching'' @ [13]) = ascii ''HTTP/1.1 101 Switching''"
    by (simp add: trim_def strip.simps ws_prefix_def ws_suffix_def ascii_ws_def ws2_def ws3_def ascii_def)
  then have e: "connect_and_upgrade sample_response None ''h'' ''AA=='' =
      Inr \<lparr> tc_reads = [], tc_writes = None, tc_sent = upgrade_request ''h'' ''AA=='', tc_rx = [2, 0, 1, 9] \<rparr>"
    by (simp add: connect_and_upgrade_def sample_response_def stream_write_def find_sub_def crlf2_def
        status_line_def ascii_def)
  with upgrade_keeps_early_bytes [OF e] show ?thesis by simp
qed

text \<open>
  The handshake header can be decoded: \<open>base64_std\<close> never panics, its output has four
  characters per started group of three bytes, and a standard decoder returns the input.
\<close>

theorem base64_roundtrip:
  "\<exists>e. base64_std d = Some e \<and> unbase64 e = Some d \<and> length e = 4 * ((length d + 2) div 3)"
  using b64_loop_decodes [of d] by (simp add: base64_std_def)

end
