(* ===== verification/Noise.thy ===== *)
theory Noise
  imports Wg Transport
begin

text \<open>
  \<^verbatim>\<open>core/src/noise.rs\<close> and \<open>handshake\<close> of \<^verbatim>\<open>src/control/mod.rs\<close>: the Noise IK handshake that is
  driven by the \<open>snow\<close> crate, and the record layer of the control connection. \<open>snow\<close> is the
  parameter \<open>snow_ops\<close>; the AEAD is that of \<open>wg_crypto\<close>. Shown: what one end seals the
  other opens, in order, however the stream is cut, and no nonce repeats.
\<close>

definition PROTOCOL_VERSION :: u16 where "PROTOCOL_VERSION = 1"
definition PROLOGUE :: bytes where "PROLOGUE = ascii ''Tailscale Control Protocol v1''"
definition NOISE_INITIATION :: u8 where "NOISE_INITIATION = 1"
definition NOISE_RESPONSE :: u8 where "NOISE_RESPONSE = 2"
definition NOISE_ERROR :: u8 where "NOISE_ERROR = 3"
definition NOISE_RECORD :: u8 where "NOISE_RECORD = 4"

text \<open>
  \<open>sn_build prologue private remote\<close> is the builder's chain up to \<open>build_initiator\<close>;
  \<open>sn_write\<close> and \<open>sn_read\<close> are \<open>write_message\<close> with an empty payload and \<open>read_message\<close>.
\<close>

record 's snow_ops =
  sn_build :: "bytes \<Rightarrow> bytes \<Rightarrow> bytes \<Rightarrow> 's option"
  sn_write :: "'s \<Rightarrow> ('s \<times> bytes) option"
  sn_read :: "'s \<Rightarrow> bytes \<Rightarrow> 's option"
  sn_finished :: "'s \<Rightarrow> bool"
  sn_split :: "'s \<Rightarrow> bytes \<times> bytes"

datatype noise_error = BuildInitiator | WriteInitiation | ReadResponse | NotFinished | OpenRecord u64

record noise_transport =
  nt_send :: bytes
  nt_recv :: bytes
  nt_tx_nonce :: u64
  nt_rx_nonce :: u64

definition noise_start :: "'s snow_ops \<Rightarrow> bytes \<Rightarrow> bytes \<Rightarrow> noise_error + 's \<times> bytes" where
  "noise_start S machine_priv control_pub =
    (case sn_build S PROLOGUE machine_priv control_pub of
       None \<Rightarrow> Inl BuildInitiator
     | Some hs \<Rightarrow>
       (case sn_write S hs of
          None \<Rightarrow> Inl WriteInitiation
        | Some (hs, noise) \<Rightarrow>
            Inr (hs, to_be_bytes PROTOCOL_VERSION @ [NOISE_INITIATION] @ to_be_bytes (of_nat (length noise) :: u16) @ noise)))"

definition noise_transport_new :: "bytes \<Rightarrow> bytes \<Rightarrow> noise_transport" where
  "noise_transport_new send_key recv_key =
    \<lparr>nt_send = send_key, nt_recv = recv_key, nt_tx_nonce = 0, nt_rx_nonce = 0\<rparr>"

definition noise_complete :: "'s snow_ops \<Rightarrow> 's \<Rightarrow> bytes \<Rightarrow> noise_error + noise_transport" where
  "noise_complete S hs resp_noise =
    (case sn_read S hs resp_noise of
       None \<Rightarrow> Inl ReadResponse
     | Some hs \<Rightarrow>
       if \<not> sn_finished S hs then Inl NotFinished
       else (let (k_send, k_recv) = sn_split S hs in Inr (noise_transport_new k_send k_recv)))"

definition be_nonce :: "u64 \<Rightarrow> bytes" where
  "be_nonce counter = put (replicate 12 0) 4 (to_be_bytes counter)"

definition seal_record :: "wg_crypto \<Rightarrow> noise_transport \<Rightarrow> bytes \<Rightarrow> noise_transport \<times> bytes" where
  "seal_record C t plaintext =
    (let nonce = be_nonce (nt_tx_nonce t);
         t = t\<lparr>nt_tx_nonce := nt_tx_nonce t + 1\<rparr>;
         ct = chacha_encrypt C (nt_send t) nonce [] plaintext
     in (t, NOISE_RECORD # to_be_bytes (of_nat (length ct) :: u16) @ ct))"

definition open_record :: "wg_crypto \<Rightarrow> noise_transport \<Rightarrow> bytes \<Rightarrow> noise_transport \<times> (noise_error + bytes)" where
  "open_record C t ciphertext =
    (let nonce = be_nonce (nt_rx_nonce t);
         t = t\<lparr>nt_rx_nonce := nt_rx_nonce t + 1\<rparr>
     in (t, case chacha_decrypt C (nt_recv t) nonce [] ciphertext of
              None \<Rightarrow> Inl (OpenRecord (nt_rx_nonce t - 1))
            | Some pt \<Rightarrow> Inr pt))"

subsection \<open>The control handshake\<close>

datatype control_error =
    NoiseFailed noise_error | TcpConnect | ConnFailed conn_error | ControlSaid bytes | UnexpectedFrame u8

text \<open>
  \<open>handshake\<close>: \<open>tcp\<close> is what \<open>tcp_connect\<close> returns, a stream given by its reads and how many
  writes it takes (\<open>None\<close>: all of them); the Base64 text is that of the initiation.
\<close>

type_synonym tcp_result = "(read_result list \<times> nat option) option"

definition control_handshake ::
  "'s snow_ops \<Rightarrow> string \<Rightarrow> tcp_result \<Rightarrow> bytes \<Rightarrow> bytes \<Rightarrow> (control_error + tconn \<times> noise_transport) panics" where
  "control_handshake S host tcp machine_priv control_pub =
    (case noise_start S machine_priv control_pub of
       Inl e \<Rightarrow> Some (Inl (NoiseFailed e))
     | Inr (hs, framed_init) \<Rightarrow> do {
       header \<leftarrow> base64_std framed_init;
       Some (case tcp of None \<Rightarrow> Inl TcpConnect | Some (reads, writes) \<Rightarrow>
         (case connect_and_upgrade reads writes host (map (\<lambda>b. char_of (unat b)) header) of
         Inl e \<Rightarrow> Inl (ConnFailed e)
       | Inr conn \<Rightarrow>
         (case conn_read_frame conn of
            (conn, Inl e) \<Rightarrow> Inl (ConnFailed e)
          | (conn, Inr (ty, payload)) \<Rightarrow>
            if ty = NOISE_ERROR then Inl (ControlSaid payload)
            else if ty \<noteq> NOISE_RESPONSE then Inl (UnexpectedFrame ty)
            else (case noise_complete S hs payload of
                    Inl e \<Rightarrow> Inl (NoiseFailed e)
                  | Inr tr \<Rightarrow> Inr (conn, tr))))) })"

subsection \<open>Records\<close>

primrec seal_all :: "wg_crypto \<Rightarrow> noise_transport \<Rightarrow> bytes list \<Rightarrow> noise_transport \<times> bytes list" where
  "seal_all C t [] = (t, [])"
| "seal_all C t (p # ps) =
    (let (t, r) = seal_record C t p; (t, rs) = seal_all C t ps in (t, r # rs))"

text \<open>Reading a frame and opening it, as many times.\<close>

primrec read_records ::
  "wg_crypto \<Rightarrow> nat \<Rightarrow> tconn \<Rightarrow> noise_transport \<Rightarrow> (tconn \<times> noise_transport \<times> bytes list) option" where
  "read_records C 0 c t = Some (c, t, [])"
| "read_records C (Suc n) c t =
    (case conn_read_frame c of
       (c, Inl e) \<Rightarrow> None
     | (c, Inr (ty, ct)) \<Rightarrow>
       if ty \<noteq> NOISE_RECORD then None
       else (case open_record C t ct of
               (t, Inl e) \<Rightarrow> None
             | (t, Inr pt) \<Rightarrow> do { (c, t, pts) \<leftarrow> read_records C n c t; Some (c, t, pt # pts) }))"

lemma be_nonce_eq: "be_nonce c = [0, 0, 0, 0] @ to_be_bytes c"
  by (simp add: be_nonce_def put_def)

lemma be_nonce_inject [simp]: "be_nonce a = be_nonce b \<longleftrightarrow> a = b"
  by (simp add: be_nonce_eq)

lemma seal_record_frame:
  assumes "wg_crypto_lengths C" and "seal_record C t p = (t', r)" and "length p \<le> 65519"
  shows "\<exists>ct. r = enc_frame (NOISE_RECORD, ct) \<and> length ct < 65536 \<and> ct = chacha_encrypt C (nt_send t) (be_nonce (nt_tx_nonce t)) [] p \<and>
    t' = t\<lparr>nt_tx_nonce := nt_tx_nonce t + 1\<rparr>"
  using assms by (auto simp: seal_record_def enc_frame_def Let_def wg_crypto_lengths_def)

lemma read_records_all:
  assumes ok: "wg_crypto_ok C"
  shows "seal_all C t ps = (t', rs) \<Longrightarrow> list_all (\<lambda>p. length p \<le> 65519) ps \<Longrightarrow> tc_pending c = concat rs @ rest \<Longrightarrow>
    nt_recv u = nt_send t \<Longrightarrow> nt_rx_nonce u = nt_tx_nonce t \<Longrightarrow>
    \<exists>c' u'. read_records C (length ps) c u = Some (c', u', ps) \<and> tc_pending c' = rest \<and> nt_rx_nonce u' = nt_tx_nonce t'"
proof (induction ps arbitrary: t t' rs c u)
  case (Cons p ps)
  obtain t1 r where 1: "seal_record C t p = (t1, r)" by fastforce
  obtain t2 rs2 where 2: "seal_all C t1 ps = (t2, rs2)" by fastforce
  have rs: "rs = r # rs2" "t' = t2" using Cons.prems(1) 1 2 by simp_all
  obtain ct where f: "r = enc_frame (NOISE_RECORD, ct)" "length ct < 65536"
      "ct = chacha_encrypt C (nt_send t) (be_nonce (nt_tx_nonce t)) [] p" "t1 = t\<lparr>nt_tx_nonce := nt_tx_nonce t + 1\<rparr>"
    using seal_record_frame [OF wg_crypto_ok_lengths [OF ok] 1] Cons.prems(2) by auto
  obtain c1 where c1: "conn_read_frame c = (c1, Inr (NOISE_RECORD, ct))" "tc_pending c1 = concat rs2 @ rest"
    using read_frame_next [of c "(NOISE_RECORD, ct)" "concat rs2 @ rest"] Cons.prems(3) rs f(1,2) by auto
  define u1 where "u1 = u\<lparr>nt_rx_nonce := nt_rx_nonce u + 1\<rparr>"
  have o: "open_record C u ct = (u1, Inr p)"
    using ok Cons.prems(4,5) f(3) by (simp add: open_record_def Let_def u1_def wg_crypto_ok_def)
  have "nt_recv u1 = nt_send t1" "nt_rx_nonce u1 = nt_tx_nonce t1" using Cons.prems(4,5) f(4) by (simp_all add: u1_def)
  from Cons.IH [OF 2 _ c1(2) this] Cons.prems(2) c1(1) o rs show ?case by auto
qed simp

subsection \<open>Property\<close>

text \<open>
  The control channel delivers: plaintexts of at most 65519 bytes (the session sends at most
  2048 per record) sealed by one end are opened by the other end, whose keys are swapped and
  whose counter agrees, in the same order and unchanged, however TCP cuts the records; what
  follows them stays unread and the counters agree again. Each record has its own nonce.
\<close>

theorem control_records_read_back:
  assumes "wg_crypto_ok C" and "seal_all C t ps = (t', rs)" and "list_all (\<lambda>p. length p \<le> 65519) ps"
    and "nt_recv u = nt_send t" and "nt_rx_nonce u = nt_tx_nonce t"
    and "[] \<notin> set ds" and "tc_rx c @ concat ds = concat rs @ rest" and "tc_reads c = cut_as ds"
    and "length ps \<le> 2 ^ 64"
  shows "\<exists>c' u'. read_records C (length ps) c u = Some (c', u', ps) \<and> tc_rx c' @ stream_data (tc_reads c') = rest \<and>
    nt_rx_nonce u' = nt_tx_nonce t' \<and> distinct (map (\<lambda>i. be_nonce (nt_tx_nonce t + of_nat i)) [0..<length ps])"
proof -
  have "(of_nat i :: u64) \<noteq> of_nat j" if "i < length ps" "j < length ps" "i \<noteq> j" for i j
    using assms(9) that by (simp add: word_of_nat_eq_iff take_bit_nat_eq_self)
  then have "distinct (map (\<lambda>i. be_nonce (nt_tx_nonce t + of_nat i)) [0..<length ps])"
    unfolding distinct_map inj_on_def by (auto, metis)
  then show ?thesis
    using read_records_all [OF assms(1-3), of c rest u] assms(4-8) by (simp add: tc_pending_def stream_data_cut)
qed

theorem control_records_read_back_witness:
  "\<exists>c' u'. read_records toy_crypto (Suc (Suc 0)) \<lparr>tc_reads = cut_as [concat (snd (seal_all toy_crypto (noise_transport_new [1] [2]) [[5, 6], [7]]))],
      tc_writes = None, tc_sent = [], tc_rx = []\<rparr> (noise_transport_new [2] [1]) = Some (c', u', [[5, 6], [7]])"
proof -
  obtain t' rs where s: "seal_all toy_crypto (noise_transport_new [1] [2]) [[5, 6], [7]] = (t', rs)" by fastforce
  have "concat rs \<noteq> []" using s by (auto simp: seal_record_def Let_def split: prod.splits)
  then show ?thesis
    using control_records_read_back [OF toy_crypto_ok s, of "noise_transport_new [2] [1]" "[concat rs]"
        "\<lparr>tc_reads = cut_as [concat rs], tc_writes = None, tc_sent = [], tc_rx = []\<rparr>" "[]"] s
    by (auto simp: noise_transport_new_def simp del: read_records.simps seal_all.simps)
qed

end
