(* ===== verification/Http2.thy ===== *)
theory Http2
  imports Noise
begin

text \<open>
  \<^verbatim>\<open>core/src/h2.rs\<close>: the HTTP/2 client that runs inside the Noise records. A session is the
  connection, the record layer, the plaintext not yet consumed and the next stream id; each
  operation returns the new session and an error or a value. Loops that wait for frames
  terminate because every frame consumes input; the stream counter wraps as in a release build
  (it starts at 1 and each session makes a handful of requests). What the client computes is
  shown in \<open>Http2_Client\<close>.
\<close>

definition PREFACE :: bytes where
  "PREFACE = ascii ''PRI * HTTP/2.0'' @ [13, 10, 13, 10] @ ascii ''SM'' @ [13, 10, 13, 10]"

definition EARLY_MAGIC :: bytes where "EARLY_MAGIC = [0xff, 0xff, 0xff, 0x54, 0x53]"

definition FT_DATA :: u8 where "FT_DATA = 0"
definition FT_HEADERS :: u8 where "FT_HEADERS = 1"
definition FT_SETTINGS :: u8 where "FT_SETTINGS = 4"
definition FT_GOAWAY :: u8 where "FT_GOAWAY = 7"
definition FT_WINDOW_UPDATE :: u8 where "FT_WINDOW_UPDATE = 8"
definition FL_END_STREAM :: u8 where "FL_END_STREAM = 1"
definition FL_END_HEADERS :: u8 where "FL_END_HEADERS = 4"
definition FL_ACK :: u8 where "FL_ACK = 1"
definition MAX_FRAME_SIZE :: u32 where "MAX_FRAME_SIZE = 16384"

lemmas frame_types = FT_DATA_def FT_HEADERS_def FT_SETTINGS_def FT_GOAWAY_def FT_WINDOW_UPDATE_def
lemmas frame_flags = FL_END_STREAM_def FL_END_HEADERS_def FL_ACK_def

datatype h2_error =
    H2Conn conn_error | H2Noise noise_error | H2ControlError bytes | H2FrameType u8
  | GoAwayStartup | GoAway u16 | GoAwayMap | MapClosed | MapClosedHeaders

record h2_session =
  h2_conn :: tconn
  h2_tr :: noise_transport
  h2_rx :: bytes
  h2_next_stream :: u32
  h2_authority :: string

record h2_frame =
  fr_typ :: u8
  fr_flags :: u8
  fr_stream_id :: u32
  fr_payload :: bytes

subsection \<open>Frames and headers\<close>

definition frame :: "u8 \<Rightarrow> u8 \<Rightarrow> u32 \<Rightarrow> bytes \<Rightarrow> bytes" where
  "frame ty flags stream_id payload =
    (let len = length payload
     in [of_nat (len div 2 ^ 16), of_nat (len div 2 ^ 8), of_nat len, ty, flags] @
        to_be_bytes (stream_id AND 0x7fffffff) @ payload)"

function enc_rem :: "nat \<Rightarrow> bytes" where
  "enc_rem r = (if r \<ge> 0x80 then of_nat (r mod 128 + 128) # enc_rem (r div 128) else [of_nat r])"
  by pat_completeness auto
termination by (relation "measure id") auto

declare enc_rem.simps [simp del]

definition enc_str :: "bytes \<Rightarrow> bytes" where
  "enc_str s =
    (let len = length s
     in (if len < 0x7f then [of_nat len] else 0x7f # enc_rem (len - 0x7f)) @ s)"

definition enc_header :: "bytes \<Rightarrow> bytes \<Rightarrow> bytes" where
  "enc_header name value = 0x00 # enc_str name @ enc_str value"

definition post_headers :: "string \<Rightarrow> string \<Rightarrow> bytes \<Rightarrow> (bytes \<times> bytes) list" where
  "post_headers authority path body =
    [(ascii '':method'', ascii ''POST''), (ascii '':scheme'', ascii ''http''), (ascii '':authority'', ascii authority),
     (ascii '':path'', ascii path), (ascii ''content-type'', ascii ''application/json''),
     (ascii ''content-length'', decimal (length body)), (ascii ''accept'', ascii ''application/json'')]"

definition post_frames :: "string \<Rightarrow> u32 \<Rightarrow> string \<Rightarrow> bytes \<Rightarrow> bytes" where
  "post_frames authority stream_id path body =
    frame FT_HEADERS FL_END_HEADERS stream_id (concat (map (\<lambda>(n, v). enc_header n v) (post_headers authority path body))) @
    frame FT_DATA FL_END_STREAM stream_id body"

text \<open>\<open>u16::from_str\<close> of the status value.\<close>

definition parse_u16 :: "string \<Rightarrow> u16 option" where
  "parse_u16 s =
    (let ds = (case s of c # cs \<Rightarrow> if c = CHR ''+'' then cs else s | [] \<Rightarrow> [])
     in if ds = [] then None
        else case parse_digits 0 ds of None \<Rightarrow> None | Some n \<Rightarrow> if n < 2 ^ 16 then Some (of_nat n) else None)"

text \<open>\<open>decode_status\<close>, the rest of the block as a list; \<open>block[i]\<close> out of range is a \<open>break\<close> before it.\<close>

function decode_status :: "bytes \<Rightarrow> u16 option" where
  "decode_status [] = None"
| "decode_status (b # r) =
    (if b AND 0x80 \<noteq> 0 then (if b AND 0x7f = 8 then Some 200 else decode_status r)
     else if b AND 0xf0 = 0 then
       (case r of [] \<Rightarrow> None | nl # r1 \<Rightarrow>
         let nlen = unat (nl AND 0x7f) in
         if nlen > length r1 then None
         else (case drop nlen r1 of [] \<Rightarrow> None | vl # r2 \<Rightarrow>
           let vlen = unat (vl AND 0x7f) in
           if vlen > length r2 then None
           else if take nlen r1 = ascii '':status''
           then parse_u16 (map (\<lambda>b. char_of (unat b)) (take vlen r2))
           else decode_status (drop vlen r2)))
     else None)"
  by pat_completeness auto
termination
proof (relation "measure length", goal_cases)
  case (3 b r nl r1 nlen vl r2 vlen)
  then have "length (drop nlen r1) = Suc (length r2)" by simp
  then show ?case using 3 by simp
qed auto

declare decode_status.simps [simp del]

definition strip_wire_prefix :: "bytes \<Rightarrow> bytes" where
  "strip_wire_prefix body =
    (if length body \<ge> 5 \<and> body ! 0 \<noteq> 0x7B \<and> body ! 4 = 0x7B then drop 4 body else body)"

subsection \<open>Record plumbing\<close>

primrec send_chunks :: "wg_crypto \<Rightarrow> bytes list \<Rightarrow> h2_session \<Rightarrow> h2_session \<times> (h2_error + unit)" where
  "send_chunks C [] h = (h, Inr ())"
| "send_chunks C (chunk # cs) h =
    (let (t, rec) = seal_record C (h2_tr h) chunk; h = h\<lparr>h2_tr := t\<rparr>
     in case conn_write_all (h2_conn h) rec of
          (conn, Inl e) \<Rightarrow> (h\<lparr>h2_conn := conn\<rparr>, Inl (H2Conn e))
        | (conn, Inr _) \<Rightarrow> send_chunks C cs (h\<lparr>h2_conn := conn\<rparr>))"

definition h2_send :: "wg_crypto \<Rightarrow> bytes \<Rightarrow> h2_session \<Rightarrow> h2_session \<times> (h2_error + unit)" where
  "h2_send C data h = send_chunks C (chunks 2048 data) h"

definition pull :: "wg_crypto \<Rightarrow> h2_session \<Rightarrow> h2_session \<times> (h2_error + unit)" where
  "pull C h =
    (case conn_read_frame (h2_conn h) of
       (conn, Inl e) \<Rightarrow> (h\<lparr>h2_conn := conn\<rparr>, Inl (H2Conn e))
     | (conn, Inr (ty, ct)) \<Rightarrow>
       if ty = NOISE_RECORD then
         (case open_record C (h2_tr h) ct of
            (t, Inl e) \<Rightarrow> (h\<lparr>h2_conn := conn, h2_tr := t\<rparr>, Inl (H2Noise e))
          | (t, Inr pt) \<Rightarrow> (h\<lparr>h2_conn := conn, h2_tr := t, h2_rx := h2_rx h @ pt\<rparr>, Inr ()))
       else if ty = NOISE_ERROR then (h\<lparr>h2_conn := conn\<rparr>, Inl (H2ControlError ct))
       else (h\<lparr>h2_conn := conn\<rparr>, Inl (H2FrameType ty)))"

text \<open>What is left to read on the connection, counted so that every frame makes it smaller.\<close>

definition conn_size :: "tconn \<Rightarrow> nat" where
  "conn_size c = length (tc_rx c) + reads_size (tc_reads c)"

lemma fill_loop_size:
  "fill_loop n rs rx = (rs', rx', r) \<Longrightarrow> length rx' + reads_size rs' \<le> length rx + reads_size rs \<and> (r = Inr () \<longrightarrow> n \<le> length rx')"
proof (induction n rs rx rule: fill_loop.induct)
  case (1 n rs rx)
  show ?case
  proof (cases "n \<le> length rx")
    case True
    then show ?thesis using 1(2) by (subst (asm) fill_loop.simps) auto
  next
    case False
    show ?thesis
    proof (cases rs)
      case (Cons r0 rs0)
      show ?thesis
      proof (cases r0)
        case (ReadOk d)
        show ?thesis
        proof (cases "d = []")
          case d: False
          have "fill_loop n rs0 (rx @ d) = (rs', rx', r)"
            using 1(2) False Cons ReadOk d by (subst (asm) fill_loop.simps) auto
          from 1(1) [OF False Cons ReadOk d this] Cons ReadOk show ?thesis by auto
        qed (use 1(2) False Cons ReadOk in \<open>subst (asm) fill_loop.simps; auto\<close>)
      qed (use 1(2) False Cons in \<open>subst (asm) fill_loop.simps; auto\<close>)
    qed (use 1(2) False in \<open>subst (asm) fill_loop.simps; auto\<close>)
  qed
qed

lemma conn_take_size:
  assumes "conn_take n c = (c', Inr b)"
  shows "conn_size c' + n \<le> conn_size c \<and> tc_write_ok c' = tc_write_ok c"
  using assms fill_loop_size [of n "tc_reads c" "tc_rx c"]
  by (fastforce simp: conn_take_def fill_to_def conn_size_def split: prod.splits sum.splits)

lemma conn_read_frame_size:
  assumes "conn_read_frame c = (c', Inr f)"
  shows "conn_size c' < conn_size c \<and> tc_write_ok c' = tc_write_ok c"
proof -
  obtain c1 hdr n b where "conn_take 3 c = (c1, Inr hdr)" "conn_take n c1 = (c', Inr b)"
    using assms by (auto simp: conn_read_frame_def Let_def split: prod.splits sum.splits)
  then show ?thesis using conn_take_size [of 3 c c1] conn_take_size [of n c1 c'] by auto
qed

lemma pull_size:
  assumes "pull C h = (h', Inr ())"
  shows "conn_size (h2_conn h') < conn_size (h2_conn h)" "tc_write_ok (h2_conn h') = tc_write_ok (h2_conn h)"
proof -
  obtain f where "conn_read_frame (h2_conn h) = (h2_conn h', Inr f)"
    using assms by (auto simp: pull_def split: prod.splits sum.splits if_splits)
  from conn_read_frame_size [OF this]
  show "conn_size (h2_conn h') < conn_size (h2_conn h)" "tc_write_ok (h2_conn h') = tc_write_ok (h2_conn h)" by simp_all
qed

function h2_read_exact :: "wg_crypto \<Rightarrow> nat \<Rightarrow> h2_session \<Rightarrow> h2_session \<times> (h2_error + bytes)" where
  "h2_read_exact C n h =
    (if length (h2_rx h) < n then
       (case pull C h of (h, Inl e) \<Rightarrow> (h, Inl e) | (h, Inr _) \<Rightarrow> h2_read_exact C n h)
     else (h\<lparr>h2_rx := drop n (h2_rx h)\<rparr>, Inr (take n (h2_rx h))))"
  by pat_completeness auto
termination
  by (relation "measure (\<lambda>(C, n, h). conn_size (h2_conn h))") (auto dest: pull_size(1) [OF sym])

declare h2_read_exact.simps [simp del]

definition consume_early_payload :: "wg_crypto \<Rightarrow> h2_session \<Rightarrow> h2_session \<times> (h2_error + bytes option)" where
  "consume_early_payload C h =
    (case h2_read_exact C 9 h of
       (h, Inl e) \<Rightarrow> (h, Inl e)
     | (h, Inr hdr) \<Rightarrow>
       if take 5 hdr = EARLY_MAGIC then
         (case h2_read_exact C (unat (from_be_bytes [hdr ! 5, hdr ! 6, hdr ! 7, hdr ! 8] :: u32)) h of
            (h, Inl e) \<Rightarrow> (h, Inl e)
          | (h, Inr json) \<Rightarrow> (h, Inr (Some json)))
       else (h\<lparr>h2_rx := hdr @ h2_rx h\<rparr>, Inr None))"

definition h2_read_frame :: "wg_crypto \<Rightarrow> h2_session \<Rightarrow> h2_session \<times> (h2_error + h2_frame)" where
  "h2_read_frame C h =
    (case h2_read_exact C 9 h of
       (h, Inl e) \<Rightarrow> (h, Inl e)
     | (h, Inr hdr) \<Rightarrow>
       (let len = unat (hdr ! 0) * 65536 + unat (hdr ! 1) * 256 + unat (hdr ! 2);
            ty = hdr ! 3; flags = hdr ! 4;
            stream_id = from_be_bytes [hdr ! 5, hdr ! 6, hdr ! 7, hdr ! 8] AND 0x7fffffff
        in if len > 0 then
             (case h2_read_exact C len h of
                (h, Inl e) \<Rightarrow> (h, Inl e)
              | (h, Inr payload) \<Rightarrow> (h, Inr \<lparr>fr_typ = ty, fr_flags = flags, fr_stream_id = stream_id, fr_payload = payload\<rparr>))
           else (h, Inr \<lparr>fr_typ = ty, fr_flags = flags, fr_stream_id = stream_id, fr_payload = []\<rparr>)))"

definition window_update :: "wg_crypto \<Rightarrow> u32 \<Rightarrow> u32 \<Rightarrow> h2_session \<Rightarrow> h2_session \<times> (h2_error + unit)" where
  "window_update C stream_id inc h =
    (case h2_send C (frame FT_WINDOW_UPDATE 0 stream_id (to_be_bytes inc)) h of
       (h, Inl e) \<Rightarrow> (h, Inl e)
     | (h, Inr _) \<Rightarrow> h2_send C (frame FT_WINDOW_UPDATE 0 0 (to_be_bytes inc)) h)"

text \<open>Reading makes the session smaller: less on the connection, or as much and less plaintext.\<close>

definition h2_order :: "(h2_session \<times> h2_session) set" where
  "h2_order = inv_image (less_than <*lex*> less_than) (\<lambda>h. (conn_size (h2_conn h), length (h2_rx h)))"

lemma wf_h2_order: "wf h2_order"
  by (simp add: h2_order_def wf_lex_prod)

lemma h2_order_iff:
  "(h', h) \<in> h2_order \<longleftrightarrow> conn_size (h2_conn h') < conn_size (h2_conn h) \<or>
     conn_size (h2_conn h') = conn_size (h2_conn h) \<and> length (h2_rx h') < length (h2_rx h)"
  by (auto simp: h2_order_def)

lemma h2_read_exact_progress:
  "h2_read_exact C n h = (h', Inr b) \<Longrightarrow>
   (conn_size (h2_conn h') < conn_size (h2_conn h) \<or>
    conn_size (h2_conn h') = conn_size (h2_conn h) \<and> length (h2_rx h') + n = length (h2_rx h)) \<and>
   tc_write_ok (h2_conn h') = tc_write_ok (h2_conn h)"
proof (induction C n h rule: h2_read_exact.induct)
  case (1 C n h)
  show ?case
  proof (cases "length (h2_rx h) < n")
    case True
    then obtain h1 where p: "pull C h = (h1, Inr ())" "h2_read_exact C n h1 = (h', Inr b)"
      using 1(2) by (subst (asm) h2_read_exact.simps) (auto split: prod.splits sum.splits)
    from 1(1) [OF True p(1) [symmetric] refl p(2)] pull_size [OF p(1)] show ?thesis by auto
  next
    case False
    then show ?thesis using 1(2) by (subst (asm) h2_read_exact.simps) auto
  qed
qed

lemma h2_read_frame_progress:
  assumes "h2_read_frame C h = (h', Inr fr)"
  shows "(h', h) \<in> h2_order" and "tc_write_ok (h2_conn h') = tc_write_ok (h2_conn h)"
proof -
  obtain h1 hdr where 1: "h2_read_exact C 9 h = (h1, Inr hdr)"
    using assms by (auto simp: h2_read_frame_def split: prod.splits sum.splits)
  have "h' = h1 \<or> (\<exists>n b. h2_read_exact C n h1 = (h', Inr b))"
    using assms 1 by (auto simp: h2_read_frame_def Let_def split: prod.splits sum.splits if_splits)
  then show "(h', h) \<in> h2_order" and "tc_write_ok (h2_conn h') = tc_write_ok (h2_conn h)"
    using h2_read_exact_progress [OF 1] h2_read_exact_progress [of C _ h1 h'] unfolding h2_order_iff by fastforce+
qed

text \<open>Sending leaves the input alone.\<close>

definition same_input :: "h2_session \<Rightarrow> h2_session \<Rightarrow> bool" where
  "same_input h' h \<longleftrightarrow> tc_rx (h2_conn h') = tc_rx (h2_conn h) \<and> tc_reads (h2_conn h') = tc_reads (h2_conn h) \<and>
     tc_write_ok (h2_conn h') = tc_write_ok (h2_conn h) \<and> h2_rx h' = h2_rx h \<and>
     nt_recv (h2_tr h') = nt_recv (h2_tr h) \<and> nt_rx_nonce (h2_tr h') = nt_rx_nonce (h2_tr h) \<and>
     h2_next_stream h' = h2_next_stream h \<and> h2_authority h' = h2_authority h"

lemma same_input_refl [simp]: "same_input h h"
  by (simp add: same_input_def)

lemma same_input_trans: "same_input h'' h' \<Longrightarrow> same_input h' h \<Longrightarrow> same_input h'' h"
  by (simp add: same_input_def)

lemma same_input_order: "same_input h'' h' \<Longrightarrow> (h', h) \<in> h2_order \<Longrightarrow> (h'', h) \<in> h2_order"
  by (simp add: same_input_def h2_order_iff conn_size_def)

lemma send_chunks_input: "same_input (fst (send_chunks C cs h)) h"
proof (induction cs arbitrary: h)
  case (Cons c cs)
  show ?case
    by (auto simp: seal_record_def conn_write_all_def stream_write_def Let_def
        intro!: same_input_trans [OF Cons.IH] split: option.splits nat.splits) (auto simp: same_input_def split: nat.splits)
qed simp

lemma h2_send_input: "same_input (fst (h2_send C d h)) h"
  by (simp add: h2_send_def send_chunks_input)

lemma window_update_input: "same_input (fst (window_update C s i h)) h"
  using h2_send_input same_input_trans
  by (auto simp: window_update_def split: prod.splits sum.splits) (metis fst_conv)+

lemma send_chunks_ok: "tc_write_ok (h2_conn h) \<Longrightarrow> snd (send_chunks C cs h) = Inr ()"
  by (induction cs arbitrary: h) (auto simp: conn_write_all_def stream_write_def Let_def seal_record_def)

lemma h2_send_ok: "tc_write_ok (h2_conn h) \<Longrightarrow> \<exists>h'. h2_send C d h = (h', Inr ()) \<and> same_input h' h"
  using send_chunks_ok [of h C "chunks 2048 d"] h2_send_input [of C d h]
  by (cases "h2_send C d h") (simp add: h2_send_def)

lemma window_update_ok: "tc_write_ok (h2_conn h) \<Longrightarrow> \<exists>h'. window_update C s i h = (h', Inr ()) \<and> same_input h' h"
proof -
  assume w: "tc_write_ok (h2_conn h)"
  obtain h1 where 1: "h2_send C (frame FT_WINDOW_UPDATE 0 s (to_be_bytes i)) h = (h1, Inr ())" "same_input h1 h"
    using h2_send_ok [OF w] by blast
  then have "tc_write_ok (h2_conn h1)" using w by (simp add: same_input_def)
  then obtain h2 where "h2_send C (frame FT_WINDOW_UPDATE 0 0 (to_be_bytes i)) h1 = (h2, Inr ())" "same_input h2 h1"
    using h2_send_ok by blast
  with 1 show ?thesis by (auto simp: window_update_def intro: same_input_trans)
qed

subsection \<open>Responses\<close>

text \<open>\<open>read_response\<close>: what one frame does; \<open>True\<close> ends the loop.\<close>

definition ack_settings :: "wg_crypto \<Rightarrow> u8 \<Rightarrow> h2_session \<Rightarrow> h2_session \<times> (h2_error + unit)" where
  "ack_settings C flags h =
    (if flags AND FL_ACK = 0 then h2_send C (frame FT_SETTINGS FL_ACK 0 []) h else (h, Inr ()))"

definition response_step ::
  "wg_crypto \<Rightarrow> u32 \<Rightarrow> h2_frame \<Rightarrow> u16 \<Rightarrow> bytes \<Rightarrow> h2_session \<Rightarrow> h2_session \<times> (h2_error + bool \<times> u16 \<times> bytes)" where
  "response_step C stream_id fr status body h =
    (let ends = (fr_flags fr AND FL_END_STREAM \<noteq> 0)
     in if fr_stream_id fr \<noteq> stream_id \<and> fr_stream_id fr \<noteq> 0 then (h, Inr (False, status, body))
        else if fr_typ fr = FT_HEADERS then
          (h, Inr (ends, case decode_status (fr_payload fr) of Some s \<Rightarrow> s | None \<Rightarrow> status, body))
        else if fr_typ fr = FT_DATA then
          (let body = body @ fr_payload fr
           in if fr_payload fr \<noteq> [] then
                (case window_update C stream_id (of_nat (length (fr_payload fr))) h of
                   (h, Inl e) \<Rightarrow> (h, Inl e)
                 | (h, Inr _) \<Rightarrow> (h, Inr (ends, status, body)))
              else (h, Inr (ends, status, body)))
        else if fr_typ fr = FT_SETTINGS then
          (case ack_settings C (fr_flags fr) h of (h, Inl e) \<Rightarrow> (h, Inl e) | (h, Inr _) \<Rightarrow> (h, Inr (False, status, body)))
        else if fr_typ fr = FT_GOAWAY then (h, Inl (GoAway status))
        else (h, Inr (False, status, body)))"

lemma ack_settings_input: "same_input (fst (ack_settings C fl h)) h"
  by (simp add: ack_settings_def h2_send_input)

lemma response_step_input: "same_input (fst (response_step C sid fr status body h)) h"
proof -
  have "same_input h' h" if "window_update C s i h = (h', r)" for s i h' r using window_update_input that by (metis fst_conv)
  moreover have "same_input h' h" if "ack_settings C f h = (h', r)" for f h' r using ack_settings_input that by (metis fst_conv)
  ultimately show ?thesis by (auto simp: response_step_def Let_def split: prod.splits sum.splits)
qed

lemma response_smaller:
  "h2_read_frame C h = (h1, Inr fr) \<Longrightarrow> response_step C sid fr status body h1 = (h2, r) \<Longrightarrow> (h2, h) \<in> h2_order"
  using response_step_input [of C sid fr status body h1]
  by (auto intro: same_input_order h2_read_frame_progress)

function read_response ::
  "wg_crypto \<Rightarrow> u32 \<Rightarrow> u16 \<Rightarrow> bytes \<Rightarrow> h2_session \<Rightarrow> h2_session \<times> (h2_error + u16 \<times> bytes)" where
  "read_response C stream_id status body h =
    (case h2_read_frame C h of
       (h, Inl e) \<Rightarrow> (h, Inl e)
     | (h, Inr fr) \<Rightarrow>
       (case response_step C stream_id fr status body h of
          (h, Inl e) \<Rightarrow> (h, Inl e)
        | (h, Inr (ends, status, body)) \<Rightarrow>
          if ends then (h, Inr (status, strip_wire_prefix body)) else read_response C stream_id status body h))"
  by pat_completeness auto
termination
  by (relation "inv_image h2_order (\<lambda>(C, sid, status, body, h). h)")
    (auto simp: wf_h2_order intro: response_smaller [OF sym sym])

declare read_response.simps [simp del]

definition post_json :: "wg_crypto \<Rightarrow> string \<Rightarrow> bytes \<Rightarrow> h2_session \<Rightarrow> h2_session \<times> (h2_error + u16 \<times> bytes)" where
  "post_json C path body h =
    (let stream_id = h2_next_stream h;
         h = h\<lparr>h2_next_stream := h2_next_stream h + 2\<rparr>
     in case h2_send C (post_frames (h2_authority h) stream_id path body) h of
          (h, Inl e) \<Rightarrow> (h, Inl e)
        | (h, Inr _) \<Rightarrow> read_response C stream_id 0 [] h)"

definition post_stream :: "wg_crypto \<Rightarrow> string \<Rightarrow> bytes \<Rightarrow> h2_session \<Rightarrow> h2_session \<times> (h2_error + u32)" where
  "post_stream C path body h =
    (let stream_id = h2_next_stream h;
         h = h\<lparr>h2_next_stream := h2_next_stream h + 2\<rparr>
     in case h2_send C (post_frames (h2_authority h) stream_id path body) h of
          (h, Inl e) \<Rightarrow> (h, Inl e)
        | (h, Inr _) \<Rightarrow> (h, Inr stream_id))"

text \<open>\<open>read_data\<close>: \<open>Some\<close> data ends the loop.\<close>

definition data_step ::
  "wg_crypto \<Rightarrow> u32 \<Rightarrow> h2_frame \<Rightarrow> h2_session \<Rightarrow> h2_session \<times> (h2_error + bytes option)" where
  "data_step C stream_id fr h =
    (let ends = (fr_flags fr AND FL_END_STREAM \<noteq> 0)
     in if fr_typ fr = FT_DATA \<and> fr_stream_id fr = stream_id then
          (if fr_payload fr \<noteq> [] then
             (case window_update C stream_id (of_nat (length (fr_payload fr))) h of
                (h, Inl e) \<Rightarrow> (h, Inl e)
              | (h, Inr _) \<Rightarrow> (h, Inr (Some (fr_payload fr))))
           else if ends then (h, Inl MapClosed) else (h, Inr None))
        else if fr_typ fr = FT_HEADERS then (if ends then (h, Inl MapClosedHeaders) else (h, Inr None))
        else if fr_typ fr = FT_SETTINGS then
          (case ack_settings C (fr_flags fr) h of (h, Inl e) \<Rightarrow> (h, Inl e) | (h, Inr _) \<Rightarrow> (h, Inr None))
        else if fr_typ fr = FT_GOAWAY then (h, Inl GoAwayMap)
        else (h, Inr None))"

lemma data_step_input: "same_input (fst (data_step C sid fr h)) h"
proof -
  have "same_input h' h" if "window_update C s i h = (h', r)" for s i h' r using window_update_input that by (metis fst_conv)
  moreover have "same_input h' h" if "ack_settings C f h = (h', r)" for f h' r using ack_settings_input that by (metis fst_conv)
  ultimately show ?thesis by (auto simp: data_step_def Let_def split: prod.splits sum.splits)
qed

lemma data_smaller:
  "h2_read_frame C h = (h1, Inr fr) \<Longrightarrow> data_step C sid fr h1 = (h2, r) \<Longrightarrow> (h2, h) \<in> h2_order"
  using data_step_input [of C sid fr h1] by (auto intro: same_input_order h2_read_frame_progress)

function read_data :: "wg_crypto \<Rightarrow> u32 \<Rightarrow> h2_session \<Rightarrow> h2_session \<times> (h2_error + bytes)" where
  "read_data C stream_id h =
    (case h2_read_frame C h of
       (h, Inl e) \<Rightarrow> (h, Inl e)
     | (h, Inr fr) \<Rightarrow>
       (case data_step C stream_id fr h of
          (h, Inl e) \<Rightarrow> (h, Inl e)
        | (h, Inr (Some d)) \<Rightarrow> (h, Inr d)
        | (h, Inr None) \<Rightarrow> read_data C stream_id h))"
  by pat_completeness auto
termination
  by (relation "inv_image h2_order (\<lambda>(C, sid, h). h)")
    (auto simp: wf_h2_order intro: data_smaller [OF sym sym])

declare read_data.simps [simp del]

subsection \<open>Startup\<close>

function settings_loop :: "wg_crypto \<Rightarrow> h2_session \<Rightarrow> h2_session \<times> (h2_error + unit)" where
  "settings_loop C h =
    (case h2_read_frame C h of
       (h, Inl e) \<Rightarrow> (h, Inl e)
     | (h, Inr fr) \<Rightarrow>
       if fr_typ fr = FT_SETTINGS then ack_settings C (fr_flags fr) h
       else if fr_typ fr = FT_GOAWAY then (h, Inl GoAwayStartup)
       else settings_loop C h)"
  by pat_completeness auto
termination
  by (relation "inv_image h2_order snd") (auto simp: wf_h2_order intro: h2_read_frame_progress [OF sym])

declare settings_loop.simps [simp del]

definition h2_start ::
  "wg_crypto \<Rightarrow> tconn \<Rightarrow> noise_transport \<Rightarrow> string \<Rightarrow> h2_session \<times> (h2_error + bytes option)" where
  "h2_start C conn tr authority =
    (let h = \<lparr>h2_conn = conn, h2_tr = tr, h2_rx = [], h2_next_stream = 1, h2_authority = authority\<rparr>;
         hello = PREFACE @ frame FT_SETTINGS 0 0
           ([0x00, 0x02, 0x00, 0x00, 0x00, 0x00, 0x00, 0x05] @ to_be_bytes MAX_FRAME_SIZE)
     in case h2_send C hello h of
          (h, Inl e) \<Rightarrow> (h, Inl e)
        | (h, Inr _) \<Rightarrow>
          (case consume_early_payload C h of
             (h, Inl e) \<Rightarrow> (h, Inl e)
           | (h, Inr early) \<Rightarrow>
             (case settings_loop C h of (h, Inl e) \<Rightarrow> (h, Inl e) | (h, Inr _) \<Rightarrow> (h, Inr early))))"

end
