(* ===== verification/Control.thy ===== *)
theory Control
  imports Http2 Peers "HOL-Library.Finite_Map"
begin

text \<open>
  \<^verbatim>\<open>src/control/mod.rs\<close>: the control-plane client. It connects (handshake and HTTP/2 start-up), posts
  JSON requests and reads what it needs from the answers. The JSON library (serde_json), the
  Noise handshake (snow), the HTTPS client (ESP-IDF) and the values of \<open>config.rs\<close>, which is not
  in the repository, are parameters.
\<close>

subsection \<open>Parameters\<close>

text \<open>A JSON value; numbers other than unsigned ones are never looked at.\<close>

datatype json =
    JNull | JBool bool | JNum u64 | JOtherNum string | JStr string
  | JArr "json list" | JObj "(string, json) fmap"

text \<open>
  \<open>Value::to_string\<close> and \<open>from_slice\<close> (or \<open>from_str\<close>) into a \<open>Value\<close>, and \<open>from_slice\<close> into the
  structs of \<^verbatim>\<open>peers.rs\<close>.
\<close>

record serde =
  sj_to_string :: "json \<Rightarrow> bytes"
  sj_parse :: "bytes \<Rightarrow> json option"
  sj_map_resp :: "bytes \<Rightarrow> map_resp option"
  sj_filter_resp :: "bytes \<Rightarrow> filter_resp option"

record config =
  CONTROL_HOST :: string
  KEY_ENDPOINT_VER :: u32
  CAPABILITY_VERSION :: u32
  ADVERTISE_TAGS :: "string list"
  DEVICE_NAME :: string
  HOSTNAME :: string
  OS_NAME :: string
  OS_VERSION :: string
  GO_ARCH :: string
  SUBNET_ROUTES :: "string list"
  ADVERTISE_EXIT_NODE :: bool

definition json_get :: "json \<Rightarrow> string \<Rightarrow> json option" where
  "json_get v k = (case v of JObj m \<Rightarrow> fmlookup m k | _ \<Rightarrow> None)"

definition as_bool :: "json \<Rightarrow> bool option" where
  "as_bool v = (case v of JBool b \<Rightarrow> Some b | _ \<Rightarrow> None)"

definition as_str :: "json \<Rightarrow> string option" where
  "as_str v = (case v of JStr s \<Rightarrow> Some s | _ \<Rightarrow> None)"

subsection \<open>Requests\<close>

definition json_strs :: "string list \<Rightarrow> json" where
  "json_strs ss = JArr (map JStr ss)"

definition build_hostinfo_json :: "serde \<Rightarrow> config \<Rightarrow> bytes" where
  "build_hostinfo_json S cfg =
    (let hi = fmap_of_list
           [(''Hostname'', JStr (HOSTNAME cfg)), (''OS'', JStr (OS_NAME cfg)), (''OSVersion'', JStr (OS_VERSION cfg)),
            (''GoArch'', JStr (GO_ARCH cfg)),
            (''NetInfo'', JObj (fmap_of_list
              [(''MappingVariesByDestIP'', JBool False), (''HairPinning'', JBool False), (''WorkingIPv4'', JBool True),
               (''WorkingIPv6'', JBool False), (''PreferredDERP'', JNum 1), (''LinkType'', JStr ''wired'')])),
            (''InheritTailscaleNetfilter'', JBool False)];
         hi = (if ADVERTISE_TAGS cfg \<noteq> [] then fmupd ''RequestTags'' (json_strs (ADVERTISE_TAGS cfg)) hi else hi);
         routes = SUBNET_ROUTES cfg @ (if ADVERTISE_EXIT_NODE cfg then [''0.0.0.0/0'', ''::/0''] else []);
         hi = (if routes \<noteq> [] then fmupd ''RoutableIPs'' (json_strs routes) hi else hi)
     in sj_to_string S (JObj hi))"

definition build_map_json ::
  "serde \<Rightarrow> config \<Rightarrow> node_keys \<Rightarrow> bool \<Rightarrow> bool \<Rightarrow> bool \<Rightarrow> string list \<Rightarrow> bytes panics" where
  "build_map_json S cfg keys stream omit_peers keep_alive endpoints =
    (let hostinfo = (case sj_parse S (build_hostinfo_json S cfg) of Some v \<Rightarrow> v | None \<Rightarrow> JNull)
     in do {
       nk \<leftarrow> public_hex (nk_node keys);
       dk \<leftarrow> public_hex (nk_disco keys);
       Some (sj_to_string S (JObj (fmap_of_list
         [(''Version'', JNum (ucast (CAPABILITY_VERSION cfg))), (''NodeKey'', JStr (''nodekey:'' @ nk)),
          (''DiscoKey'', JStr (''discokey:'' @ dk)), (''Endpoints'', json_strs endpoints), (''Hostinfo'', hostinfo),
          (''Stream'', JBool stream), (''KeepAlive'', JBool keep_alive), (''ReadOnly'', JBool False),
          (''OmitPeers'', JBool omit_peers), (''Compress'', JStr [])]))) })"

definition build_register_json :: "serde \<Rightarrow> config \<Rightarrow> node_keys \<Rightarrow> string \<Rightarrow> bytes panics" where
  "build_register_json S cfg keys auth_key =
    (let hostinfo = (case sj_parse S (build_hostinfo_json S cfg) of Some v \<Rightarrow> v | None \<Rightarrow> JNull)
     in do {
       nk \<leftarrow> public_hex (nk_node keys);
       mk \<leftarrow> public_hex (nk_machine keys);
       dk \<leftarrow> public_hex (nk_disco keys);
       let obj = fmap_of_list
         [(''Version'', JNum (ucast (CAPABILITY_VERSION cfg))), (''NodeKey'', JStr (''nodekey:'' @ nk)),
          (''MachineKey'', JStr (''mkey:'' @ mk)), (''DiscoKey'', JStr (''discokey:'' @ dk)), (''Hostinfo'', hostinfo),
          (''Endpoints'', JArr []), (''Capabilities'', JArr []), (''DeviceName'', JStr (DEVICE_NAME cfg)),
          (''Ephemeral'', JBool False)];
       let obj = (if auth_key \<noteq> [] then fmupd ''Auth'' (JObj (fmap_of_list [(''AuthKey'', JStr auth_key)])) obj else obj);
       Some (sj_to_string S (JObj obj)) })"

subsection \<open>Sessions\<close>

datatype ctl_error =
    Handshake control_error | Http2Start h2_error | Post h2_error | Chunk h2_error | PeerList peers_error
  | HttpGet | KeyJson | MissingPublicKey | MkeyHex

definition connect ::
  "wg_crypto \<Rightarrow> 's snow_ops \<Rightarrow> config \<Rightarrow> tcp_result \<Rightarrow> bytes \<Rightarrow> bytes \<Rightarrow> (ctl_error + h2_session) panics" where
  "connect C N cfg tcp machine_priv control_pub = do {
     r \<leftarrow> control_handshake N (CONTROL_HOST cfg) tcp machine_priv control_pub;
     Some (case r of
       Inl e \<Rightarrow> Inl (Handshake e)
     | Inr (conn, tr) \<Rightarrow>
       (case h2_start C conn tr (CONTROL_HOST cfg) of
          (sess, Inl e) \<Rightarrow> Inl (Http2Start e)
        | (sess, Inr early) \<Rightarrow> Inr sess)) }"

text \<open>\<open>raw\<close> is kept as the bytes that the code converts to text for display.\<close>

record register_result =
  rr_status :: u16
  rr_machine_authorized :: bool
  rr_auth_url :: "string option"
  rr_raw :: bytes

definition register ::
  "wg_crypto \<Rightarrow> serde \<Rightarrow> config \<Rightarrow> h2_session \<Rightarrow> node_keys \<Rightarrow> string \<Rightarrow> (h2_session \<times> (ctl_error + register_result)) panics" where
  "register C S cfg sess keys auth_key = do {
     body \<leftarrow> build_register_json S cfg keys auth_key;
     Some (case post_json C ''/machine/register'' body sess of
       (sess, Inl e) \<Rightarrow> (sess, Inl (Post e))
     | (sess, Inr (status, resp)) \<Rightarrow>
       (let v = (case sj_parse S resp of Some v \<Rightarrow> v | None \<Rightarrow> JNull);
            machine_authorized =
              (case Option.bind (json_get v ''MachineAuthorized'') as_bool of Some b \<Rightarrow> b | None \<Rightarrow> False);
            auth_url =
              (case Option.bind (json_get v ''AuthURL'') as_str of Some s \<Rightarrow> if s \<noteq> [] then Some s else None | None \<Rightarrow> None)
        in (sess, Inr \<lparr>rr_status = status, rr_machine_authorized = machine_authorized, rr_auth_url = auth_url, rr_raw = resp\<rparr>))) }"

definition connect_and_register ::
  "wg_crypto \<Rightarrow> 's snow_ops \<Rightarrow> serde \<Rightarrow> config \<Rightarrow> tcp_result \<Rightarrow> bytes \<Rightarrow> bytes \<Rightarrow> node_keys \<Rightarrow> string \<Rightarrow>
     (ctl_error + register_result) panics" where
  "connect_and_register C N S cfg tcp machine_priv control_pub keys auth_key = do {
     r \<leftarrow> connect C N cfg tcp machine_priv control_pub;
     (case r of
        Inl e \<Rightarrow> Some (Inl e)
      | Inr sess \<Rightarrow> do { (sess, res) \<leftarrow> register C S cfg sess keys auth_key; Some res }) }"

subsection \<open>The map\<close>

text \<open>
  \<open>scan_tailscale_ip\<close>. The text taken out is only used when it consists of digits and dots, so
  that it is valid UTF-8.
\<close>

definition scan_tailscale_ip :: "bytes \<Rightarrow> string option" where
  "scan_tailscale_ip raw = do {
     pos \<leftarrow> find_sub raw (0x22 # ascii ''100.'');
     let start = pos + 1;
     let s = map (\<lambda>b. char_of (unat b)) (takeWhile (\<lambda>b. b \<noteq> 0x2F \<and> b \<noteq> 0x22) (drop start raw));
     if list_all (\<lambda>c. is_digit c \<or> c = CHR ''.'') s \<and> length s \<ge> 7 then Some s else None }"

record map_result =
  mp_status :: u16
  mp_ip :: "string option"
  mp_body_len :: nat

definition fetch_map ::
  "wg_crypto \<Rightarrow> serde \<Rightarrow> config \<Rightarrow> h2_session \<Rightarrow> node_keys \<Rightarrow> (h2_session \<times> (ctl_error + map_result)) panics" where
  "fetch_map C S cfg sess keys = do {
     body \<leftarrow> build_map_json S cfg keys False False False [];
     Some (case post_json C ''/machine/map'' body sess of
       (sess, Inl e) \<Rightarrow> (sess, Inl (Post e))
     | (sess, Inr (status, resp)) \<Rightarrow>
         (sess, Inr \<lparr>mp_status = status, mp_ip = scan_tailscale_ip resp, mp_body_len = length resp\<rparr>)) }"

definition fetch_peers ::
  "wg_crypto \<Rightarrow> 's snow_ops \<Rightarrow> serde \<Rightarrow> config \<Rightarrow> tcp_result \<Rightarrow> bytes \<Rightarrow> bytes \<Rightarrow> node_keys \<Rightarrow> string list \<Rightarrow>
     (ctl_error + string option \<times> peer_info list \<times> cidr list option) panics" where
  "fetch_peers C N S cfg tcp machine_priv control_pub keys endpoints = do {
     r \<leftarrow> connect C N cfg tcp machine_priv control_pub;
     (case r of
        Inl e \<Rightarrow> Some (Inl e)
      | Inr sess \<Rightarrow> do {
        body \<leftarrow> build_map_json S cfg keys False False False endpoints;
        (case post_json C ''/machine/map'' body sess of
           (sess, Inl e) \<Rightarrow> Some (Inl (Post e))
         | (sess, Inr (status, resp)) \<Rightarrow> do {
             let ip = scan_tailscale_ip resp;
             l \<leftarrow> parse_peers (sj_map_resp S) resp;
             (case l of
                Inl e \<Rightarrow> Some (Inl (PeerList e))
              | Inr list \<Rightarrow>
                  Some (Inr (ip, list, Option.bind ip (\<lambda>our. parse_allowed_srcs (sj_filter_resp S) resp our)))) }) }) }"

definition update_endpoints ::
  "wg_crypto \<Rightarrow> 's snow_ops \<Rightarrow> serde \<Rightarrow> config \<Rightarrow> tcp_result \<Rightarrow> bytes \<Rightarrow> bytes \<Rightarrow> node_keys \<Rightarrow> string list \<Rightarrow>
     (ctl_error + u16) panics" where
  "update_endpoints C N S cfg tcp machine_priv control_pub keys endpoints = do {
     r \<leftarrow> connect C N cfg tcp machine_priv control_pub;
     (case r of
        Inl e \<Rightarrow> Some (Inl e)
      | Inr sess \<Rightarrow> do {
        body \<leftarrow> build_map_json S cfg keys False True False endpoints;
        Some (case post_json C ''/machine/map'' body sess of
           (sess, Inl e) \<Rightarrow> Inl (Post e)
         | (sess, Inr (status, resp)) \<Rightarrow> Inr status) }) }"

text \<open>The chunks that \<open>stream_map\<close> scans for the address.\<close>

primrec scan_chunks ::
  "wg_crypto \<Rightarrow> u32 \<Rightarrow> nat \<Rightarrow> string option \<Rightarrow> h2_session \<Rightarrow> h2_session \<times> (ctl_error + string option)" where
  "scan_chunks C sid 0 ip sess = (sess, Inr ip)"
| "scan_chunks C sid (Suc n) ip sess =
    (case read_data C sid sess of
       (sess, Inl e) \<Rightarrow> (sess, Inl (Chunk e))
     | (sess, Inr chunk) \<Rightarrow>
       (let ip = scan_tailscale_ip chunk in if ip \<noteq> None then (sess, Inr ip) else scan_chunks C sid n ip sess))"

definition stream_map ::
  "wg_crypto \<Rightarrow> 's snow_ops \<Rightarrow> serde \<Rightarrow> config \<Rightarrow> tcp_result \<Rightarrow> bytes \<Rightarrow> bytes \<Rightarrow> node_keys \<Rightarrow> string list \<Rightarrow>
     (ctl_error + h2_session \<times> u32 \<times> string option) panics" where
  "stream_map C N S cfg tcp machine_priv control_pub keys endpoints = do {
     r \<leftarrow> connect C N cfg tcp machine_priv control_pub;
     (case r of
        Inl e \<Rightarrow> Some (Inl e)
      | Inr sess \<Rightarrow> do {
        body \<leftarrow> build_map_json S cfg keys True True True endpoints;
        Some (case post_stream C ''/machine/map'' body sess of
           (sess, Inl e) \<Rightarrow> Inl (Post e)
         | (sess, Inr sid) \<Rightarrow>
           (case scan_chunks C sid 4 None sess of
              (sess, Inl e) \<Rightarrow> Inl e
            | (sess, Inr ip) \<Rightarrow> Inr (sess, sid, ip))) }) }"

subsection \<open>The control key\<close>

text \<open>\<open>http_get\<close> reads into a buffer of 512 bytes; an error counts as the end.\<close>

primrec http_get_loop :: "read_result list \<Rightarrow> bytes \<Rightarrow> bytes" where
  "http_get_loop [] out = out"
| "http_get_loop (r # rs) out =
    (case r of
       ReadErr \<Rightarrow> out
     | ReadOk d \<Rightarrow>
       if d = [] then out
       else let out = out @ d in if length out \<ge> 8192 then out else http_get_loop rs out)"

definition http_get :: "(string \<Rightarrow> read_result list option) \<Rightarrow> string \<Rightarrow> bytes option" where
  "http_get client url = (case client url of None \<Rightarrow> None | Some reads \<Rightarrow> Some (http_get_loop reads []))"

definition strip_prefix :: "string \<Rightarrow> string \<Rightarrow> string option" where
  "strip_prefix s p = (if take (length p) s = p then Some (drop (length p) s) else None)"

definition fetch_control_key ::
  "serde \<Rightarrow> config \<Rightarrow> (string \<Rightarrow> read_result list option) \<Rightarrow> (ctl_error + bytes) panics" where
  "fetch_control_key S cfg client =
    (let url = ''https://'' @ CONTROL_HOST cfg @ ''/key?v='' @ show_nat (unat (KEY_ENDPOINT_VER cfg))
     in case http_get client url of
          None \<Rightarrow> Some (Inl HttpGet)
        | Some body \<Rightarrow>
          (case sj_parse S body of
             None \<Rightarrow> Some (Inl KeyJson)
           | Some v \<Rightarrow>
             (case Option.bind (json_get v ''publicKey'') as_str of
                None \<Rightarrow> Some (Inl MissingPublicKey)
              | Some pk \<Rightarrow> do {
                  let hex = (case strip_prefix pk ''mkey:'' of Some h \<Rightarrow> h | None \<Rightarrow> pk);
                  r \<leftarrow> hex_decode_32 hex;
                  Some (case r of None \<Rightarrow> Inl MkeyHex | Some k \<Rightarrow> Inr k) })))"

end
