(* ===== verification/Socket_Text.thy ===== *)
theory Socket_Text
  imports Rust_Text
begin

text \<open>
  \<open>SocketAddr::from_str\<close> and \<open>SocketAddrV4\<close>'s display of the standard library, which the start-up code
  uses on the endpoints of the map: readers that return the rest of the text, composed as the
  library's parser composes them.
\<close>

definition hex_value :: "char \<Rightarrow> nat option" where
  "hex_value c =
    (let n = of_char c :: nat in
     if 48 \<le> n \<and> n \<le> 57 then Some (n - 48)
     else if 97 \<le> n \<and> n \<le> 102 then Some (n - 87)
     else if 65 \<le> n \<and> n \<le> 70 then Some (n - 55)
     else None)"

definition radix_digit :: "nat \<Rightarrow> char \<Rightarrow> bool" where
  "radix_digit radix c = (case hex_value c of Some d \<Rightarrow> d < radix | None \<Rightarrow> False)"

definition radix_value :: "nat \<Rightarrow> string \<Rightarrow> nat" where
  "radix_value radix ds = foldl (\<lambda>v c. v * radix + the (hex_value c)) 0 ds"

text \<open>\<open>read_number\<close>: at most \<open>most\<close> digits if given, a value below \<open>bound\<close>.\<close>

definition read_number :: "nat \<Rightarrow> nat option \<Rightarrow> bool \<Rightarrow> nat \<Rightarrow> string \<Rightarrow> (nat \<times> string) option" where
  "read_number radix most zero_prefix bound s =
    (let ds = takeWhile (radix_digit radix) s; v = radix_value radix ds
     in if ds = [] \<or> (case most of Some m \<Rightarrow> m < length ds | None \<Rightarrow> False) \<or>
           (\<not> zero_prefix \<and> hd ds = CHR ''0'' \<and> 1 < length ds) \<or> bound \<le> v
        then None else Some (v, dropWhile (radix_digit radix) s))"

definition read_char :: "char \<Rightarrow> string \<Rightarrow> string option" where
  "read_char c s = (case s of x # r \<Rightarrow> if x = c then Some r else None | [] \<Rightarrow> None)"

definition read_octet :: "string \<Rightarrow> (u8 \<times> string) option" where
  "read_octet s = map_option (\<lambda>(n, r). (of_nat n, r)) (read_number 10 (Some 3) False 256 s)"

definition read_ipv4 :: "string \<Rightarrow> (ipv4addr \<times> string) option" where
  "read_ipv4 s = do {
     (a, s) \<leftarrow> read_octet s;
     s \<leftarrow> read_char CHR ''.'' s; (b, s) \<leftarrow> read_octet s;
     s \<leftarrow> read_char CHR ''.'' s; (c, s) \<leftarrow> read_octet s;
     s \<leftarrow> read_char CHR ''.'' s; (d, s) \<leftarrow> read_octet s;
     Some (from_be_bytes [a, b, c, d], s) }"

definition read_port :: "string \<Rightarrow> (u16 \<times> string) option" where
  "read_port s = do {
     s \<leftarrow> read_char CHR '':'' s;
     (n, s) \<leftarrow> read_number 10 None True (2 ^ 16) s;
     Some (of_nat n, s) }"

text \<open>
  \<open>read_groups\<close>: up to \<open>k\<close> groups of an IPv6 address, the \<open>i\<close>-th with its separator; the last two may be
  written as an IPv4 address, which the flag reports.
\<close>

definition read_separator :: "nat \<Rightarrow> string \<Rightarrow> string option" where
  "read_separator i s = (if i > 0 then read_char CHR '':'' s else Some s)"

fun read_groups :: "nat \<Rightarrow> nat \<Rightarrow> string \<Rightarrow> u16 list \<times> bool \<times> string" where
  "read_groups 0 i s = ([], False, s)"
| "read_groups (Suc k) i s =
    (case (if k > 0 then do { r \<leftarrow> read_separator i s; read_ipv4 r } else None) of
       Some (ip, r) \<Rightarrow>
         (let b = to_be_bytes ip in ([from_be_bytes [b ! 0, b ! 1], from_be_bytes [b ! 2, b ! 3]], True, r))
     | None \<Rightarrow>
       (case do { r \<leftarrow> read_separator i s; read_number 16 (Some 4) True (2 ^ 16) r } of
          None \<Rightarrow> ([], False, s)
        | Some (g, r) \<Rightarrow> (let (gs, v4, r) = read_groups k (Suc i) r in (of_nat g # gs, v4, r))))"

definition ipv6_of_groups :: "u16 list \<Rightarrow> ipv6addr" where
  "ipv6_of_groups gs = from_be_bytes (concat (map to_be_bytes gs))"

definition read_ipv6 :: "string \<Rightarrow> (ipv6addr \<times> string) option" where
  "read_ipv6 s =
    (let (head, head_v4, r) = read_groups 8 0 s
     in if length head = 8 then Some (ipv6_of_groups head, r)
        else if head_v4 then None
        else do {
          r \<leftarrow> read_char CHR '':'' r;
          r \<leftarrow> read_char CHR '':'' r;
          let (tail, _, r) = read_groups (8 - (length head + 1)) 0 r;
          Some (ipv6_of_groups (head @ replicate (8 - length head - length tail) 0 @ tail), r) })"

definition read_scope_id :: "string \<Rightarrow> (u32 \<times> string) option" where
  "read_scope_id s = do {
     s \<leftarrow> read_char CHR ''%'' s;
     (n, s) \<leftarrow> read_number 10 None True (2 ^ 32) s;
     Some (of_nat n, s) }"

definition read_socket_addr_v4 :: "string \<Rightarrow> (socket_addr \<times> string) option" where
  "read_socket_addr_v4 s = do { (ip, s) \<leftarrow> read_ipv4 s; (port, s) \<leftarrow> read_port s; Some (V4 ip port, s) }"

definition read_socket_addr_v6 :: "string \<Rightarrow> (socket_addr \<times> string) option" where
  "read_socket_addr_v6 s = do {
     s \<leftarrow> read_char CHR ''['' s;
     (ip, s) \<leftarrow> read_ipv6 s;
     let (scope, s) = (case read_scope_id s of Some (n, r) \<Rightarrow> (n, r) | None \<Rightarrow> (0, s));
     s \<leftarrow> read_char CHR '']'' s;
     (port, s) \<leftarrow> read_port s;
     Some (V6 ip port 0 scope, s) }"

definition parse_socket_addr :: "string \<Rightarrow> socket_addr option" where
  "parse_socket_addr s =
    (case (case read_socket_addr_v4 s of Some x \<Rightarrow> Some x | None \<Rightarrow> read_socket_addr_v6 s) of
       Some (a, []) \<Rightarrow> Some a | _ \<Rightarrow> None)"

definition show_socket_addr_v4 :: "ipv4addr \<Rightarrow> u16 \<Rightarrow> string" where
  "show_socket_addr_v4 ip port = show_ipv4 ip @ CHR '':'' # show_nat (unat port)"

subsection \<open>Reading what is displayed\<close>

lemma radix_digit_10: "radix_digit 10 c = is_digit c"
  by (auto simp: radix_digit_def hex_value_def is_digit_def Let_def)

lemma hex_value_10: "is_digit c \<Longrightarrow> hex_value c = Some (of_char c - 48)"
  by (simp add: hex_value_def is_digit_def Let_def)

lemma parse_digits_foldl:
  "list_all is_digit ds \<Longrightarrow> parse_digits acc ds = Some (foldl (\<lambda>v c. v * 10 + the (hex_value c)) acc ds)"
  by (induction ds arbitrary: acc) (simp_all add: hex_value_10)

lemma radix_value_show_nat: "radix_value 10 (show_nat n) = n"
proof -
  have "list_all is_digit (show_nat n)" using show_nat_digits by (simp add: list_all_iff)
  then show ?thesis using parse_digits_foldl [of "show_nat n" 0] parse_show_nat [of n] by (simp add: radix_value_def)
qed

lemma read_number_show:
  assumes "n < bound" and "case most of Some m \<Rightarrow> length (show_nat n) \<le> m | None \<Rightarrow> True"
    and "z \<or> \<not> (hd (show_nat n) = CHR ''0'' \<and> 1 < length (show_nat n))" and "r = [] \<or> \<not> is_digit (hd r)"
  shows "read_number 10 most z bound (show_nat n @ r) = Some (n, r)"
proof -
  have d: "is_digit c" if "c \<in> set (show_nat n)" for c using show_nat_digits that by blast
  have "takeWhile is_digit (show_nat n @ r) = show_nat n" "dropWhile is_digit (show_nat n @ r) = r"
    using d assms(4) by (cases r; simp add: takeWhile_append dropWhile_append)+
  then show ?thesis
    using assms(1-3) by (auto simp: read_number_def Let_def radix_digit_10 [abs_def] radix_value_show_nat split: option.splits)
qed

lemma read_octet_show:
  assumes "r = [] \<or> \<not> is_digit (hd r)"
  shows "read_octet (show_nat (unat (b :: u8)) @ r) = Some (b, r)"
proof -
  have "length (show_nat (unat b)) \<le> 3" using length_decimal_byte [of "unat b"] by (simp add: decimal_def)
  moreover have "\<not> (hd (show_nat (unat b)) = CHR ''0'' \<and> 1 < length (show_nat (unat b)))"
  proof (cases "unat b < 10")
    case True
    then have "length (show_nat (unat b)) = 1" by (subst show_nat.simps) simp
    then show ?thesis by simp
  qed (use hd_show_nat [of "unat b"] in simp)
  ultimately show ?thesis
    using read_number_show [of "unat b" 256 "Some 3" False r] assms unat_u8_less [of b] by (simp add: read_octet_def)
qed

lemma read_ipv4_show:
  assumes "r = [] \<or> \<not> is_digit (hd r)"
  shows "read_ipv4 (show_ipv4 ip @ r) = Some (ip, r)"
proof -
  obtain a b c d where o: "to_be_bytes ip = [a, b, c, d]" by (simp add: to_be_bytes_32)
  have "from_be_bytes [a, b, c, d] = ip" using bytes_roundtrip(2) [of ip] by (simp only: o)
  moreover have "\<not> is_digit CHR ''.''" by (simp add: is_digit_def)
  ultimately show ?thesis
    using assms by (simp add: show_ipv4_def o read_ipv4_def read_octet_show read_char_def)
qed

lemma parse_show_socket_addr_v4: "parse_socket_addr (show_socket_addr_v4 ip port) = Some (V4 ip port)"
proof -
  have "read_number 10 None True 65536 (show_nat (unat port) @ []) = Some (unat port, [])"
    using unat_u16_less [of port] by (intro read_number_show) simp_all
  moreover have "\<not> is_digit CHR '':''" by (simp add: is_digit_def)
  ultimately show ?thesis
    by (simp add: parse_socket_addr_def read_socket_addr_v4_def show_socket_addr_v4_def read_ipv4_show read_port_def read_char_def)
qed

end
