(* ===== verification/Startup.thy ===== *)
theory Startup
  imports Control Derp Stun Socket_Text
begin

text \<open>
  \<^verbatim>\<open>src/main.rs\<close> and \<^verbatim>\<open>src/magicsock.rs\<close>: what the firmware computes between joining the WiFi and
  starting its threads. It learns its endpoints, registers (polling until it is authorized),
  fetches the map once, and derives from it the identity, the targets and the configuration
  that the data plane and the relay run with. WiFi, clock synchronisation, the display and the
  threads themselves are calls into the SDK.
\<close>

subsection \<open>Endpoints\<close>

datatype stun_query_error =
    Resolve | NoIpv4 | SendStun | NoStunReply | NonStunReply nat | StunRecv nat | StunReply stun_error

text \<open>
  The loop of \<open>stun_public_addr\<close>; \<open>net i\<close> is the outcome of the \<open>i\<close>-th attempt: whether the request
  could be sent, and the datagram received into the buffer of 512 bytes, if any.
\<close>

primrec stun_attempts ::
  "(nat \<Rightarrow> bool \<times> bytes option) \<Rightarrow> bytes \<Rightarrow> stun_query_error \<Rightarrow> nat list \<Rightarrow> (stun_query_error + socket_addr_v4) panics" where
  "stun_attempts net txid last_err [] = Some (Inl last_err)"
| "stun_attempts net txid last_err (attempt # as) =
    (let (sent, reply) = net attempt
     in if \<not> sent then Some (Inl SendStun)
        else case reply of
          None \<Rightarrow> stun_attempts net txid (StunRecv attempt) as
        | Some buf \<Rightarrow> do {
            s \<leftarrow> is_stun buf;
            if \<not> s then stun_attempts net txid (NonStunReply (length buf)) as
            else do {
              r \<leftarrow> parse_response buf txid;
              Some (case r of Inl e \<Rightarrow> Inl (StunReply e) | Inr a \<Rightarrow> Inr a) } })"

definition addr_is_v4 :: "socket_addr \<Rightarrow> bool" where
  "addr_is_v4 a = (case a of V4 _ _ \<Rightarrow> True | V6 _ _ _ _ \<Rightarrow> False)"

text \<open>\<open>resolved\<close> is what the resolver returns for the server; the request goes to its first IPv4 address.\<close>

definition stun_public_addr ::
  "socket_addr list option \<Rightarrow> (socket_addr \<Rightarrow> bytes \<Rightarrow> nat \<Rightarrow> bool \<times> bytes option) \<Rightarrow> bytes \<Rightarrow> (stun_query_error + socket_addr_v4) panics" where
  "stun_public_addr resolved net random_12 =
    (case resolved of
       None \<Rightarrow> Some (Inl Resolve)
     | Some addrs \<Rightarrow>
       (case List.find addr_is_v4 addrs of
          None \<Rightarrow> Some (Inl NoIpv4)
        | Some target \<Rightarrow> do {
            (req, txid) \<leftarrow> binding_request random_12;
            stun_attempts (net target req) txid NoStunReply [0..<3] }))"

text \<open>The endpoints to advertise: the LAN address with the socket's port, then the public one.\<close>

definition our_endpoints :: "ipv4addr \<Rightarrow> (u16 \<times> (stun_query_error + socket_addr_v4)) option \<Rightarrow> string list" where
  "our_endpoints ip magicsock =
    (case magicsock of
       None \<Rightarrow> []
     | Some (local_port, public) \<Rightarrow>
         (show_ipv4 ip @ '':'' @ show_nat (unat local_port)) #
         (case public of Inr (a, p) \<Rightarrow> [show_socket_addr_v4 a p] | Inl e \<Rightarrow> []))"

subsection \<open>Registration\<close>

text \<open>
  The polling loop: one connection per attempt, the login URL shown once. \<open>None\<close> stands for a loop
  that has not ended after the given connections; the second component lists the URLs shown.
\<close>

primrec register_loop ::
  "wg_crypto \<Rightarrow> 's snow_ops \<Rightarrow> serde \<Rightarrow> config \<Rightarrow> bytes \<Rightarrow> bytes \<Rightarrow> node_keys \<Rightarrow> string \<Rightarrow> bool \<Rightarrow> tcp_result list \<Rightarrow>
     (string option \<times> string list) panics" where
  "register_loop C N S cfg mpriv control_pub keys auth_key shown_url [] = Some (None, [])"
| "register_loop C N S cfg mpriv control_pub keys auth_key shown_url (tcp # tcps) = do {
     r \<leftarrow> connect_and_register C N S cfg tcp mpriv control_pub keys auth_key;
     (case r of
        Inl e \<Rightarrow> register_loop C N S cfg mpriv control_pub keys auth_key shown_url tcps
      | Inr r \<Rightarrow>
        if rr_machine_authorized r then Some (Some ''registered OK'', [])
        else (case rr_auth_url r of
          Some url \<Rightarrow>
            if \<not> shown_url
            then do { (status, urls) \<leftarrow> register_loop C N S cfg mpriv control_pub keys auth_key True tcps; Some (status, url # urls) }
            else register_loop C N S cfg mpriv control_pub keys auth_key shown_url tcps
        | None \<Rightarrow>
            if auth_key \<noteq> [] then Some (Some (''reg http '' @ show_nat (unat (rr_status r)) @ '' not authd''), [])
            else register_loop C N S cfg mpriv control_pub keys auth_key shown_url tcps)) }"

subsection \<open>What the map configures\<close>

text \<open>The peer list, the access list (with the feature \<open>packet-filter\<close>) and our address; an error leaves them empty.\<close>

definition learn_map ::
  "bool \<Rightarrow> (ctl_error + string option \<times> peer_info list \<times> cidr list option) \<Rightarrow>
     peer_info list \<times> cidr list option \<times> string option" where
  "learn_map packet_filter r =
    (case r of
       Inl e \<Rightarrow> ([], None, None)
     | Inr (our_ip, list, allowed) \<Rightarrow> (list, if packet_filter then allowed else None, our_ip))"

definition node_identity :: "node_keys \<Rightarrow> cidr list option \<Rightarrow> identity" where
  "node_identity keys allowed =
    \<lparr>id_disco_priv = kp_private (nk_disco keys), id_disco_pub = kp_public (nk_disco keys),
     id_node_priv = kp_private (nk_node keys), id_node_pub = kp_public (nk_node keys), id_allowed_srcs = allowed\<rparr>"

definition rsplit_once :: "char \<Rightarrow> string \<Rightarrow> (string \<times> string) option" where
  "rsplit_once c s = map_option (\<lambda>(a, b). (rev b, rev a)) (split_once c (rev s))"

definition build_lan_targets :: "peer_info list \<Rightarrow> string \<Rightarrow> target list" where
  "build_lan_targets peers our_ip =
    (case rsplit_once CHR ''.'' our_ip of
       None \<Rightarrow> []
     | Some (net, _) \<Rightarrow>
       let prefix = net @ ''.''
       in List.map_filter (\<lambda>p.
            let eps = List.map_filter parse_socket_addr (filter (\<lambda>e. starts_with e prefix) (pi_endpoints p))
            in if eps \<noteq> []
               then Some \<lparr>tg_name = pi_hostname p, tg_disco_pub = pi_disco_key p, tg_node_pub = pi_node_key p,
                      tg_endpoints = eps, tg_spray = False\<rparr>
               else None) peers)"

record app_config = config +
  AUTH_KEY_DEFAULT :: string
  OUTBOUND_TARGET_IP :: string
  OUTBOUND_HTTP_PORT :: u16
  OUTBOUND_HTTP_PATH :: string
  MDNS_PARTNER_IP :: string

definition find_peer :: "peer_info list \<Rightarrow> string \<Rightarrow> peer_info option" where
  "find_peer peers ip = List.find (\<lambda>p. pi_tailscale_ip p = Some ip) peers"

definition build_outbound_cfg :: "app_config \<Rightarrow> peer_info list \<Rightarrow> string option \<Rightarrow> outbound_cfg option" where
  "build_outbound_cfg cfg peers our_ip =
    (if OUTBOUND_TARGET_IP cfg = [] then None else do {
       our_ip \<leftarrow> Option.bind our_ip parse_ipv4;
       target_ip \<leftarrow> parse_ipv4 (OUTBOUND_TARGET_IP cfg);
       peer \<leftarrow> find_peer peers (OUTBOUND_TARGET_IP cfg);
       Some \<lparr>oc_our_ip = our_ip, oc_target_ip = target_ip, oc_target_node = pi_node_key peer,
             oc_http_port = OUTBOUND_HTTP_PORT cfg, oc_http_path = OUTBOUND_HTTP_PATH cfg\<rparr> })"

text \<open>\<open>MdnsLink\<close> without its channels, and the LAN address the reflector thread is started with.\<close>

record mdns_link =
  ml_our_ip :: ipv4addr
  ml_partner_ip :: ipv4addr
  ml_partner_node :: bytes
  ml_lan_ip :: ipv4addr

definition build_mdns_link :: "app_config \<Rightarrow> peer_info list \<Rightarrow> string option \<Rightarrow> string \<Rightarrow> mdns_link option" where
  "build_mdns_link cfg peers our_ip lan_ip_str =
    (if MDNS_PARTNER_IP cfg = [] then None else do {
       our_ip \<leftarrow> Option.bind our_ip parse_ipv4;
       partner_ip \<leftarrow> parse_ipv4 (MDNS_PARTNER_IP cfg);
       lan_ip \<leftarrow> parse_ipv4 lan_ip_str;
       peer \<leftarrow> find_peer peers (MDNS_PARTNER_IP cfg);
       Some \<lparr>ml_our_ip = our_ip, ml_partner_ip = partner_ip, ml_partner_node = pi_node_key peer, ml_lan_ip = lan_ip\<rparr> })"

text \<open>The directory handed to the relay thread: our endpoints and, per peer, its keys and endpoints.\<close>

definition upgrade_directory :: "string list \<Rightarrow> peer_info list \<Rightarrow> upgrade" where
  "upgrade_directory endpoints peers =
    \<lparr>up_our_endpoints = List.map_filter parse_socket_addr endpoints,
     up_peers = map (\<lambda>p. \<lparr>pd_node_pub = pi_node_key p, pd_disco_pub = pi_disco_key p,
               pd_endpoints = List.map_filter parse_socket_addr (pi_endpoints p)\<rparr>) peers\<rparr>"

subsection \<open>The threads that never end\<close>

text \<open>
  \<open>derp::run\<close> over successive TLS sessions (\<open>None\<close>: \<open>tls_connect\<close> failed), each with the nonce of its
  login and the random values of its packets; the relay state starts afresh in each. The
  result is the list of targets handed to the data plane.
\<close>

definition DERP_HOST :: string where "DERP_HOST = ''derp1f.tailscale.com''"

primrec derp_run ::
  "node_cfg \<Rightarrow> upgrade option \<Rightarrow> ((nat \<Rightarrow> derp_rand) \<times> bytes \<times> derp_conn option) list \<Rightarrow> target list panics" where
  "derp_run cf up [] = Some []"
| "derp_run cf up (c # cs) =
    (case c of (rns, nbytes, tls) \<Rightarrow>
       (case tls of
          None \<Rightarrow> derp_run cf up cs
        | Some d \<Rightarrow>
          (case derp_connect (cf_box cf) DERP_HOST (id_node_priv (cf_id cf)) (id_node_pub (cf_id cf)) nbytes d of
             (d, Inl e) \<Rightarrow> derp_run cf up cs
           | (d, Inr _) \<Rightarrow> do {
               (st, d, ts) \<leftarrow> derp_serve cf up rns 0 derp_state_new d;
               ts' \<leftarrow> derp_run cf up cs;
               Some (ts @ ts') })))"

text \<open>The loop that keeps the map stream open: every chunk is read and dropped until an error ends it.\<close>

lemma read_data_smaller: "read_data C sid h = (h', Inr d) \<Longrightarrow> (h', h) \<in> h2_order"
proof (induction C sid h rule: read_data.induct)
  case (1 C sid h)
  obtain h1 fr where 1: "h2_read_frame C h = (h1, Inr fr)"
    using "1.prems" by (subst (asm) read_data.simps) (auto split: prod.splits sum.splits)
  obtain h2 r where 2: "data_step C sid fr h1 = (h2, r)" by fastforce
  have s: "(h2, h) \<in> h2_order" using data_smaller [OF 1 2] .
  show ?case
  proof (cases r)
    case (Inr q)
    show ?thesis
    proof (cases q)
      case None
      then have "read_data C sid h2 = (h', Inr d)"
        using "1.prems" 1 2 Inr by (subst (asm) read_data.simps) simp
      from "1.IH" [OF 1 [symmetric] refl 2 [symmetric] Inr None this] s show ?thesis by (auto simp: h2_order_iff)
    qed (use "1.prems" 1 2 Inr s in \<open>subst (asm) read_data.simps; simp\<close>)
  qed (use "1.prems" 1 2 in \<open>subst (asm) read_data.simps; simp\<close>)
qed

function keep_alive :: "wg_crypto \<Rightarrow> u32 \<Rightarrow> h2_session \<Rightarrow> nat \<times> h2_error" where
  "keep_alive C sid sess =
    (case read_data C sid sess of
       (sess, Inr m) \<Rightarrow> (let (n, e) = keep_alive C sid sess in (Suc n, e))
     | (sess, Inl e) \<Rightarrow> (0, e))"
  by pat_completeness auto
termination
  by (relation "inv_image h2_order (\<lambda>(C, sid, h). h)") (auto simp: wf_h2_order intro: read_data_smaller [OF sym])

declare keep_alive.simps [simp del]

text \<open>What the display shows: online or not, and the address; the address last learned is kept.\<close>

datatype shown = Online "string option" | Offline "string option"

primrec map_loop ::
  "wg_crypto \<Rightarrow> 's snow_ops \<Rightarrow> serde \<Rightarrow> config \<Rightarrow> bytes \<Rightarrow> bytes \<Rightarrow> node_keys \<Rightarrow> string list \<Rightarrow> string option \<Rightarrow>
     tcp_result list \<Rightarrow> shown list panics" where
  "map_loop C N S cfg mpriv control_pub keys endpoints ts_ip [] = Some []"
| "map_loop C N S cfg mpriv control_pub keys endpoints ts_ip (tcp # tcps) = do {
     r \<leftarrow> stream_map C N S cfg tcp mpriv control_pub keys endpoints;
     (case r of
        Inr (sess, sid, ip_opt) \<Rightarrow>
          (let ts_ip = (if ip_opt \<noteq> None then ip_opt else ts_ip);
               ended = keep_alive C sid sess
           in do {
             rest \<leftarrow> map_loop C N S cfg mpriv control_pub keys endpoints ts_ip tcps;
             Some (Online ts_ip # rest) })
      | Inl e \<Rightarrow> do {
             rest \<leftarrow> map_loop C N S cfg mpriv control_pub keys endpoints ts_ip tcps;
             Some (Offline ts_ip # rest) }) }"

subsection \<open>The start-up\<close>

record boot_features =
  bf_direct :: bool
  bf_derp :: bool
  bf_derp_upgrade :: bool
  bf_authkey :: bool
  bf_packet_filter :: bool
  bf_outbound :: bool
  bf_mdns_forward :: bool

text \<open>
  What the start-up meets: the HTTPS client, the connections of the registration, that of the map
  request, our LAN address and the UDP socket with the outcome of the STUN query.
\<close>

record boot_env =
  be_client :: "string \<Rightarrow> read_result list option"
  be_register :: "tcp_result list"
  be_map :: tcp_result
  be_lan_ip :: ipv4addr
  be_magicsock :: "(u16 \<times> (stun_query_error + socket_addr_v4)) option"

text \<open>What the data-plane thread and the relay thread are started with.\<close>

record dataplane_args =
  da_identity :: identity
  da_targets :: "target list"
  da_outbound :: "outbound_cfg option"
  da_mdns :: "mdns_link option"

record started =
  sd_endpoints :: "string list"
  sd_dataplane :: "dataplane_args option"
  sd_relay :: "(identity \<times> upgrade option) option"

datatype boot_result = KeysFailed keys_error | NotRegistered "string option" | Started started

definition start_threads ::
  "boot_features \<Rightarrow> app_config \<Rightarrow> boot_env \<Rightarrow> node_keys \<Rightarrow> string list \<Rightarrow>
     (ctl_error + string option \<times> peer_info list \<times> cidr list option) \<Rightarrow> started" where
  "start_threads F cfg env keys endpoints r =
    (let (peers, allowed, our_ts_ip) = learn_map (bf_packet_filter F) r;
         ip = show_ipv4 (be_lan_ip env);
         ident = node_identity keys allowed
     in \<lparr>sd_endpoints = endpoints,
         sd_dataplane =
           (if bf_direct F \<and> be_magicsock env \<noteq> None
            then Some \<lparr>da_identity = ident, da_targets = build_lan_targets peers ip,
                   da_outbound = (if bf_outbound F then build_outbound_cfg cfg peers our_ts_ip else None),
                   da_mdns = (if bf_mdns_forward F then build_mdns_link cfg peers our_ts_ip ip else None)\<rparr>
            else None),
         sd_relay =
           (if bf_derp F
            then Some (ident, if bf_derp_upgrade F then Some (upgrade_directory endpoints peers) else None)
            else None)\<rparr>)"

definition boot ::
  "wg_crypto \<Rightarrow> 's snow_ops \<Rightarrow> serde \<Rightarrow> 'n nvs_ops \<Rightarrow> (bytes \<Rightarrow> bytes) \<Rightarrow> boot_features \<Rightarrow> app_config \<Rightarrow> boot_env \<Rightarrow>
     'n \<Rightarrow> bytes \<Rightarrow> bytes \<Rightarrow> bytes \<Rightarrow> ('n \<times> boot_result) panics" where
  "boot C N S V x25519_pub F acfg env nvs r1 r2 r3 =
    (let cfg = config.truncate acfg;
         endpoints = (if bf_direct F then our_endpoints (be_lan_ip env) (be_magicsock env) else [])
     in case load_or_generate V x25519_pub nvs r1 r2 r3 of
       (nvs, Inl e) \<Rightarrow> Some (nvs, KeysFailed e)
     | (nvs, Inr keys) \<Rightarrow> do {
         k \<leftarrow> fetch_control_key S cfg (be_client env);
         control_key \<leftarrow> (case k of Inr k \<Rightarrow> map_option Some (hex_lower k) | Inl e \<Rightarrow> Some None);
         status_line \<leftarrow> (case control_key of
             None \<Rightarrow> Some (Some ''no control key'')
           | Some hex \<Rightarrow> do {
               k \<leftarrow> hex_decode_32 hex;
               control_pub \<leftarrow> k;
               (status, urls) \<leftarrow> register_loop C N S cfg (kp_private (nk_machine keys)) control_pub keys
                  (if bf_authkey F then AUTH_KEY_DEFAULT acfg else []) False (be_register env);
               Some status });
         if status_line = Some ''registered OK'' then do {
           hex \<leftarrow> control_key;
           k \<leftarrow> hex_decode_32 hex;
           control_pub \<leftarrow> k;
           r \<leftarrow> fetch_peers C N S cfg (be_map env) (kp_private (nk_machine keys)) control_pub keys endpoints;
           Some (nvs, Started (start_threads F acfg env keys endpoints r)) }
         else Some (nvs, NotRegistered status_line) })"

end
