(* ===== verification/Http2_Client.thy ===== *)
theory Http2_Client
  imports Http2
begin

text \<open>
  What the HTTP/2 client of \<open>Http2\<close> computes: it is an exact reader of the decrypted record
  stream, its frames and header blocks are read back, and a response is assembled from the
  frames of its stream whatever else the server sends in between.
\<close>

subsection \<open>The decrypted stream\<close>

text \<open>The plaintext of the complete, authentic records at the front of a byte string.\<close>

function plain :: "wg_crypto \<Rightarrow> bytes \<Rightarrow> u64 \<Rightarrow> bytes \<Rightarrow> bytes" where
  "plain C k n bs =
    (if length bs < 3 then []
     else let len = unat (from_be_bytes [bs ! 1, bs ! 2] :: u16)
       in if bs ! 0 \<noteq> NOISE_RECORD \<or> length bs < 3 + len then []
          else (case chacha_decrypt C k (be_nonce n) [] (sub bs 3 (3 + len)) of
                  None \<Rightarrow> []
                | Some pt \<Rightarrow> pt @ plain C k (n + 1) (drop (3 + len) bs)))"
  by pat_completeness auto
termination by (relation "measure (\<lambda>(C, k, n, bs). length bs)") auto

declare plain.simps [simp del]

definition h2_plain :: "wg_crypto \<Rightarrow> h2_session \<Rightarrow> bytes" where
  "h2_plain C h = h2_rx h @ plain C (nt_recv (h2_tr h)) (nt_rx_nonce (h2_tr h)) (tc_pending (h2_conn h))"

lemma plain_record:
  assumes "plain C k n bs \<noteq> []"
  obtains ct pt rest where "bs = enc_frame (NOISE_RECORD, ct) @ rest" "length ct < 65536"
    "chacha_decrypt C k (be_nonce n) [] ct = Some pt" "plain C k n bs = pt @ plain C k (n + 1) rest"
proof -
  define len where "len = unat (from_be_bytes [bs ! 1, bs ! 2] :: u16)"
  have b: "3 \<le> length bs" "bs ! 0 = NOISE_RECORD" "3 + len \<le> length bs"
    using assms by (subst (asm) plain.simps, simp add: Let_def len_def split: if_splits)+
  obtain pt where pt: "chacha_decrypt C k (be_nonce n) [] (sub bs 3 (3 + len)) = Some pt"
    using assms b by (subst (asm) plain.simps) (auto simp: Let_def len_def split: option.splits)
  have p: "plain C k n bs = pt @ plain C k (n + 1) (drop (3 + len) bs)"
    using b pt by (subst plain.simps) (simp add: Let_def len_def)
  obtain x y z r where bs: "bs = x # y # z # r" using b(1) by (auto simp: numeral_3_eq_3 Suc_le_length_iff)
  have "to_be_bytes (from_be_bytes [y, z] :: u16) = [y, z]" by (rule to_from_be_bytes) simp
  then have "bs = enc_frame (NOISE_RECORD, sub bs 3 (3 + len)) @ drop (3 + len) bs"
    using b(2,3) unfolding bs by (simp add: enc_frame_def len_def [unfolded bs] sub_def numeral_3_eq_3)
  moreover have "length (sub bs 3 (3 + len)) < 65536" using b(3) by (simp add: len_def)
  ultimately show thesis using that pt p by blast
qed

lemma pull_plain:
  assumes "length (h2_rx h) < length (h2_plain C h)"
  shows "\<exists>h'. pull C h = (h', Inr ()) \<and> h2_plain C h' = h2_plain C h"
proof -
  let ?t = "h2_tr h"
  have "plain C (nt_recv ?t) (nt_rx_nonce ?t) (tc_pending (h2_conn h)) \<noteq> []" using assms by (auto simp: h2_plain_def)
  then obtain ct pt rest where r: "tc_pending (h2_conn h) = enc_frame (NOISE_RECORD, ct) @ rest" "length ct < 65536"
    "chacha_decrypt C (nt_recv ?t) (be_nonce (nt_rx_nonce ?t)) [] ct = Some pt"
    "plain C (nt_recv ?t) (nt_rx_nonce ?t) (tc_pending (h2_conn h)) = pt @ plain C (nt_recv ?t) (nt_rx_nonce ?t + 1) rest"
    by (rule plain_record)
  obtain c where c: "conn_read_frame (h2_conn h) = (c, Inr (NOISE_RECORD, ct))" "tc_pending c = rest"
    using read_frame_next [of "h2_conn h" "(NOISE_RECORD, ct)" rest] r(1,2) by auto
  then show ?thesis using r(3,4) by (auto simp: pull_def open_record_def Let_def h2_plain_def)
qed

lemma h2_read_exact_ok:
  "n \<le> length (h2_plain C h) \<Longrightarrow>
   \<exists>h'. h2_read_exact C n h = (h', Inr (take n (h2_plain C h))) \<and> h2_plain C h' = drop n (h2_plain C h)"
proof (induction C n h rule: h2_read_exact.induct)
  case (1 C n h)
  show ?case
  proof (cases "length (h2_rx h) < n")
    case True
    then obtain h1 where p: "pull C h = (h1, Inr ())" "h2_plain C h1 = h2_plain C h"
      using pull_plain [of h C] 1(2) by auto
    have "h2_read_exact C n h = h2_read_exact C n h1" using True p(1) by (subst h2_read_exact.simps) simp
    then show ?thesis using 1(1) [OF True p(1) [symmetric] refl] 1(2) p(2) by simp
  next
    case False
    then show ?thesis by (subst h2_read_exact.simps) (simp add: h2_plain_def)
  qed
qed

interpretation h2: byte_reader "h2_read_exact C" "\<lambda>h. tc_write_ok (h2_conn h)" "h2_plain C" for C
proof
  fix h :: h2_session and n
  assume "tc_write_ok (h2_conn h)" and "n \<le> length (h2_plain C h)"
  then show "\<exists>h'. h2_read_exact C n h = (h', Inr (take n (h2_plain C h))) \<and> tc_write_ok (h2_conn h') \<and>
      h2_plain C h' = drop n (h2_plain C h)"
    using h2_read_exact_ok [of n C h] h2_read_exact_progress [of C n h] by auto
qed

lemma same_input_plain: "same_input h' h \<Longrightarrow> h2_plain C h' = h2_plain C h"
  by (simp add: same_input_def h2_plain_def tc_pending_def)

subsection \<open>Frames\<close>

definition enc_h2_frame :: "h2_frame \<Rightarrow> bytes" where
  "enc_h2_frame fr = frame (fr_typ fr) (fr_flags fr) (fr_stream_id fr) (fr_payload fr)"

definition frame_ok :: "h2_frame \<Rightarrow> bool" where
  "frame_ok fr \<longleftrightarrow> length (fr_payload fr) < 2 ^ 24 \<and> fr_stream_id fr < 2 ^ 31"

lemma stream_id_mask: "(s :: u32) < 2 ^ 31 \<Longrightarrow> s AND 0x7fffffff = s"
proof -
  assume "s < 2 ^ 31"
  then have "s AND mask 31 = s" by (simp add: less_mask_eq)
  then show ?thesis by (simp add: mask_eq_exp_minus_1)
qed

lemma length_field:
  assumes n: "n < 2 ^ 24"
  shows "unat (of_nat (n div 2 ^ 16) :: u8) * 65536 + unat (of_nat (n div 2 ^ 8) :: u8) * 256 + unat (of_nat n :: u8) = n"
proof -
  have q: "n div 65536 < 256" using n by (simp add: less_mult_imp_div_less)
  have "n = n div 256 * 256 + n mod 256" "n div 256 = n div 256 div 256 * 256 + n div 256 mod 256"
    by (simp_all only: div_mult_mod_eq)
  moreover have "n div 256 div 256 = n div 65536" by (simp flip: div_mult2_eq)
  ultimately have "n div 65536 * 65536 + n div 256 mod 256 * 256 + n mod 256 = n" by linarith
  then show ?thesis using q by (simp add: unat_of_nat)
qed

text \<open>The header of a frame, and what the reader takes from it.\<close>

definition h2_head :: "h2_frame \<Rightarrow> bytes" where
  "h2_head fr = (let len = length (fr_payload fr)
     in [of_nat (len div 2 ^ 16), of_nat (len div 2 ^ 8), of_nat len, fr_typ fr, fr_flags fr] @ to_be_bytes (fr_stream_id fr))"

lemma h2_head_fields:
  assumes "frame_ok fr"
  shows "enc_h2_frame fr = h2_head fr @ fr_payload fr" "length (h2_head fr) = 9"
    "h2_head fr ! 3 = fr_typ fr" "h2_head fr ! 4 = fr_flags fr"
    "unat (h2_head fr ! 0) * 65536 + unat (h2_head fr ! 1) * 256 + unat (h2_head fr ! 2) = length (fr_payload fr)"
    "from_be_bytes [h2_head fr ! 5, h2_head fr ! 6, h2_head fr ! 7, h2_head fr ! 8] AND 0x7fffffff = fr_stream_id fr"
proof -
  have m: "fr_stream_id fr AND 0x7fffffff = fr_stream_id fr" using assms stream_id_mask by (simp add: frame_ok_def)
  show "enc_h2_frame fr = h2_head fr @ fr_payload fr"
    by (simp add: enc_h2_frame_def frame_def Let_def h2_head_def m)
  obtain a b c d where t: "to_be_bytes (fr_stream_id fr) = [a, b, c, d]" by (simp add: to_be_bytes_32)
  have "from_be_bytes [a, b, c, d] = fr_stream_id fr" using bytes_roundtrip t by metis
  then show "from_be_bytes [h2_head fr ! 5, h2_head fr ! 6, h2_head fr ! 7, h2_head fr ! 8] AND 0x7fffffff = fr_stream_id fr"
    by (simp add: h2_head_def Let_def t m)
  show "length (h2_head fr) = 9" by (simp add: h2_head_def Let_def t)
  show "h2_head fr ! 3 = fr_typ fr" "h2_head fr ! 4 = fr_flags fr" by (simp_all add: h2_head_def Let_def)
  show "unat (h2_head fr ! 0) * 65536 + unat (h2_head fr ! 1) * 256 + unat (h2_head fr ! 2) = length (fr_payload fr)"
    using length_field [of "length (fr_payload fr)"] assms by (simp add: h2_head_def Let_def frame_ok_def)
qed

lemma h2_frame_next:
  assumes "tc_write_ok (h2_conn h)" and "h2_plain C h = enc_h2_frame fr @ rest" and "frame_ok fr"
  shows "\<exists>h'. h2_read_frame C h = (h', Inr fr) \<and> tc_write_ok (h2_conn h') \<and> h2_plain C h' = rest"
proof -
  note hd = h2_head_fields [OF assms(3)]
  have p: "h2_plain C h = h2_head fr @ fr_payload fr @ rest" using assms(2) hd(1) by simp
  obtain h1 h2 where r: "h2_read_exact C 9 h = (h1, Inr (h2_head fr))" "tc_write_ok (h2_conn h1)" "h2_plain C h1 = fr_payload fr @ rest"
      "h2_read_exact C (length (fr_payload fr)) h1 = (h2, Inr (fr_payload fr))" "tc_write_ok (h2_conn h2)" "h2_plain C h2 = rest"
    using h2.rd_framed [OF assms(1) p hd(2) refl] by blast
  show ?thesis
    using r unfolding h2_read_frame_def r(1) prod.case sum.case Let_def hd(3-6)
    by (cases "fr_payload fr = []") auto
qed

subsection \<open>What the peer decrypts\<close>

text \<open>From \<open>h\<close> to \<open>h'\<close> the session has written records that the peer decrypts to \<open>d\<close>.\<close>

definition says :: "wg_crypto \<Rightarrow> h2_session \<Rightarrow> h2_session \<Rightarrow> bytes \<Rightarrow> bool" where
  "says C h h' d \<longleftrightarrow> nt_send (h2_tr h') = nt_send (h2_tr h) \<and>
     (\<exists>out. tc_sent (h2_conn h') = tc_sent (h2_conn h) @ out \<and>
        (\<forall>rest. plain C (nt_send (h2_tr h)) (nt_tx_nonce (h2_tr h)) (out @ rest) =
           d @ plain C (nt_send (h2_tr h)) (nt_tx_nonce (h2_tr h')) rest))"

lemma says_trans: "says C h h1 d1 \<Longrightarrow> says C h1 h2 d2 \<Longrightarrow> says C h h2 (d1 @ d2)"
  unfolding says_def by (metis append.assoc)

lemma says_nothing:
  "h2_tr h' = h2_tr h \<or> nt_send (h2_tr h') = nt_send (h2_tr h) \<and> nt_tx_nonce (h2_tr h') = nt_tx_nonce (h2_tr h) \<Longrightarrow>
   tc_sent (h2_conn h') = tc_sent (h2_conn h) \<Longrightarrow> says C h h' []"
  by (auto simp: says_def)

lemma plain_enc_frame:
  assumes "length ct < 65536" and "chacha_decrypt C k (be_nonce n) [] ct = Some pt"
  shows "plain C k n (enc_frame (NOISE_RECORD, ct) @ rest) = pt @ plain C k (n + 1) rest"
proof -
  obtain a b where t: "to_be_bytes (of_nat (length ct) :: u16) = [a, b]" by (simp add: to_be_bytes_16)
  then have "unat (from_be_bytes [a, b] :: u16) = length ct"
    using assms(1) bytes_roundtrip(1) [of "of_nat (length ct)"] by (simp add: unat_of_nat)
  then show ?thesis using assms(2) by (subst plain.simps) (simp add: enc_frame_def t sub_def numeral_3_eq_3)
qed

lemma plain_sealed:
  assumes ok: "wg_crypto_ok C"
  shows "seal_all C t ps = (t', rs) \<Longrightarrow> list_all (\<lambda>p. length p \<le> 65519) ps \<Longrightarrow>
    nt_send t' = nt_send t \<and> plain C (nt_send t) (nt_tx_nonce t) (concat rs @ rest) = concat ps @ plain C (nt_send t) (nt_tx_nonce t') rest"
proof (induction ps arbitrary: t t' rs)
  case (Cons p ps)
  obtain t1 r where 1: "seal_record C t p = (t1, r)" by fastforce
  obtain t2 rs2 where 2: "seal_all C t1 ps = (t2, rs2)" by fastforce
  obtain ct where f: "r = enc_frame (NOISE_RECORD, ct)" "length ct < 65536"
      "ct = chacha_encrypt C (nt_send t) (be_nonce (nt_tx_nonce t)) [] p" "t1 = t\<lparr>nt_tx_nonce := nt_tx_nonce t + 1\<rparr>"
    using seal_record_frame [OF wg_crypto_ok_lengths [OF ok] 1] Cons.prems(2) by auto
  have "chacha_decrypt C (nt_send t) (be_nonce (nt_tx_nonce t)) [] ct = Some p" using ok f(3) by (simp add: wg_crypto_ok_def)
  from plain_enc_frame [OF f(2) this] Cons.IH [OF 2] Cons.prems 1 2 f(1,4) show ?case by auto
qed simp

lemma send_chunks_sealed:
  assumes "tc_write_ok (h2_conn h)"
  shows "send_chunks C cs h =
    (h\<lparr>h2_tr := fst (seal_all C (h2_tr h) cs),
       h2_conn := (h2_conn h)\<lparr>tc_sent := tc_sent (h2_conn h) @ concat (snd (seal_all C (h2_tr h) cs))\<rparr>\<rparr>, Inr ())"
  using assms
  by (induction cs arbitrary: h) (auto simp: conn_write_all_def stream_write_def Let_def split_beta)

lemma h2_send_says:
  assumes "wg_crypto_ok C" and "tc_write_ok (h2_conn h)"
  shows "\<exists>h'. h2_send C d h = (h', Inr ()) \<and> same_input h' h \<and> says C h h' d"
proof -
  obtain t' rs where s: "seal_all C (h2_tr h) (chunks 2048 d) = (t', rs)" by fastforce
  have l: "list_all (\<lambda>p. length p \<le> 65519) (chunks 2048 d)"
    by (auto simp: list_all_iff dest!: chunks_size [of _ 2048])
  obtain h' where h: "h2_send C d h = (h', Inr ())" "same_input h' h" using h2_send_ok [OF assms(2)] by blast
  have "says C h h' d"
    using h(1) send_chunks_sealed [OF assms(2), of C "chunks 2048 d"] s plain_sealed [OF assms(1) s l]
    by (auto simp: h2_send_def says_def concat_chunks)
  with h show ?thesis by blast
qed

lemma window_update_says:
  assumes "wg_crypto_ok C" and "tc_write_ok (h2_conn h)"
  shows "\<exists>h'. window_update C sid i h = (h', Inr ()) \<and> same_input h' h \<and>
    says C h h' (frame FT_WINDOW_UPDATE 0 sid (to_be_bytes i) @ frame FT_WINDOW_UPDATE 0 0 (to_be_bytes i))"
proof -
  obtain h1 where 1: "h2_send C (frame FT_WINDOW_UPDATE 0 sid (to_be_bytes i)) h = (h1, Inr ())" "same_input h1 h"
      "says C h h1 (frame FT_WINDOW_UPDATE 0 sid (to_be_bytes i))"
    using h2_send_says [OF assms] by blast
  then have "tc_write_ok (h2_conn h1)" using assms(2) by (simp add: same_input_def)
  then obtain h2 where "h2_send C (frame FT_WINDOW_UPDATE 0 0 (to_be_bytes i)) h1 = (h2, Inr ())" "same_input h2 h1"
      "says C h1 h2 (frame FT_WINDOW_UPDATE 0 0 (to_be_bytes i))"
    using h2_send_says [OF assms(1)] by blast
  with 1 show ?thesis by (auto simp: window_update_def intro: same_input_trans says_trans)
qed

text \<open>Reading writes nothing.\<close>

lemma conn_take_sent: "conn_take n c = (c', r) \<Longrightarrow> tc_sent c' = tc_sent c"
  by (auto simp: conn_take_def fill_to_def split: prod.splits sum.splits)

lemma conn_read_frame_sent: "conn_read_frame c = (c', r) \<Longrightarrow> tc_sent c' = tc_sent c"
  by (auto simp: conn_read_frame_def Let_def split: prod.splits sum.splits dest!: conn_take_sent)

definition same_output :: "h2_session \<Rightarrow> h2_session \<Rightarrow> bool" where
  "same_output h' h \<longleftrightarrow> tc_sent (h2_conn h') = tc_sent (h2_conn h) \<and> nt_send (h2_tr h') = nt_send (h2_tr h) \<and>
     nt_tx_nonce (h2_tr h') = nt_tx_nonce (h2_tr h) \<and>
     h2_next_stream h' = h2_next_stream h \<and> h2_authority h' = h2_authority h"

lemma same_output_trans: "same_output h'' h' \<Longrightarrow> same_output h' h \<Longrightarrow> same_output h'' h"
  by (simp add: same_output_def)

lemma pull_output: "pull C h = (h', r) \<Longrightarrow> same_output h' h"
  by (auto simp: pull_def open_record_def same_output_def Let_def split: prod.splits sum.splits if_splits option.splits
      dest!: conn_read_frame_sent)

lemma h2_read_exact_output: "h2_read_exact C n h = (h', r) \<Longrightarrow> same_output h' h"
proof (induction C n h rule: h2_read_exact.induct)
  case (1 C n h)
  show ?case
  proof (cases "length (h2_rx h) < n")
    case True
    obtain h1 r1 where p: "pull C h = (h1, r1)" by fastforce
    have "h2_read_exact C n h = (case r1 of Inl e \<Rightarrow> (h1, Inl e) | Inr _ \<Rightarrow> h2_read_exact C n h1)"
      using True p by (subst h2_read_exact.simps) (simp split: sum.splits)
    then show ?thesis
      using 1(1) [OF True p [symmetric]] 1(2) pull_output [OF p] by (auto split: sum.splits intro: same_output_trans)
  next
    case False
    then show ?thesis using 1(2) by (subst (asm) h2_read_exact.simps) (auto simp: same_output_def)
  qed
qed

lemma h2_read_frame_output: "h2_read_frame C h = (h', r) \<Longrightarrow> same_output h' h"
  by (auto simp: h2_read_frame_def Let_def split: prod.splits sum.splits if_splits
      dest!: h2_read_exact_output intro: same_output_trans)

lemma says_read: "same_output h1 h \<Longrightarrow> says C h1 h2 d \<Longrightarrow> says C h h2 d"
  by (simp add: says_def same_output_def)

subsection \<open>Responses\<close>

text \<open>
  The frames of a response: those of the stream or of the connection, of type HEADERS or DATA.
  Their last one carries END\_STREAM; a GOAWAY would end the response with an error.
\<close>

definition of_stream :: "u32 \<Rightarrow> h2_frame \<Rightarrow> bool" where
  "of_stream sid fr \<longleftrightarrow> fr_stream_id fr = sid \<or> fr_stream_id fr = 0"

definition is_headers :: "u32 \<Rightarrow> h2_frame \<Rightarrow> bool" where
  "is_headers sid fr \<longleftrightarrow> of_stream sid fr \<and> fr_typ fr = FT_HEADERS"

definition is_data :: "u32 \<Rightarrow> h2_frame \<Rightarrow> bool" where
  "is_data sid fr \<longleftrightarrow> of_stream sid fr \<and> fr_typ fr = FT_DATA"

definition ends_response :: "u32 \<Rightarrow> h2_frame \<Rightarrow> bool" where
  "ends_response sid fr \<longleftrightarrow> (is_headers sid fr \<or> is_data sid fr) \<and> fr_flags fr AND FL_END_STREAM \<noteq> 0"

definition goes_away :: "u32 \<Rightarrow> h2_frame \<Rightarrow> bool" where
  "goes_away sid fr \<longleftrightarrow> of_stream sid fr \<and> fr_typ fr = FT_GOAWAY"

text \<open>A response: its last frame ends it, none before it does.\<close>

definition is_response :: "u32 \<Rightarrow> h2_frame list \<Rightarrow> bool" where
  "is_response sid frs \<longleftrightarrow> frs \<noteq> [] \<and> list_all frame_ok frs \<and> ends_response sid (last frs) \<and>
     list_all (\<lambda>f. \<not> ends_response sid f \<and> \<not> goes_away sid f) (butlast frs)"

text \<open>The status is that of the last header block that has one, the body the DATA payloads in order.\<close>

definition response_status :: "u32 \<Rightarrow> u16 \<Rightarrow> h2_frame list \<Rightarrow> u16" where
  "response_status sid s frs = last (s # List.map_filter (\<lambda>fr. decode_status (fr_payload fr)) (filter (is_headers sid) frs))"

definition response_body :: "u32 \<Rightarrow> h2_frame list \<Rightarrow> bytes" where
  "response_body sid frs = concat (map fr_payload (filter (is_data sid) frs))"

text \<open>What the client sends on reading a frame: flow control for data, an acknowledgement for settings.\<close>

definition client_says :: "u32 \<Rightarrow> h2_frame \<Rightarrow> bytes" where
  "client_says sid fr =
    (if is_data sid fr \<and> fr_payload fr \<noteq> [] then
       frame FT_WINDOW_UPDATE 0 sid (to_be_bytes (of_nat (length (fr_payload fr)) :: u32)) @
       frame FT_WINDOW_UPDATE 0 0 (to_be_bytes (of_nat (length (fr_payload fr)) :: u32))
     else if of_stream sid fr \<and> fr_typ fr = FT_SETTINGS \<and> fr_flags fr AND FL_ACK = 0 then frame FT_SETTINGS FL_ACK 0 []
     else [])"

lemma says_refl [simp]: "says C h h []"
  by (simp add: says_def)

lemma ack_settings_says:
  assumes "wg_crypto_ok C" and "tc_write_ok (h2_conn h)"
  shows "\<exists>h'. ack_settings C fl h = (h', Inr ()) \<and> same_input h' h \<and>
    says C h h' (if fl AND FL_ACK = 0 then frame FT_SETTINGS FL_ACK 0 [] else [])"
  using h2_send_says [OF assms] by (simp add: ack_settings_def)

lemma response_step_says:
  assumes "wg_crypto_ok C" and "tc_write_ok (h2_conn h)" and "\<not> goes_away sid fr"
  shows "\<exists>h'. response_step C sid fr s b h =
      (h', Inr (ends_response sid fr, response_status sid s [fr], b @ response_body sid [fr])) \<and>
    same_input h' h \<and> says C h h' (client_says sid fr)"
proof -
  obtain h1 where 1: "window_update C sid (of_nat (length (fr_payload fr))) h = (h1, Inr ())" "same_input h1 h"
     "says C h h1 (frame FT_WINDOW_UPDATE 0 sid (to_be_bytes (of_nat (length (fr_payload fr)) :: u32)) @
       frame FT_WINDOW_UPDATE 0 0 (to_be_bytes (of_nat (length (fr_payload fr)) :: u32)))"
    using window_update_says [OF assms(1,2)] by blast
  obtain h2 where 2: "ack_settings C (fr_flags fr) h = (h2, Inr ())" "same_input h2 h"
     "says C h h2 (if fr_flags fr AND FL_ACK = 0 then frame FT_SETTINGS FL_ACK 0 [] else [])"
    using ack_settings_says [OF assms(1,2)] by blast
  note defs = response_step_def Let_def of_stream_def is_headers_def is_data_def ends_response_def goes_away_def
    client_says_def response_status_def response_body_def map_filter_def frame_types
  show ?thesis
  proof (cases "of_stream sid fr")
    case False
    then show ?thesis by (simp add: defs)
  next
    case True
    then consider "fr_typ fr = FT_HEADERS" | "fr_typ fr = FT_DATA" "fr_payload fr \<noteq> []" | "fr_typ fr = FT_DATA" "fr_payload fr = []"
      | "fr_typ fr = FT_SETTINGS" | "fr_typ fr \<notin> {FT_HEADERS, FT_DATA, FT_SETTINGS, FT_GOAWAY}"
      using assms(3) by (auto simp: goes_away_def)
    then show ?thesis
    proof cases
      case 1
      with True show ?thesis by (auto simp: defs split: option.splits)
    next
      case c: 2
      with True 1 show ?thesis by (auto simp: defs)
    next
      case 3
      with True show ?thesis by (auto simp: defs)
    next
      case 4
      with True 2 show ?thesis by (auto simp: defs)
    next
      case 5
      with True show ?thesis by (auto simp: defs)
    qed
  qed
qed

lemma response_status_Cons: "response_status sid s (fr # frs) = response_status sid (response_status sid s [fr]) frs"
  by (auto simp: response_status_def map_filter_def)

lemma response_body_Cons: "response_body sid (fr # frs) = response_body sid [fr] @ response_body sid frs"
  by (simp add: response_body_def)

lemma read_response_ok:
  assumes ok: "wg_crypto_ok C" and fr: "frame_ok fr" "ends_response sid fr" "\<not> goes_away sid fr"
  shows "tc_write_ok (h2_conn h) \<Longrightarrow> h2_plain C h = concat (map enc_h2_frame (pre @ [fr])) @ rest \<Longrightarrow>
    list_all (\<lambda>f. frame_ok f \<and> \<not> ends_response sid f \<and> \<not> goes_away sid f) pre \<Longrightarrow>
    \<exists>h'. read_response C sid s b h =
        (h', Inr (response_status sid s (pre @ [fr]), strip_wire_prefix (b @ response_body sid (pre @ [fr])))) \<and>
      h2_plain C h' = rest \<and> tc_write_ok (h2_conn h') \<and> says C h h' (concat (map (client_says sid) (pre @ [fr])))"
proof (induction pre arbitrary: s b h)
  case Nil
  obtain h1 where r: "h2_read_frame C h = (h1, Inr fr)" "tc_write_ok (h2_conn h1)" "h2_plain C h1 = rest"
    using h2_frame_next [of h C fr rest] Nil fr by auto
  obtain h2 where 2: "response_step C sid fr s b h1 = (h2, Inr (True, response_status sid s [fr], b @ response_body sid [fr]))"
      "same_input h2 h1" "says C h1 h2 (client_says sid fr)"
    using response_step_says [OF ok r(2) fr(3), of s b] fr(2) by auto
  have "tc_write_ok (h2_conn h2)" using 2(2) r(2) by (simp add: same_input_def)
  then show ?case
    using r(1,3) 2 same_input_plain [OF 2(2)] says_read [OF h2_read_frame_output [OF r(1)] 2(3)]
    by (subst read_response.simps) simp
next
  case (Cons f pre)
  have f: "frame_ok f" "\<not> ends_response sid f" "\<not> goes_away sid f" using Cons.prems(3) by auto
  obtain h1 where r: "h2_read_frame C h = (h1, Inr f)" "tc_write_ok (h2_conn h1)"
      "h2_plain C h1 = concat (map enc_h2_frame (pre @ [fr])) @ rest"
    using h2_frame_next [of h C f "concat (map enc_h2_frame (pre @ [fr])) @ rest"] Cons.prems f(1) by auto
  obtain h2 where 2: "response_step C sid f s b h1 = (h2, Inr (False, response_status sid s [f], b @ response_body sid [f]))"
      "same_input h2 h1" "says C h1 h2 (client_says sid f)"
    using response_step_says [OF ok r(2) f(3), of s b] f(2) by auto
  have w: "tc_write_ok (h2_conn h2)" using 2(2) r(2) by (simp add: same_input_def)
  have p: "h2_plain C h2 = concat (map enc_h2_frame (pre @ [fr])) @ rest" using same_input_plain [OF 2(2)] r(3) by simp
  have l: "list_all (\<lambda>f. frame_ok f \<and> \<not> ends_response sid f \<and> \<not> goes_away sid f) pre" using Cons.prems(3) by simp
  have e: "read_response C sid s b h = read_response C sid (response_status sid s [f]) (b @ response_body sid [f]) h2"
    using r(1) 2(1) by (subst read_response.simps) simp
  have "says C h h2 (client_says sid f)" using says_read [OF h2_read_frame_output [OF r(1)] 2(3)] .
  then have t: "says C h h' (client_says sid f @ d)" if "says C h2 h' d" for h' d using says_trans that by blast
  have "response_status sid s ((f # pre) @ [fr]) = response_status sid (response_status sid s [f]) (pre @ [fr])"
    by (simp only: append_Cons response_status_Cons [of sid s f "pre @ [fr]"])
  moreover have "b @ response_body sid ((f # pre) @ [fr]) = (b @ response_body sid [f]) @ response_body sid (pre @ [fr])"
    by (simp only: append_Cons response_body_Cons [of sid f "pre @ [fr]"] append.assoc)
  moreover have "concat (map (client_says sid) ((f # pre) @ [fr])) = client_says sid f @ concat (map (client_says sid) (pre @ [fr]))"
    by simp
  ultimately show ?case
    using Cons.IH [OF w p l, of "response_status sid s [f]" "b @ response_body sid [f]"] t unfolding e by metis
qed

subsection \<open>Header blocks\<close>

text \<open>A reference decoder of HPACK (RFC 7541): integers of 7 bits, plain strings, literal fields with a new name.\<close>

function hpack_rem :: "bytes \<Rightarrow> (nat \<times> bytes) option" where
  "hpack_rem [] = None"
| "hpack_rem (b # r) =
    (if unat b < 128 then Some (unat b, r)
     else case hpack_rem r of None \<Rightarrow> None | Some (n, r) \<Rightarrow> Some (unat b - 128 + 128 * n, r))"
  by pat_completeness auto
termination by (relation "measure length") auto

definition hpack_str :: "bytes \<Rightarrow> (bytes \<times> bytes) option" where
  "hpack_str bs =
    (case bs of [] \<Rightarrow> None
     | b # r \<Rightarrow>
       (case (if unat b < 127 then Some (unat b, r)
              else if unat b = 127 then (case hpack_rem r of None \<Rightarrow> None | Some (n, r) \<Rightarrow> Some (127 + n, r))
              else None) of
          None \<Rightarrow> None
        | Some (n, r) \<Rightarrow> if length r < n then None else Some (take n r, drop n r)))"

fun hpack_fields :: "nat \<Rightarrow> bytes \<Rightarrow> ((bytes \<times> bytes) list \<times> bytes) option" where
  "hpack_fields 0 bs = Some ([], bs)"
| "hpack_fields (Suc k) bs =
    (case bs of [] \<Rightarrow> None
     | t # r \<Rightarrow> if t \<noteq> 0 then None
         else do { (n, r) \<leftarrow> hpack_str r; (v, r) \<leftarrow> hpack_str r; (hs, r) \<leftarrow> hpack_fields k r; Some ((n, v) # hs, r) })"

lemma hpack_rem_enc: "hpack_rem (enc_rem n @ r) = Some (n, r)"
proof (induction n arbitrary: r rule: enc_rem.induct)
  case (1 n)
  have "n mod 128 + 128 < 256" by simp
  then have "unat (of_nat (n mod 128 + 128) :: u8) = n mod 128 + 128" by (simp only: unat_of_nat) simp
  moreover have "unat (of_nat n :: u8) = n" if "n < 128" using that by (simp add: unat_of_nat)
  ultimately show ?case using 1 by (subst enc_rem.simps) (auto simp: mult_div_mod_eq)
qed

lemma hpack_str_enc: "hpack_str (enc_str s @ r) = Some (s, r)"
proof -
  have "unat (of_nat (length s) :: u8) = length s" if "length s < 127" using that by (simp add: unat_of_nat)
  then show ?thesis by (auto simp: hpack_str_def enc_str_def Let_def hpack_rem_enc)
qed

lemma hpack_fields_enc:
  "hpack_fields (length hs) (concat (map (\<lambda>(n, v). enc_header n v) hs) @ r) = Some (hs, r)"
  by (induction hs) (auto simp: enc_header_def hpack_str_enc)

lemma length_enc_rem: "length (enc_rem n) \<le> n + 1"
proof (induction n rule: enc_rem.induct)
  case (1 n)
  then show ?case by (subst enc_rem.simps) auto
qed

lemma length_enc_str: "length (enc_str s) \<le> 2 * length s + 2"
  using length_enc_rem [of "length s - 127"] by (auto simp: enc_str_def Let_def)

text \<open>
  The reference reading of a response's header block (RFC 7541): an indexed field, of which the
  static table gives the statuses at the indices 8 to 14, or a literal with a name and a value
  of less than 127 bytes, not Huffman coded; the status of a block is that of its first field that
  has one. The client knows only index 8 of the indexed statuses (the others are \<open>overlooked\<close>), and
  it stops at a field of another representation (\<open>unread\<close>): a literal with incremental indexing or
  never indexed, a table size update, or a final literal whose name is indexed.
\<close>

datatype hfield = Indexed nat | Literal bytes bytes

primrec enc_hfield :: "hfield \<Rightarrow> bytes" where
  "enc_hfield (Indexed i) = [of_nat (128 + i)]"
| "enc_hfield (Literal n v) = [0, of_nat (length n)] @ n @ [of_nat (length v)] @ v"

definition static_status :: "nat \<Rightarrow> nat option" where
  "static_status = map_of [(8, 200), (9, 204), (10, 206), (11, 304), (12, 400), (13, 404), (14, 500)]"

primrec field_status :: "hfield \<Rightarrow> nat option" where
  "field_status (Indexed i) = static_status i"
| "field_status (Literal n v) =
    (if n = ascii '':status'' then Some (foldl (\<lambda>a b. 10 * a + (unat b - 48)) 0 v) else None)"

definition block_status :: "hfield list \<Rightarrow> nat option" where
  "block_status fs = (case List.map_filter field_status fs of [] \<Rightarrow> None | s # _ \<Rightarrow> Some s)"

primrec hfield_ok :: "hfield \<Rightarrow> bool" where
  "hfield_ok (Indexed i) \<longleftrightarrow> 1 \<le> i \<and> i < 127"
| "hfield_ok (Literal n v) \<longleftrightarrow> length n < 127 \<and> length v < 127 \<and>
     (n = ascii '':status'' \<longrightarrow> length v = 3 \<and> list_all (\<lambda>b. 48 \<le> b \<and> b \<le> 57) v)"

primrec overlooked :: "hfield \<Rightarrow> bool" where
  "overlooked (Indexed i) \<longleftrightarrow> 9 \<le> i \<and> i \<le> 14"
| "overlooked (Literal n v) \<longleftrightarrow> False"

definition unread :: "bytes \<Rightarrow> bool" where
  "unread r \<longleftrightarrow> r = [] \<or> 16 \<le> hd r \<and> hd r < 128 \<or>
     (\<exists>i v. 1 \<le> i \<and> i < 16 \<and> length v < 127 \<and> r = i # of_nat (length v) # v)"

lemma low_bits: "k < 127 \<Longrightarrow> unat ((of_nat k :: u8) AND 127) = k"
proof -
  assume k: "k < 127"
  then have "(of_nat k :: u8) AND mask 7 = of_nat k" by (intro less_mask_eq) (simp add: word_less_nat_alt unat_of_nat)
  then show ?thesis using k by (simp add: mask_eq_exp_minus_1 unat_of_nat)
qed

lemma first_bytes:
  assumes "(x :: u8) < 128"
  shows "x AND 128 = 0" and "x AND 240 = 0 \<longleftrightarrow> x < 16"
proof -
  have "\<forall>n \<in> set [0..<128]. of_nat n AND (128 :: u8) = 0 \<and> (of_nat n AND (240 :: u8) = 0 \<longleftrightarrow> n < 16)"
    by code_simp
  moreover have "unat x \<in> set [0..<128]" using assms by (simp add: word_less_nat_alt)
  ultimately have "x AND 128 = 0 \<and> (x AND 240 = 0 \<longleftrightarrow> unat x < 16)" by fastforce
  then show "x AND 128 = 0" and "x AND 240 = 0 \<longleftrightarrow> x < 16" by (simp_all add: word_less_nat_alt)
qed

lemma decode_unread: "unread r \<Longrightarrow> decode_status r = None"
  using first_bytes [of "hd r"] low_bits
  by (cases r) (auto simp: unread_def decode_status.simps Let_def word_less_nat_alt word_le_nat_alt)

lemma indexed_first:
  assumes "1 \<le> i" and "i < 127"
  shows "(of_nat (128 + i) :: u8) AND 128 \<noteq> 0 \<and> ((of_nat (128 + i) :: u8) AND 127 = 8 \<longleftrightarrow> i = 8)"
proof -
  have "\<forall>n \<in> set [0..<127]. (of_nat (128 + n) :: u8) AND 128 \<noteq> 0 \<and> ((of_nat (128 + n) :: u8) AND 127 = 8 \<longleftrightarrow> n = 8)"
    by code_simp
  then show ?thesis using assms by auto
qed

lemma status_digits:
  assumes "list_all (\<lambda>b. 48 \<le> b \<and> b \<le> (57 :: u8)) v" and "length v = 3"
  shows "parse_u16 (map (\<lambda>b. char_of (unat b)) v) = Some (of_nat (foldl (\<lambda>a b. 10 * a + (unat b - 48)) 0 v))"
proof -
  obtain x y z where v: "v = [x, y, z]" using assms(2) by (auto simp: length_Suc_conv numeral_3_eq_3)
  have d: "is_digit (char_of (unat b))" "of_char (char_of (unat b)) = unat b" "char_of (unat b) \<noteq> CHR ''+''"
    if "48 \<le> b" "b \<le> 57" for b :: u8
    using that by (auto simp: is_digit_def word_le_nat_alt char_of_eq_iff take_bit_eq_mod)
  show ?thesis using assms(1) d unfolding v
    by (auto simp: parse_u16_def word_le_nat_alt algebra_simps)
qed

lemma decode_block:
  "list_all hfield_ok fs \<Longrightarrow> unread r \<Longrightarrow> decode_status (concat (map enc_hfield fs) @ r) =
     map_option of_nat (block_status (filter (\<lambda>f. \<not> overlooked f) fs))"
proof (induction fs)
  case Nil
  then show ?case by (simp add: decode_unread block_status_def)
next
  case (Cons f fs)
  show ?case
  proof (cases f)
    case (Indexed i)
    then show ?thesis using Cons indexed_first [of i]
      by (auto simp: decode_status.simps block_status_def static_status_def)
  next
    case (Literal n v)
    then show ?thesis using Cons low_bits [of "length n"] low_bits [of "length v"] status_digits [of v]
      by (auto simp: decode_status.simps block_status_def)
  qed
qed

lemma response_status_blocks:
  assumes "map fr_payload (filter (is_headers sid) frs) = map (\<lambda>(fs, r). concat (map enc_hfield fs) @ r) blocks"
    and "list_all (\<lambda>(fs, r). list_all hfield_ok fs \<and> unread r) blocks"
  shows "response_status sid 0 frs =
    of_nat (last (0 # List.map_filter (\<lambda>(fs, r). block_status (filter (\<lambda>f. \<not> overlooked f) fs)) blocks))"
proof -
  have "List.map_filter (\<lambda>fr. decode_status (fr_payload fr)) (filter (is_headers sid) frs) =
      List.map_filter decode_status (map (\<lambda>(fs, r). concat (map enc_hfield fs) @ r) blocks)"
    unfolding assms(1) [symmetric] by (simp add: map_filter_def filter_map comp_def)
  also have "\<dots> = map of_nat (List.map_filter (\<lambda>(fs, r). block_status (filter (\<lambda>f. \<not> overlooked f) fs)) blocks)"
    using assms(2) by (induction blocks) (auto simp: decode_block split: option.split)
  finally show ?thesis unfolding response_status_def by (simp add: last_map flip: list.map(2))
qed

text \<open>The four bytes of length that may precede a JSON body.\<close>

fun unprefixed :: "bytes \<Rightarrow> bytes" where
  "unprefixed (a # b # c # d # e # r) = (if a \<noteq> 0x7B \<and> e = 0x7B then e # r else a # b # c # d # e # r)"
| "unprefixed bs = bs"

lemma strip_wire_prefix_eq: "strip_wire_prefix bs = unprefixed bs"
  by (induction bs rule: unprefixed.induct) (auto simp: strip_wire_prefix_def)

subsection \<open>Requests\<close>

definition request_block :: "string \<Rightarrow> string \<Rightarrow> bytes \<Rightarrow> bytes" where
  "request_block authority path body = concat (map (\<lambda>(n, v). enc_header n v) (post_headers authority path body))"

definition request_frames :: "string \<Rightarrow> u32 \<Rightarrow> string \<Rightarrow> bytes \<Rightarrow> h2_frame list" where
  "request_frames authority sid path body =
    [\<lparr>fr_typ = FT_HEADERS, fr_flags = FL_END_HEADERS, fr_stream_id = sid, fr_payload = request_block authority path body\<rparr>,
     \<lparr>fr_typ = FT_DATA, fr_flags = FL_END_STREAM, fr_stream_id = sid, fr_payload = body\<rparr>]"

lemma length_post_headers: "length (post_headers authority path body) = 7"
  by (simp add: post_headers_def)

lemma post_frames_enc: "post_frames authority sid path body = concat (map enc_h2_frame (request_frames authority sid path body))"
  by (simp add: post_frames_def request_frames_def request_block_def enc_h2_frame_def)

lemma length_enc_headers:
  "length (concat (map (\<lambda>(n, v). enc_header n v) hs)) \<le> sum_list (map (\<lambda>(n, v). 2 * length n + 2 * length v + 5) hs)"
proof (induction hs)
  case (Cons f hs)
  obtain n v where "f = (n, v)" by fastforce
  then show ?case using Cons length_enc_str [of n] length_enc_str [of v] by (simp add: enc_header_def)
qed simp

lemma request_frames_ok:
  assumes "length authority \<le> 2 ^ 20" and "length path \<le> 2 ^ 20" and "length body < 2 ^ 24" and "sid < 2 ^ 31"
  shows "list_all frame_ok (request_frames authority sid path body)"
proof -
  have "length (decimal (length body)) \<le> 8" using assms(3) by (intro length_decimal_le) auto
  then have "length (request_block authority path body) < 2 ^ 24"
    using length_enc_headers [of "post_headers authority path body"] assms(1,2)
    by (simp add: request_block_def post_headers_def)
  then show ?thesis using assms(3,4) by (simp add: request_frames_def frame_ok_def)
qed

text \<open>The client side of a request: what it writes is the request, nothing is read.\<close>

lemma post_stream_says:
  assumes "wg_crypto_ok C" and "tc_write_ok (h2_conn h)"
  shows "\<exists>h'. post_stream C path body h = (h', Inr (h2_next_stream h)) \<and> h2_plain C h' = h2_plain C h \<and>
    tc_write_ok (h2_conn h') \<and> says C h h' (post_frames (h2_authority h) (h2_next_stream h) path body) \<and>
    post_json C path body h = read_response C (h2_next_stream h) 0 [] h'"
proof -
  let ?h = "h\<lparr>h2_next_stream := h2_next_stream h + 2\<rparr>"
  have w: "tc_write_ok (h2_conn ?h)" using assms(2) by simp
  obtain h' where "h2_send C (post_frames (h2_authority h) (h2_next_stream h) path body) ?h = (h', Inr ())"
      "same_input h' ?h" "says C ?h h' (post_frames (h2_authority h) (h2_next_stream h) path body)"
    using h2_send_says [OF assms(1) w] by blast
  then show ?thesis
    using w same_input_plain [of h' ?h C]
    by (auto simp: post_stream_def post_json_def Let_def says_def same_input_def h2_plain_def)
qed

subsection \<open>Startup\<close>

text \<open>What the server sends before its first frame: nothing, or the announced early payload.\<close>

definition enc_early :: "bytes option \<Rightarrow> bytes" where
  "enc_early early =
    (case early of None \<Rightarrow> [] | Some json \<Rightarrow> EARLY_MAGIC @ to_be_bytes (of_nat (length json) :: u32) @ json)"

definition client_hello :: bytes where
  "client_hello = PREFACE @ frame FT_SETTINGS 0 0
     ([0x00, 0x02, 0x00, 0x00, 0x00, 0x00, 0x00, 0x05] @ to_be_bytes MAX_FRAME_SIZE)"

text \<open>A frame within the size that the client announces in its settings.\<close>

definition frame_fits :: "h2_frame \<Rightarrow> bool" where
  "frame_fits fr \<longleftrightarrow> length (fr_payload fr) \<le> unat MAX_FRAME_SIZE \<and> fr_stream_id fr < 2 ^ 31"

lemma frame_fits_ok: "frame_fits fr \<Longrightarrow> frame_ok fr"
  by (simp add: frame_fits_def frame_ok_def MAX_FRAME_SIZE_def)

lemma early_some:
  assumes "tc_write_ok (h2_conn h)" and "h2_plain C h = enc_early (Some json) @ rest" and "length json < 2 ^ 32"
  shows "\<exists>h'. consume_early_payload C h = (h', Inr (Some json)) \<and> tc_write_ok (h2_conn h') \<and> h2_plain C h' = rest \<and> same_output h' h"
proof -
  obtain a b c d where t: "to_be_bytes (of_nat (length json) :: u32) = [a, b, c, d]" by (simp add: to_be_bytes_32)
  have n: "unat (from_be_bytes [a, b, c, d] :: u32) = length json"
    using bytes_roundtrip(2) [of "of_nat (length json)"] assms(3) by (simp add: t unat_of_nat)
  have p: "h2_plain C h = (EARLY_MAGIC @ [a, b, c, d]) @ json @ rest" using assms(2) by (simp add: enc_early_def t)
  obtain h1 h2 where r: "h2_read_exact C 9 h = (h1, Inr (EARLY_MAGIC @ [a, b, c, d]))"
      "h2_read_exact C (length json) h1 = (h2, Inr json)" "tc_write_ok (h2_conn h2)" "h2_plain C h2 = rest"
    using h2.rd_framed [OF assms(1) p, of 9 "length json"] by (auto simp: EARLY_MAGIC_def)
  have "same_output h2 h" using h2_read_exact_output r(1,2) same_output_trans by blast
  moreover have "consume_early_payload C h = (h2, Inr (Some json))"
    using r(1,2) n by (simp add: consume_early_payload_def EARLY_MAGIC_def)
  ultimately show ?thesis using r(3,4) by blast
qed

lemma h2_head_not_early:
  assumes "frame_fits fr"
  shows "take 5 (h2_head fr) \<noteq> EARLY_MAGIC"
proof -
  have "length (fr_payload fr) div 65536 = 0" using assms by (simp add: frame_fits_def MAX_FRAME_SIZE_def)
  then show ?thesis by (simp add: h2_head_def Let_def EARLY_MAGIC_def)
qed

lemma early_none:
  assumes "tc_write_ok (h2_conn h)" and "h2_plain C h = enc_h2_frame fr @ rest" and "frame_fits fr"
  shows "\<exists>h'. consume_early_payload C h = (h', Inr None) \<and> tc_write_ok (h2_conn h') \<and> h2_plain C h' = h2_plain C h \<and> same_output h' h"
proof -
  note hd = h2_head_fields [OF frame_fits_ok [OF assms(3)]]
  have p: "h2_plain C h = h2_head fr @ fr_payload fr @ rest" using assms(2) hd(1) by simp
  obtain h1 where r: "h2_read_exact C 9 h = (h1, Inr (h2_head fr))" "tc_write_ok (h2_conn h1)" "h2_plain C h1 = fr_payload fr @ rest"
    using h2.rd_next [OF assms(1) p hd(2)] by blast
  have "same_output h1 h" using h2_read_exact_output r(1) by blast
  with r p h2_head_not_early [OF assms(3)] show ?thesis
    by (auto simp: consume_early_payload_def h2_plain_def same_output_def)
qed

lemma settings_loop_ok:
  assumes ok: "wg_crypto_ok C" and st: "frame_ok st" "fr_typ st = FT_SETTINGS"
  shows "tc_write_ok (h2_conn h) \<Longrightarrow> h2_plain C h = concat (map enc_h2_frame (pre @ [st])) @ rest \<Longrightarrow>
    list_all (\<lambda>f. frame_ok f \<and> fr_typ f \<notin> {FT_SETTINGS, FT_GOAWAY}) pre \<Longrightarrow>
    \<exists>h'. settings_loop C h = (h', Inr ()) \<and> h2_plain C h' = rest \<and> tc_write_ok (h2_conn h') \<and>
      says C h h' (if fr_flags st AND FL_ACK = 0 then frame FT_SETTINGS FL_ACK 0 [] else []) \<and>
      h2_next_stream h' = h2_next_stream h \<and> h2_authority h' = h2_authority h"
proof (induction pre arbitrary: h)
  case Nil
  obtain h1 where r: "h2_read_frame C h = (h1, Inr st)" "tc_write_ok (h2_conn h1)" "h2_plain C h1 = rest"
    using h2_frame_next [of h C st rest] Nil st by auto
  obtain h2 where 2: "ack_settings C (fr_flags st) h1 = (h2, Inr ())" "same_input h2 h1"
      "says C h1 h2 (if fr_flags st AND FL_ACK = 0 then frame FT_SETTINGS FL_ACK 0 [] else [])"
    using ack_settings_says [OF ok r(2)] by blast
  have "tc_write_ok (h2_conn h2)" "h2_next_stream h2 = h2_next_stream h" "h2_authority h2 = h2_authority h"
    using 2(2) r(2) h2_read_frame_output [OF r(1)] by (simp_all add: same_input_def same_output_def)
  then show ?case
    using r(1,3) 2(1) st(2) same_input_plain [OF 2(2)] says_read [OF h2_read_frame_output [OF r(1)] 2(3)]
    by (subst settings_loop.simps) simp
next
  case (Cons f pre)
  obtain h1 where r: "h2_read_frame C h = (h1, Inr f)" "tc_write_ok (h2_conn h1)"
      "h2_plain C h1 = concat (map enc_h2_frame (pre @ [st])) @ rest"
    using h2_frame_next [of h C f "concat (map enc_h2_frame (pre @ [st])) @ rest"] Cons.prems by auto
  have e: "settings_loop C h = settings_loop C h1" using r(1) Cons.prems(3) by (subst settings_loop.simps) simp
  show ?case
    unfolding e using Cons.IH [OF r(2,3)] Cons.prems(3) says_read [OF h2_read_frame_output [OF r(1)]] h2_read_frame_output [OF r(1)]
    by (auto simp: same_output_def)
qed

text \<open>What a server starts with: maybe an early payload, then frames the last of which are its settings.\<close>

definition starts_up :: "bytes option \<Rightarrow> h2_frame list \<Rightarrow> bool" where
  "starts_up early frs \<longleftrightarrow> (case early of None \<Rightarrow> True | Some json \<Rightarrow> length json < 2 ^ 32) \<and> frs \<noteq> [] \<and>
     list_all frame_fits frs \<and> fr_typ (last frs) = FT_SETTINGS \<and>
     list_all (\<lambda>f. fr_typ f \<notin> {FT_SETTINGS, FT_GOAWAY}) (butlast frs)"

definition settings_ack :: "h2_frame list \<Rightarrow> bytes" where
  "settings_ack frs = (if fr_flags (last frs) AND FL_ACK = 0 then frame FT_SETTINGS FL_ACK 0 [] else [])"

lemma h2_start_ok:
  assumes ok: "wg_crypto_ok C" and "tc_write_ok conn"
    and "plain C (nt_recv tr) (nt_rx_nonce tr) (tc_pending conn) = enc_early early @ concat (map enc_h2_frame frs) @ rest"
    and "starts_up early frs"
  shows "\<exists>h. h2_start C conn tr authority = (h, Inr early) \<and> h2_plain C h = rest \<and> tc_write_ok (h2_conn h) \<and>
    h2_next_stream h = 1 \<and> h2_authority h = authority \<and>
    says C \<lparr>h2_conn = conn, h2_tr = tr, h2_rx = [], h2_next_stream = 1, h2_authority = authority\<rparr> h
      (client_hello @ settings_ack frs)"
proof -
  let ?h = "\<lparr>h2_conn = conn, h2_tr = tr, h2_rx = [], h2_next_stream = 1, h2_authority = authority\<rparr>"
  let ?fs = "concat (map enc_h2_frame frs) @ rest"
  obtain pre st where f: "frs = pre @ [st]" using assms(4) by (auto simp: starts_up_def intro: that [OF append_butlast_last_id [symmetric]])
  obtain h1 where 1: "h2_send C client_hello ?h = (h1, Inr ())" "same_input h1 ?h" "says C ?h h1 client_hello"
    using h2_send_says [OF ok, of ?h client_hello] assms(2) by auto
  have w1: "tc_write_ok (h2_conn h1)" using 1(2) assms(2) by (simp add: same_input_def)
  have p1: "h2_plain C h1 = enc_early early @ ?fs" using same_input_plain [OF 1(2), of C] assms(3) by (simp add: h2_plain_def)
  have "\<exists>h2. consume_early_payload C h1 = (h2, Inr early) \<and> tc_write_ok (h2_conn h2) \<and> h2_plain C h2 = ?fs \<and> same_output h2 h1"
  proof (cases early)
    case None
    obtain f fs where "frs = f # fs" using assms(4) by (cases frs) (auto simp: starts_up_def)
    then have "frame_fits f" "h2_plain C h1 = enc_h2_frame f @ concat (map enc_h2_frame fs) @ rest"
      using assms(4) p1 None by (simp_all add: enc_early_def starts_up_def)
    from early_none [OF w1 this(2,1)] p1 None show ?thesis by (auto simp: enc_early_def)
  next
    case (Some j)
    with early_some [OF w1] p1 assms(4) show ?thesis by (simp add: starts_up_def)
  qed
  then obtain h2 where 2: "consume_early_payload C h1 = (h2, Inr early)" "tc_write_ok (h2_conn h2)" "h2_plain C h2 = ?fs" "same_output h2 h1"
    by blast
  have st: "frame_ok st" "fr_typ st = FT_SETTINGS" and pre: "list_all (\<lambda>f. frame_ok f \<and> fr_typ f \<notin> {FT_SETTINGS, FT_GOAWAY}) pre"
    using assms(4) f frame_fits_ok by (auto simp: list_all_iff starts_up_def)
  obtain h3 where 3: "settings_loop C h2 = (h3, Inr ())" "h2_plain C h3 = rest" "tc_write_ok (h2_conn h3)"
      "says C h2 h3 (settings_ack frs)" "h2_next_stream h3 = h2_next_stream h2" "h2_authority h3 = h2_authority h2"
    using settings_loop_ok [OF ok st 2(2) _ pre] 2(3) f by (auto simp: settings_ack_def)
  have "h2_start C conn tr authority = (h3, Inr early)"
    using 1(1) 2(1) 3(1) unfolding h2_start_def Let_def client_hello_def [symmetric] by simp
  moreover have "h2_next_stream h3 = 1" "h2_authority h3 = authority"
    using 1(2) 2(4) 3(5,6) by (simp_all add: same_input_def same_output_def)
  ultimately show ?thesis using 3(2,3) says_trans [OF 1(3) says_read [OF 2(4) 3(4)]] by blast
qed

lemma plain_Nil [simp]: "plain C k n [] = []"
  by (subst plain.simps) simp

lemma says_out:
  assumes "says C h h' d"
  obtains out where "tc_sent (h2_conn h') = tc_sent (h2_conn h) @ out"
    "plain C (nt_send (h2_tr h)) (nt_tx_nonce (h2_tr h)) out = d"
proof -
  obtain out where "tc_sent (h2_conn h') = tc_sent (h2_conn h) @ out"
      "\<And>r. plain C (nt_send (h2_tr h)) (nt_tx_nonce (h2_tr h)) (out @ r) = d @ plain C (nt_send (h2_tr h)) (nt_tx_nonce (h2_tr h')) r"
    using assms unfolding says_def by blast
  from that [OF this(1)] this(2) [of "[]"] show thesis by simp
qed

lemma post_json_says:
  assumes "wg_crypto_ok C" and "tc_write_ok (h2_conn h)" and "h2_plain C h = concat (map enc_h2_frame frs) @ rest"
    and "is_response (h2_next_stream h) frs"
  shows "\<exists>h'. post_json C path body h =
      (h', Inr (response_status (h2_next_stream h) 0 frs, strip_wire_prefix (response_body (h2_next_stream h) frs))) \<and>
    h2_plain C h' = rest \<and>
    says C h h' (post_frames (h2_authority h) (h2_next_stream h) path body @ concat (map (client_says (h2_next_stream h)) frs))"
proof -
  let ?sid = "h2_next_stream h"
  obtain pre fr where f: "frs = pre @ [fr]" using assms(4) by (auto simp: is_response_def intro: that [OF append_butlast_last_id [symmetric]])
  have r: "frame_ok fr" "ends_response ?sid fr"
    "list_all (\<lambda>f. frame_ok f \<and> \<not> ends_response ?sid f \<and> \<not> goes_away ?sid f) pre"
    using assms(4) f by (auto simp: is_response_def list_all_iff)
  have g: "\<not> goes_away ?sid fr"
    using r(2) by (auto simp: ends_response_def is_headers_def is_data_def goes_away_def frame_types)
  obtain h1 where 1: "h2_plain C h1 = h2_plain C h" "tc_write_ok (h2_conn h1)" "says C h h1 (post_frames (h2_authority h) ?sid path body)"
      "post_json C path body h = read_response C ?sid 0 [] h1"
    using post_stream_says [OF assms(1,2)] by blast
  obtain h2 where 2: "read_response C ?sid 0 [] h1 =
        (h2, Inr (response_status ?sid 0 frs, strip_wire_prefix ([] @ response_body ?sid frs)))"
      "h2_plain C h2 = rest" "says C h1 h2 (concat (map (client_says ?sid) frs))"
    using read_response_ok [OF assms(1) r(1,2) g 1(2) _ r(3), of rest 0 "[]"] assms(3) 1(1) f by auto
  with 1(3,4) says_trans show ?thesis by fastforce
qed

subsection \<open>Properties\<close>


text \<open>A session whose peer has sealed the given plaintexts.\<close>

definition toy_session :: "bytes list \<Rightarrow> h2_session" where
  "toy_session ps =
    \<lparr>h2_conn = \<lparr>tc_reads = [], tc_writes = None, tc_sent = [], tc_rx = concat (snd (seal_all toy_crypto (noise_transport_new [2] [1]) ps))\<rparr>,
     h2_tr = noise_transport_new [1] [2], h2_rx = [], h2_next_stream = 1, h2_authority = ''ctl''\<rparr>"

lemma toy_session_plain:
  assumes "list_all (\<lambda>p. length p \<le> 65519) ps"
  shows "h2_plain toy_crypto (toy_session ps) = concat ps"
proof -
  obtain t rs where s: "seal_all toy_crypto (noise_transport_new [2] [1]) ps = (t, rs)" by fastforce
  show ?thesis using plain_sealed [OF toy_crypto_ok s assms, of "[]"] s
    by (simp add: h2_plain_def toy_session_def tc_pending_def noise_transport_new_def)
qed

definition toy_frames :: "h2_frame list" where
  "toy_frames =
    [\<lparr>fr_typ = FT_SETTINGS, fr_flags = 0, fr_stream_id = 0, fr_payload = []\<rparr>,
     \<lparr>fr_typ = FT_HEADERS, fr_flags = FL_END_HEADERS, fr_stream_id = 1,
       fr_payload = concat (map enc_hfield [Literal (ascii '':status'') (ascii ''403''), Indexed 31]) @ [0x5F]\<rparr>,
     \<lparr>fr_typ = FT_DATA, fr_flags = FL_END_STREAM, fr_stream_id = 3, fr_payload = [9]\<rparr>,
     \<lparr>fr_typ = FT_DATA, fr_flags = 0, fr_stream_id = 1, fr_payload = [0x7B]\<rparr>]"


text \<open>
  C12. The server reads the request back. Whatever precedes it, the request that \<open>post_stream\<close> (and
  \<open>post_json\<close>) writes is read by a peer with the swapped key and the same counter as one HEADERS
  frame, whose block a reference HPACK decoder takes to exactly the method, authority, path, type
  and length of the request, and one DATA frame with the body that ends the stream.
\<close>

theorem request_read_back:
  assumes "wg_crypto_ok C" and "tc_write_ok (h2_conn h)" and "length (h2_authority h) \<le> 2 ^ 20"
    and "length path \<le> 2 ^ 20" and "length body < 2 ^ 24" and "h2_next_stream h < 2 ^ 31"
    and "post_stream C path body h = (h', r)" and "tc_sent (h2_conn h') = tc_sent (h2_conn h) @ out"
    and "tc_write_ok (h2_conn p)" and "h2_rx p = []" and "tc_pending (h2_conn p) = out"
    and "nt_recv (h2_tr p) = nt_send (h2_tr h)" and "nt_rx_nonce (h2_tr p) = nt_tx_nonce (h2_tr h)"
  shows "r = Inr (h2_next_stream h) \<and>
    (\<exists>p1 p2 block. h2_read_frame C p =
        (p1, Inr \<lparr>fr_typ = FT_HEADERS, fr_flags = FL_END_HEADERS, fr_stream_id = h2_next_stream h, fr_payload = block\<rparr>) \<and>
      h2_read_frame C p1 =
        (p2, Inr \<lparr>fr_typ = FT_DATA, fr_flags = FL_END_STREAM, fr_stream_id = h2_next_stream h, fr_payload = body\<rparr>) \<and>
      hpack_fields 7 block = Some (post_headers (h2_authority h) path body, []) \<and> h2_plain C p2 = [])"
proof -
  let ?fs = "request_frames (h2_authority h) (h2_next_stream h) path body"
  obtain h1 where 1: "post_stream C path body h = (h1, Inr (h2_next_stream h))"
      "says C h h1 (post_frames (h2_authority h) (h2_next_stream h) path body)"
    using post_stream_says [OF assms(1,2)] by blast
  obtain f1 f2 where f: "?fs = [f1, f2]" by (simp add: request_frames_def)
  have ok: "frame_ok f1" "frame_ok f2" using request_frames_ok [OF assms(3-6)] f by simp_all
  have p: "h2_plain C p = enc_h2_frame f1 @ enc_h2_frame f2 @ []"
    using 1(1) says_out [OF 1(2)] assms(7,8,10-13) f by (auto simp: h2_plain_def post_frames_enc)
  obtain p1 where p1: "h2_read_frame C p = (p1, Inr f1)" "tc_write_ok (h2_conn p1)" "h2_plain C p1 = enc_h2_frame f2 @ []"
    using h2_frame_next [OF assms(9) p ok(1)] by blast
  obtain p2 where p2: "h2_read_frame C p1 = (p2, Inr f2)" "h2_plain C p2 = []"
    using h2_frame_next [OF p1(2,3) ok(2)] by blast
  have "hpack_fields 7 (request_block (h2_authority h) path body) = Some (post_headers (h2_authority h) path body, [])"
    using hpack_fields_enc [of "post_headers (h2_authority h) path body" "[]"] length_post_headers
    unfolding request_block_def by simp
  with 1(1) p1(1) p2 f assms(7) show ?thesis by (auto simp: request_frames_def)
qed

theorem request_read_back_witness:
  "\<exists>h' p1 p2 block. post_stream toy_crypto ''/x'' [1, 2] (toy_session []) = (h', Inr 1) \<and>
    h2_read_frame toy_crypto ((toy_session [])\<lparr>h2_tr := noise_transport_new [2] [1],
        h2_conn := \<lparr>tc_reads = [], tc_writes = None, tc_sent = [], tc_rx = tc_sent (h2_conn h')\<rparr>\<rparr>) =
      (p1, Inr \<lparr>fr_typ = FT_HEADERS, fr_flags = FL_END_HEADERS, fr_stream_id = 1, fr_payload = block\<rparr>) \<and>
    h2_read_frame toy_crypto p1 = (p2, Inr \<lparr>fr_typ = FT_DATA, fr_flags = FL_END_STREAM, fr_stream_id = 1, fr_payload = [1, 2]\<rparr>)"
proof -
  let ?h = "toy_session []"
  obtain h' r where s: "post_stream toy_crypto ''/x'' [1, 2] ?h = (h', r)" by fastforce
  let ?p = "?h\<lparr>h2_tr := noise_transport_new [2] [1],
    h2_conn := \<lparr>tc_reads = [], tc_writes = None, tc_sent = [], tc_rx = tc_sent (h2_conn h')\<rparr>\<rparr>"
  have "tc_write_ok (h2_conn ?h)" "tc_write_ok (h2_conn ?p)" "h2_rx ?p = []" "tc_pending (h2_conn ?p) = tc_sent (h2_conn h')"
    "h2_next_stream ?h = 1" "tc_sent (h2_conn ?h) = []" "length (h2_authority ?h) \<le> 2 ^ 20"
    "nt_recv (h2_tr ?p) = nt_send (h2_tr ?h)" "nt_rx_nonce (h2_tr ?p) = nt_tx_nonce (h2_tr ?h)"
    by (simp_all add: toy_session_def tc_pending_def noise_transport_new_def)
  with request_read_back [OF toy_crypto_ok _ _ _ _ _ s, of "tc_sent (h2_conn h')" ?p] s show ?thesis
    by (auto simp del: hpack_fields.simps)
qed

end
