(* ===== verification/Control_Session.thy ===== *)
theory Control_Session
  imports Control Http2_Client
begin

text \<open>
  What \<open>Control\<close> achieves against a server that follows the protocol: the upgrade and the Noise
  handshake leave the connection at the first record, the HTTP/2 start-up at the first answer;
  the node registers with its own keys and enforces the packet filter of the map it fetched.
\<close>

subsection \<open>The upgrade\<close>

lemma find_from_append:
  assumes "find_from p i xs = Some k"
  shows "find_from p i (xs @ ys) = Some k"
  using assms
proof (induction xs arbitrary: i)
  case (Cons x xs)
  show ?case
  proof (cases "take (length p) (x # xs) = p")
    case True
    then have "length p \<le> length (x # xs)" by (metis length_take min.cobounded1)
    then have "take (length p) (x # xs @ ys) = p" using True take_append [of "length p" "x # xs" ys] by simp
    then show ?thesis using True Cons.prems by simp
  next
    case False
    then have f: "find_from p (i + 1) xs = Some k" using Cons.prems by simp
    then have "length p \<le> length xs" using find_from_Some [OF f] by linarith
    then have "take (length p) (x # xs @ ys) = take (length p) (x # xs)" using take_append [of "length p" "x # xs" ys] by simp
    then show ?thesis using False Cons.IH [OF f] by simp
  qed
qed (cases ys; auto split: if_splits)

lemma find_sub_append: "find_sub xs p = Some k \<Longrightarrow> find_sub (xs @ ys) p = Some k"
  by (simp add: find_sub_def find_from_append)

lemma find_sub_prefix:
  assumes "find_sub (xs @ ys) p = Some k" and "length xs < k + length p"
  shows "find_sub xs p = None"
proof (cases "find_sub xs p")
  case (Some k')
  then have "k' = k" using find_sub_append assms(1) by fastforce
  then show ?thesis using find_from_Some [of p 0 xs k'] Some assms(2) by (simp add: find_sub_def)
qed

lemma length_crlf2 [simp]: "length crlf2 = 4"
  by (simp add: crlf2_def)

text \<open>The response headers of a successful upgrade: one blank line, at the end, and the status 101.\<close>

definition upgrade_head :: "bytes \<Rightarrow> bool" where
  "upgrade_head H \<longleftrightarrow> find_sub H crlf2 = Some (length H - 4) \<and> length H \<le> 8192 \<and>
     find_sub (status_line H) (ascii '' 101 '') \<noteq> None"

lemma head_loop_ok:
  assumes H: "find_sub H crlf2 = Some (length H - 4)" "length H \<le> 8192"
  shows "head @ stream_data rs = H @ rest \<Longrightarrow> length head < length H \<Longrightarrow>
    \<exists>rs' x. head_loop rs head = (rs', Inr (H @ x, length H)) \<and> x @ stream_data rs' = rest"
proof (induction rs arbitrary: head)
  case (Cons r rs)
  have l: "4 \<le> length H" using find_from_Some [of crlf2 0 H "length H - 4"] H(1) by (simp add: find_sub_def)
  obtain d where r: "r = ReadOk d" "d \<noteq> []"
    using Cons.prems by (cases r) (auto split: if_splits dest: arg_cong [where f = length])
  have e: "(head @ d) @ stream_data rs = H @ rest" using Cons.prems(1) r by simp
  show ?case
  proof (cases "length (head @ d) < length H")
    case True
    then obtain y where y: "H = (head @ d) @ y" using e by (metis append_eq_append_conv_if append_take_drop_id less_imp_le)
    have "length (head @ d) < length H - 4 + length crlf2" using l True by simp
    then have "find_sub (head @ d) crlf2 = None" using find_sub_prefix [of "head @ d" y crlf2 "length H - 4"] H(1) y by metis
    moreover have "\<not> length (head @ d) > 8192" using True H(2) by linarith
    ultimately show ?thesis using Cons.IH [OF e True] r by (simp add: Let_def)
  next
    case False
    then have "H = take (length H) (head @ d) \<and> rest = drop (length H) (head @ d) @ stream_data rs"
      using append_eq_append_conv_if [THEN iffD1, OF e [symmetric]] by (simp only: not_less if_True)
    then obtain x where x: "head @ d = H @ x" "x @ stream_data rs = rest" by (metis append_take_drop_id)
    then show ?thesis using r find_sub_append [OF H(1), of x] l by (simp add: Let_def)
  qed
qed simp

lemma status_line_head:
  assumes "find_sub H crlf2 = Some k"
  shows "status_line (H @ x) = status_line H"
proof -
  have "take 4 (drop k H) = crlf2" using find_from_Some [of crlf2 0 H k] assms by (simp add: find_sub_def)
  then have "10 \<in> set (take 4 (drop k H))" by (simp add: crlf2_def)
  then have "10 \<in> set H" by (meson in_set_dropD in_set_takeD)
  then show ?thesis by (simp add: status_line_def)
qed

lemma upgrade_ok:
  assumes "upgrade_head H" and "stream_data reads = H @ rest"
  shows "\<exists>c. connect_and_upgrade reads None host hs = Inr c \<and> tc_pending c = rest \<and> tc_write_ok c \<and>
    tc_sent c = upgrade_request host hs"
proof -
  have H: "find_sub H crlf2 = Some (length H - 4)" "length H \<le> 8192" using assms(1) by (simp_all add: upgrade_head_def)
  have "0 < length H" using find_from_Some [of crlf2 0 H "length H - 4"] H(1) by (auto simp: find_sub_def)
  then obtain rs' x where "head_loop reads [] = (rs', Inr (H @ x, length H))" "x @ stream_data rs' = rest"
    using head_loop_ok [OF H, of "[]" reads rest] assms(2) by auto
  moreover have "find_sub (status_line (H @ x)) (ascii '' 101 '') \<noteq> None"
    using assms(1) status_line_head [OF H(1), of x] by (simp add: upgrade_head_def)
  ultimately show ?thesis by (simp add: connect_and_upgrade_def stream_write_def tc_pending_def)
qed

subsection \<open>The handshake\<close>

text \<open>The Noise handshake succeeds on the response \<open>resp\<close> and yields the two keys.\<close>

definition handshake_runs :: "'s snow_ops \<Rightarrow> bytes \<Rightarrow> bytes \<Rightarrow> bytes \<Rightarrow> bytes \<Rightarrow> bytes \<Rightarrow> bool" where
  "handshake_runs N mp cp resp ks kr \<longleftrightarrow>
    (\<exists>hs0 hs1 msg hs2. sn_build N PROLOGUE mp cp = Some hs0 \<and> sn_write N hs0 = Some (hs1, msg) \<and>
       sn_read N hs1 resp = Some hs2 \<and> sn_finished N hs2 \<and> sn_split N hs2 = (ks, kr))"

lemma handshake_ok:
  assumes "upgrade_head H" and "handshake_runs N mp cp resp ks kr" and "length resp < 65536"
    and "stream_data reads = H @ enc_frame (NOISE_RESPONSE, resp) @ recs"
  shows "\<exists>c. control_handshake N host (Some (reads, None)) mp cp = Some (Inr (c, noise_transport_new ks kr)) \<and>
    tc_pending c = recs \<and> tc_write_ok c"
proof -
  obtain hs0 hs1 msg hs2 where n: "sn_build N PROLOGUE mp cp = Some hs0" "sn_write N hs0 = Some (hs1, msg)"
      "sn_read N hs1 resp = Some hs2" "sn_finished N hs2" "sn_split N hs2 = (ks, kr)"
    using assms(2) by (auto simp: handshake_runs_def)
  let ?init = "to_be_bytes PROTOCOL_VERSION @ [NOISE_INITIATION] @ to_be_bytes (of_nat (length msg) :: u16) @ msg"
  obtain e where e: "base64_std ?init = Some e" using b64_loop_decodes [of ?init] by (auto simp: base64_std_def)
  obtain c where c: "connect_and_upgrade reads None host (map (\<lambda>b. char_of (unat b)) e) = Inr c"
      "tc_pending c = enc_frame (NOISE_RESPONSE, resp) @ recs" "tc_write_ok c"
    using upgrade_ok [OF assms(1,4)] by blast
  obtain c' where c': "conn_read_frame c = (c', Inr (NOISE_RESPONSE, resp))" "tc_pending c' = recs"
    using read_frame_next [OF c(2)] assms(3) by auto
  have "tc_write_ok c'" using conn_read_frame_size [OF c'(1)] c(3) by simp
  moreover have "noise_start N mp cp = Inr (hs1, ?init)" using n(1,2) by (simp add: noise_start_def)
  moreover have "noise_complete N hs1 resp = Inr (noise_transport_new ks kr)" using n(3-5) by (simp add: noise_complete_def)
  ultimately show ?thesis
    using e c(1) c' by (simp add: control_handshake_def NOISE_RESPONSE_def NOISE_ERROR_def)
qed

text \<open>
  What a server sends that follows the protocol: the upgrade, its handshake message and records
  that decrypt to an early payload or none, the start-up frames and then \<open>rest\<close>.
\<close>

definition control_stream ::
  "wg_crypto \<Rightarrow> 's snow_ops \<Rightarrow> bytes \<Rightarrow> bytes \<Rightarrow> bytes \<Rightarrow> h2_frame list \<Rightarrow> bytes \<Rightarrow> bytes \<Rightarrow> bool" where
  "control_stream C N mp cp ks frs rest bs \<longleftrightarrow>
    (\<exists>H resp kr recs early. bs = H @ enc_frame (NOISE_RESPONSE, resp) @ recs \<and> upgrade_head H \<and> length resp < 65536 \<and>
       handshake_runs N mp cp resp ks kr \<and> starts_up early frs \<and>
       plain C kr 0 recs = enc_early early @ concat (map enc_h2_frame frs) @ rest)"

definition fresh_transport :: "bytes \<Rightarrow> h2_session \<Rightarrow> bool" where
  "fresh_transport ks h \<longleftrightarrow> nt_send (h2_tr h) = ks \<and> nt_tx_nonce (h2_tr h) = 0"

lemma connect_ok:
  assumes "wg_crypto_ok C" and "control_stream C N mp cp ks frs rest (stream_data reads)"
  shows "\<exists>h0 h. connect C N cfg (Some (reads, None)) mp cp = Some (Inr h) \<and> h2_plain C h = rest \<and> tc_write_ok (h2_conn h) \<and>
    h2_next_stream h = 1 \<and> h2_authority h = CONTROL_HOST cfg \<and> fresh_transport ks h0 \<and>
    says C h0 h (client_hello @ settings_ack frs)"
proof -
  obtain H resp kr recs early where s: "stream_data reads = H @ enc_frame (NOISE_RESPONSE, resp) @ recs" "upgrade_head H"
      "length resp < 65536" "handshake_runs N mp cp resp ks kr" "starts_up early frs"
      "plain C kr 0 recs = enc_early early @ concat (map enc_h2_frame frs) @ rest"
    using assms(2) by (auto simp: control_stream_def)
  let ?t = "noise_transport_new ks kr"
  obtain c where c: "control_handshake N (CONTROL_HOST cfg) (Some (reads, None)) mp cp = Some (Inr (c, ?t))"
      "tc_pending c = recs" "tc_write_ok c"
    using handshake_ok [OF s(2,4,3,1)] by blast
  let ?h0 = "\<lparr>h2_conn = c, h2_tr = ?t, h2_rx = [], h2_next_stream = 1, h2_authority = CONTROL_HOST cfg\<rparr>"
  obtain h where h: "h2_start C c ?t (CONTROL_HOST cfg) = (h, Inr early)" "h2_plain C h = rest" "tc_write_ok (h2_conn h)"
      "h2_next_stream h = 1" "h2_authority h = CONTROL_HOST cfg" "says C ?h0 h (client_hello @ settings_ack frs)"
    using h2_start_ok [OF assms(1) c(3), of ?t early frs rest] s(5,6) c(2) by (auto simp: noise_transport_new_def)
  moreover have "fresh_transport ks ?h0" by (simp add: fresh_transport_def noise_transport_new_def)
  moreover have "connect C N cfg (Some (reads, None)) mp cp = Some (Inr h)" using c(1) h(1) by (simp add: connect_def)
  ultimately show ?thesis by blast
qed

subsection \<open>Registration\<close>

text \<open>A field of a request that names a key: its text decodes to the key.\<close>

definition names_key :: "(string, json) fmap \<Rightarrow> string \<Rightarrow> bytes \<Rightarrow> bool" where
  "names_key m field k \<longleftrightarrow> (\<exists>s. fmlookup m field = Some (JStr s) \<and> parse_keyed_hex s = Some (Some k))"

definition keys_ok :: "node_keys \<Rightarrow> bool" where
  "keys_ok keys \<longleftrightarrow> length (kp_public (nk_machine keys)) = 32 \<and> length (kp_public (nk_node keys)) = 32 \<and>
     length (kp_public (nk_disco keys)) = 32"

lemma public_hex_named:
  assumes "length (kp_public k) = 32"
  shows "\<exists>s. public_hex k = Some s \<and> (\<forall>p. parse_keyed_hex (p @ CHR '':'' # s) = Some (Some (kp_public k)))"
proof -
  obtain s where s: "hex_lower (kp_public k) = Some s" "length s = 64" "hex_pairs (ascii s) = Some (kp_public k)"
      "\<forall>c \<in> set s. c \<noteq> CHR '':'' \<and> plain_ascii (of_char c)"
    using hex_lower_pairs [of "kp_public k"] assms by auto
  have "CHR '':'' \<notin> set s" using s(4) by blast
  then have "last (split_on CHR '':'' (p @ CHR '':'' # s)) = s" for p by (simp add: split_on_append split_on_none)
  then show ?thesis using s(1-3) by (simp add: public_hex_def parse_keyed_hex_eq)
qed

lemma build_register_json_ok:
  assumes "keys_ok keys"
  shows "\<exists>m. build_register_json S cfg keys auth_key = Some (sj_to_string S (JObj m)) \<and>
    names_key m ''NodeKey'' (kp_public (nk_node keys)) \<and> names_key m ''MachineKey'' (kp_public (nk_machine keys)) \<and>
    names_key m ''DiscoKey'' (kp_public (nk_disco keys)) \<and>
    fmlookup m ''Auth'' = (if auth_key = [] then None else Some (JObj (fmap_of_list [(''AuthKey'', JStr auth_key)])))"
proof -
  obtain a b c where k: "public_hex (nk_node keys) = Some a" "\<forall>p. parse_keyed_hex (p @ CHR '':'' # a) = Some (Some (kp_public (nk_node keys)))"
    "public_hex (nk_machine keys) = Some b" "\<forall>p. parse_keyed_hex (p @ CHR '':'' # b) = Some (Some (kp_public (nk_machine keys)))"
    "public_hex (nk_disco keys) = Some c" "\<forall>p. parse_keyed_hex (p @ CHR '':'' # c) = Some (Some (kp_public (nk_disco keys)))"
    using public_hex_named assms unfolding keys_ok_def by meson
  then show ?thesis
    using k(2) [THEN spec, of "''nodekey''"] k(4) [THEN spec, of "''mkey''"] k(6) [THEN spec, of "''discokey''"]
    by (auto simp: build_register_json_def Let_def names_key_def)
qed

lemma build_map_json_ok:
  assumes "keys_ok keys"
  shows "\<exists>m. build_map_json S cfg keys stream omit keep endpoints = Some (sj_to_string S (JObj m)) \<and>
    names_key m ''NodeKey'' (kp_public (nk_node keys)) \<and> names_key m ''DiscoKey'' (kp_public (nk_disco keys)) \<and>
    fmlookup m ''Endpoints'' = Some (json_strs endpoints) \<and> fmlookup m ''Stream'' = Some (JBool stream) \<and>
    fmlookup m ''OmitPeers'' = Some (JBool omit)"
proof -
  obtain a c where k: "public_hex (nk_node keys) = Some a" "\<forall>p. parse_keyed_hex (p @ CHR '':'' # a) = Some (Some (kp_public (nk_node keys)))"
    "public_hex (nk_disco keys) = Some c" "\<forall>p. parse_keyed_hex (p @ CHR '':'' # c) = Some (Some (kp_public (nk_disco keys)))"
    using public_hex_named assms unfolding keys_ok_def by meson
  then show ?thesis
    using k(2) [THEN spec, of "''nodekey''"] k(4) [THEN spec, of "''discokey''"]
    by (auto simp: build_map_json_def Let_def names_key_def)
qed

lemma register_ok:
  assumes "build_register_json S cfg keys auth_key = Some body"
    and "post_json C ''/machine/register'' body h = (h', Inr (st, r))"
  shows "\<exists>res. register C S cfg h keys auth_key = Some (h', Inr res) \<and> rr_status res = st \<and> rr_raw res = r \<and>
    (rr_machine_authorized res \<longleftrightarrow> (\<exists>v. sj_parse S r = Some v \<and> json_get v ''MachineAuthorized'' = Some (JBool True))) \<and>
    (rr_auth_url res = Some url \<longleftrightarrow> url \<noteq> [] \<and> (\<exists>v. sj_parse S r = Some v \<and> json_get v ''AuthURL'' = Some (JStr url)))"
proof -
  define v where "v = (case sj_parse S r of Some v \<Rightarrow> v | None \<Rightarrow> JNull)"
  define a where "a = (case Option.bind (json_get v ''MachineAuthorized'') as_bool of Some b \<Rightarrow> b | None \<Rightarrow> False)"
  define u where "u = (case Option.bind (json_get v ''AuthURL'') as_str of Some s \<Rightarrow> if s \<noteq> [] then Some s else None | None \<Rightarrow> None)"
  have "json_get v k = Some w \<longleftrightarrow> (\<exists>v'. sj_parse S r = Some v' \<and> json_get v' k = Some w)" for k w
    by (auto simp: v_def json_get_def split: option.splits)
  moreover have "a \<longleftrightarrow> json_get v ''MachineAuthorized'' = Some (JBool True)"
    by (auto simp: a_def as_bool_def split: option.splits json.splits bind_splits)
  moreover have "u = Some url \<longleftrightarrow> url \<noteq> [] \<and> json_get v ''AuthURL'' = Some (JStr url)" for url
    by (auto simp: u_def as_str_def split: option.splits json.splits bind_splits)
  moreover have "register C S cfg h keys auth_key =
      Some (h', Inr \<lparr>rr_status = st, rr_machine_authorized = a, rr_auth_url = u, rr_raw = r\<rparr>)"
    using assms by (simp add: register_def Let_def a_def u_def v_def)
  ultimately show ?thesis by auto
qed

subsection \<open>The map\<close>

definition address_char :: "char \<Rightarrow> bool" where
  "address_char c \<longleftrightarrow> is_digit c \<or> c = CHR ''.''"

text \<open>
  The text at which the scan of a payload looks: what follows the quote before the first \<open>100.\<close>, up to
  a slash, a quote or the end. It is taken for an address when it has only digits and dots and is
  at least seven characters long.
\<close>

definition address_text :: "bytes \<Rightarrow> string \<Rightarrow> bool" where
  "address_text raw s \<longleftrightarrow> (\<exists>pre tail. raw = pre @ 0x22 # ascii s @ tail \<and>
     find_sub raw (0x22 # ascii ''100.'') = Some (length pre) \<and> CHR ''/'' \<notin> set s \<and> CHR 0x22 \<notin> set s \<and>
     (tail = [] \<or> hd tail \<in> {0x2F, 0x22}))"

definition plausible :: "string \<Rightarrow> bool" where
  "plausible s \<longleftrightarrow> list_all address_char s \<and> 7 \<le> length s"

definition shows_none :: "bytes \<Rightarrow> bool" where
  "shows_none raw \<longleftrightarrow> find_sub raw (0x22 # ascii ''100.'') = None \<or> (\<exists>s. address_text raw s \<and> \<not> plausible s)"

lemma scan_text:
  assumes "address_text raw s"
  shows "scan_tailscale_ip raw = (if plausible s then Some s else None)"
proof -
  obtain pre tail where raw: "raw = pre @ 0x22 # ascii s @ tail" "find_sub raw (0x22 # ascii ''100.'') = Some (length pre)"
      "CHR ''/'' \<notin> set s" "CHR 0x22 \<notin> set s" "tail = [] \<or> hd tail \<in> {0x2F, 0x22}"
    using assms by (auto simp: address_text_def)
  have u: "unat (of_char c :: u8) = of_char c" for c
  proof -
    have "unat (of_char c :: u8) = unat (of_nat (of_char c :: nat) :: u8)" by (simp only: of_nat_of_char)
    then show ?thesis using nat_of_char_less_256 [of c] by (simp only: unat_of_nat) simp
  qed
  have inj: "c = d" if "(of_char c :: u8) = of_char d" for c d using arg_cong [OF that, of unat] unfolding u by simp
  have n: "of_char (CHR ''/'') = (0x2F :: u8)" "of_char (CHR 0x22) = (0x22 :: u8)" by simp_all
  have "b \<noteq> 0x2F \<and> b \<noteq> 0x22" if "b \<in> set (ascii s)" for b
    using that raw(3,4) inj n unfolding ascii_def by (metis (no_types, lifting) imageE list.set_map)
  then have "takeWhile (\<lambda>b. b \<noteq> 0x2F \<and> b \<noteq> 0x22) (ascii s @ tail) = ascii s"
    using raw(5) by (cases tail) (auto simp: takeWhile_append)
  moreover have "map (\<lambda>b. char_of (unat b)) (ascii s) = s" using u by (simp add: ascii_def comp_def)
  ultimately show ?thesis using raw(1,2)
    by (simp add: scan_tailscale_ip_def address_char_def [abs_def] plausible_def)
qed

lemma scan_none: "shows_none raw \<Longrightarrow> scan_tailscale_ip raw = None"
  by (auto simp: shows_none_def scan_text) (simp add: scan_tailscale_ip_def)

lemma scan_finds:
  assumes "find_sub raw (0x22 # ascii ''100.'') = Some (length pre)" and "raw = pre @ 0x22 # ascii s @ tail"
    and "list_all address_char s" and "7 \<le> length s" and "tail = [] \<or> hd tail \<in> {0x2F, 0x22}"
  shows "scan_tailscale_ip raw = Some s"
proof -
  have "\<not> address_char (CHR ''/'')" "\<not> address_char (CHR 0x22)" by (simp_all add: address_char_def is_digit_def)
  then have "CHR ''/'' \<notin> set s" "CHR 0x22 \<notin> set s" using assms(3) unfolding list_all_iff by metis+
  then have "address_text raw s" using assms(1,2,5) unfolding address_text_def by blast
  then show ?thesis using assms(3,4) by (simp add: scan_text plausible_def)
qed

lemma show_ipv4_address: "list_all address_char (show_ipv4 ip)" "7 \<le> length (show_ipv4 ip)"
proof -
  have "list_all address_char (show_nat n)" for n
    using show_nat_digits by (auto simp: list_all_iff address_char_def)
  then show "list_all address_char (show_ipv4 ip)" by (simp add: show_ipv4_def to_be_bytes_32 address_char_def)
  have "4 \<le> length (show_nat a) + (length (show_nat b) + (length (show_nat c) + length (show_nat d)))" for a b c d
    by (cases "show_nat a"; cases "show_nat b"; cases "show_nat c"; cases "show_nat d") auto
  then show "7 \<le> length (show_ipv4 ip)" by (simp add: show_ipv4_def to_be_bytes_32)
qed

text \<open>A frame that \<open>read_data\<close> passes over.\<close>

definition passed_over :: "u32 \<Rightarrow> h2_frame \<Rightarrow> bool" where
  "passed_over sid fr \<longleftrightarrow> fr_typ fr \<noteq> FT_GOAWAY \<and>
     (fr_typ fr = FT_HEADERS \<longrightarrow> fr_flags fr AND FL_END_STREAM = 0) \<and>
     (fr_typ fr = FT_DATA \<and> fr_stream_id fr = sid \<longrightarrow> fr_payload fr = [] \<and> fr_flags fr AND FL_END_STREAM = 0)"

lemma data_step_passed:
  assumes "wg_crypto_ok C" and "tc_write_ok (h2_conn h)" and "passed_over sid fr"
  shows "\<exists>h'. data_step C sid fr h = (h', Inr None) \<and> same_input h' h"
  using assms ack_settings_says [OF assms(1,2), of "fr_flags fr"]
  by (auto simp: data_step_def passed_over_def frame_types)

lemma data_step_chunk:
  assumes "wg_crypto_ok C" and "tc_write_ok (h2_conn h)" and "fr_typ fr = FT_DATA" "fr_stream_id fr = sid" "fr_payload fr \<noteq> []"
  shows "\<exists>h'. data_step C sid fr h = (h', Inr (Some (fr_payload fr))) \<and> same_input h' h"
  using assms window_update_says [OF assms(1,2), of sid "of_nat (length (fr_payload fr))"] by (auto simp: data_step_def)

lemma read_data_chunk:
  assumes ok: "wg_crypto_ok C" and fr: "frame_ok fr" "fr_typ fr = FT_DATA" "fr_stream_id fr = sid" "fr_payload fr \<noteq> []"
  shows "tc_write_ok (h2_conn h) \<Longrightarrow> h2_plain C h = concat (map enc_h2_frame (pre @ [fr])) @ rest \<Longrightarrow>
    list_all (\<lambda>f. frame_ok f \<and> passed_over sid f) pre \<Longrightarrow>
    \<exists>h'. read_data C sid h = (h', Inr (fr_payload fr)) \<and> tc_write_ok (h2_conn h') \<and> h2_plain C h' = rest"
proof (induction pre arbitrary: h)
  case Nil
  obtain h1 where r: "h2_read_frame C h = (h1, Inr fr)" "tc_write_ok (h2_conn h1)" "h2_plain C h1 = rest"
    using h2_frame_next [of h C fr rest] Nil fr(1) by auto
  obtain h2 where "data_step C sid fr h1 = (h2, Inr (Some (fr_payload fr)))" "same_input h2 h1"
    using data_step_chunk [OF ok r(2) fr(2-4)] by blast
  with r show ?case using same_input_plain [of h2 h1 C] by (subst read_data.simps) (auto simp: same_input_def)
next
  case (Cons f pre)
  obtain h1 where r: "h2_read_frame C h = (h1, Inr f)" "tc_write_ok (h2_conn h1)"
      "h2_plain C h1 = concat (map enc_h2_frame (pre @ [fr])) @ rest"
    using h2_frame_next [of h C f "concat (map enc_h2_frame (pre @ [fr])) @ rest"] Cons.prems by auto
  obtain h2 where 2: "data_step C sid f h1 = (h2, Inr None)" "same_input h2 h1"
    using data_step_passed [OF ok r(2)] Cons.prems(3) by auto
  have "tc_write_ok (h2_conn h2)" using 2(2) r(2) by (simp add: same_input_def)
  from Cons.IH [OF this] Cons.prems(3) r 2 same_input_plain [OF 2(2), of C] show ?case
    by (subst read_data.simps) simp
qed

text \<open>A chunk of the map stream: a DATA frame of the stream after frames that are passed over.\<close>

definition data_chunk :: "h2_frame list \<times> h2_frame \<Rightarrow> bool" where
  "data_chunk c \<longleftrightarrow> list_all (\<lambda>f. frame_ok f \<and> passed_over 1 f) (fst c) \<and>
     frame_ok (snd c) \<and> fr_typ (snd c) = FT_DATA \<and> fr_stream_id (snd c) = 1 \<and> fr_payload (snd c) \<noteq> []"

definition enc_chunk :: "h2_frame list \<times> h2_frame \<Rightarrow> bytes" where
  "enc_chunk c = concat (map enc_h2_frame (fst c @ [snd c]))"

lemma read_chunk:
  assumes "wg_crypto_ok C" and "data_chunk c" and "tc_write_ok (h2_conn h)" and "h2_plain C h = enc_chunk c @ rest"
  shows "\<exists>h'. read_data C 1 h = (h', Inr (fr_payload (snd c))) \<and> tc_write_ok (h2_conn h') \<and> h2_plain C h' = rest"
  using assms read_data_chunk [of C "snd c" 1 h "fst c" rest] by (simp add: data_chunk_def enc_chunk_def)

lemma scan_chunks_skip:
  assumes "wg_crypto_ok C"
  shows "tc_write_ok (h2_conn h) \<Longrightarrow> h2_plain C h = concat (map enc_chunk cs) @ rest \<Longrightarrow>
    list_all (\<lambda>c. data_chunk c \<and> shows_none (fr_payload (snd c))) cs \<Longrightarrow>
    \<exists>h'. scan_chunks C 1 (length cs + n) None h = scan_chunks C 1 n None h' \<and> tc_write_ok (h2_conn h') \<and> h2_plain C h' = rest"
proof (induction cs arbitrary: h)
  case (Cons c cs)
  obtain h1 where "read_data C 1 h = (h1, Inr (fr_payload (snd c)))" "tc_write_ok (h2_conn h1)"
      "h2_plain C h1 = concat (map enc_chunk cs) @ rest"
    using read_chunk [OF assms, of c h] Cons.prems by auto
  with Cons.IH [of h1] Cons.prems(3) show ?case by (simp add: scan_none)
qed auto

text \<open>The two one-shot map requests return what the server answers.\<close>

lemma fetch_map_ok:
  assumes "wg_crypto_ok C" and "keys_ok keys" and "tc_write_ok (h2_conn h)" and "is_response (h2_next_stream h) frs"
    and "h2_plain C h = concat (map enc_h2_frame frs) @ rest" and "resp = strip_wire_prefix (response_body (h2_next_stream h) frs)"
  shows "\<exists>h'. fetch_map C S cfg h keys =
    Some (h', Inr \<lparr>mp_status = response_status (h2_next_stream h) 0 frs, mp_ip = scan_tailscale_ip resp, mp_body_len = length resp\<rparr>)"
proof -
  obtain m where "build_map_json S cfg keys False False False [] = Some (sj_to_string S (JObj m))"
    using build_map_json_ok [OF assms(2)] by blast
  then show ?thesis
    using post_json_says [OF assms(1,3,5,4), of "''/machine/map''" "sj_to_string S (JObj m)"] assms(6)
    by (auto simp: fetch_map_def)
qed

lemma update_endpoints_ok:
  assumes "wg_crypto_ok C" and "keys_ok keys" and "is_response 1 frs"
    and "control_stream C N mp cp ks st (concat (map enc_h2_frame frs) @ rest) (stream_data reads)"
  shows "update_endpoints C N S cfg (Some (reads, None)) mp cp keys endpoints = Some (Inr (response_status 1 0 frs))"
proof -
  obtain h where h: "connect C N cfg (Some (reads, None)) mp cp = Some (Inr h)"
      "h2_plain C h = concat (map enc_h2_frame frs) @ rest" "tc_write_ok (h2_conn h)" "h2_next_stream h = 1"
    using connect_ok [OF assms(1,4)] by blast
  obtain m where "build_map_json S cfg keys False True False endpoints = Some (sj_to_string S (JObj m))"
    using build_map_json_ok [OF assms(2)] by blast
  then show ?thesis
    using post_json_says [OF assms(1) h(3,2), of "''/machine/map''" "sj_to_string S (JObj m)"] assms(3) h(1,4)
    by (auto simp: update_endpoints_def)
qed

text \<open>
  A response body that decodes to a peer list and a packet filter and that names our address in
  the first quoted string that starts with \<open>100.\<close>.
\<close>

definition map_answer :: "serde \<Rightarrow> bytes \<Rightarrow> ipv4addr \<Rightarrow> peer_t list \<Rightarrow> filter_rule list \<Rightarrow> bool" where
  "map_answer S resp our ps rules \<longleftrightarrow>
    (\<exists>mr f pre tail. sj_map_resp S resp = Some mr \<and> mr_peers mr = Some ps \<and>
       sj_filter_resp S resp = Some f \<and> fr_packet_filter f = Some rules \<and>
       resp = pre @ 0x22 # ascii (show_ipv4 our) @ tail \<and> tail \<noteq> [] \<and> hd tail \<in> {0x2F, 0x22} \<and>
       find_sub resp (0x22 # ascii ''100.'') = Some (length pre))"

lemma parse_peers_total: "\<exists>out. filter_map_p parse_peer ps = Some out"
  using parse_peer_total filter_map_p_total [of parse_peer "\<lambda>p. the (parse_peer p)" ps] by fastforce

lemma rule_list_decides:
  assumes "16 \<le> length p" and "drop_bit 4 (p ! 0) = 4"
  shows "src_allowed (Some (rule_loop our [] rules)) p =
    Some (\<exists>rule \<in> set rules. rule_permits our (from_be_bytes (sub p 12 16)) rule)"
  using assms rule_loop_match [of our "[]" rules] by (simp add: src_allowed_eq) (simp add: cidr_match_def)

lemma fetch_peers_ok:
  assumes "wg_crypto_ok C" and "keys_ok keys" and "is_response 1 frs"
    and "control_stream C N mp cp ks st (concat (map enc_h2_frame frs) @ rest) (stream_data reads)"
    and "map_answer S (strip_wire_prefix (response_body 1 frs)) our ps rules"
  shows "\<exists>peers. fetch_peers C N S cfg (Some (reads, None)) mp cp keys endpoints =
      Some (Inr (Some (show_ipv4 our), peers, Some (rule_loop our [] rules))) \<and> filter_map_p parse_peer ps = Some peers"
proof -
  define resp where "resp = strip_wire_prefix (response_body 1 frs)"
  obtain mr f pre tail where a: "sj_map_resp S resp = Some mr" "mr_peers mr = Some ps" "sj_filter_resp S resp = Some f"
      "fr_packet_filter f = Some rules" "resp = pre @ 0x22 # ascii (show_ipv4 our) @ tail" "hd tail \<in> {0x2F, 0x22}"
      "find_sub resp (0x22 # ascii ''100.'') = Some (length pre)"
    using assms(5) unfolding map_answer_def resp_def by blast
  obtain h where h: "connect C N cfg (Some (reads, None)) mp cp = Some (Inr h)"
      "h2_plain C h = concat (map enc_h2_frame frs) @ rest" "tc_write_ok (h2_conn h)" "h2_next_stream h = 1"
    using connect_ok [OF assms(1,4)] by blast
  obtain m where m: "build_map_json S cfg keys False False False endpoints = Some (sj_to_string S (JObj m))"
    using build_map_json_ok [OF assms(2)] by blast
  obtain h' where p: "post_json C ''/machine/map'' (sj_to_string S (JObj m)) h = (h', Inr (response_status 1 0 frs, resp))"
    using post_json_says [OF assms(1) h(3,2)] assms(3) h(4) unfolding resp_def by metis
  have ip: "scan_tailscale_ip resp = Some (show_ipv4 our)"
    using scan_finds [OF a(7,5) show_ipv4_address] a(6) by blast
  have al: "parse_allowed_srcs (sj_filter_resp S) resp (show_ipv4 our) = Some (rule_loop our [] rules)"
    using a(3,4) by (simp add: parse_allowed_srcs_def parse_cidr_host)
  obtain out where out: "filter_map_p parse_peer ps = Some out" using parse_peers_total by blast
  have "parse_peers (sj_map_resp S) resp = Some (Inr out)"
    using out a(1,2) by (simp add: parse_peers_def unwrap_or_default_def)
  then show ?thesis using h(1) m p ip al out by (simp add: fetch_peers_def)
qed

subsection \<open>The control key\<close>

lemma http_get_loop_bound:
  "list_all (\<lambda>r. case r of ReadOk d \<Rightarrow> length d \<le> 512 | ReadErr \<Rightarrow> True) rs \<Longrightarrow> length out < 8192 \<Longrightarrow>
   length (http_get_loop rs out) < 8192 + 512"
  by (induction rs arbitrary: out) (auto simp: Let_def split: read_result.splits)

text \<open>Fetching the key never panics, and a key it returns has 32 bytes.\<close>

lemma fetch_control_key_total:
  "\<exists>r. fetch_control_key S cfg client = Some r \<and> (\<forall>k. r = Inr k \<longrightarrow> length k = 32)"
proof -
  have k: "\<exists>r. hex_decode_32 t = Some r \<and> (\<forall>k. r = Some k \<longrightarrow> length k = 32)" for t
    using hex_pairs_length [of "trim (ascii t)"] by (fastforce simp: hex_decode_32_eq)
  show ?thesis
  proof (cases "Option.bind (Option.bind (http_get client (''https://'' @ CONTROL_HOST cfg @ ''/key?v='' @ show_nat (unat (KEY_ENDPOINT_VER cfg)))) (sj_parse S))
      (\<lambda>v. Option.bind (json_get v ''publicKey'') as_str)")
    case None
    then show ?thesis unfolding fetch_control_key_def Let_def by (auto split: option.splits bind_splits)
  next
    case (Some pk)
    with k [of "case strip_prefix pk ''mkey:'' of Some h \<Rightarrow> h | None \<Rightarrow> pk"] show ?thesis
      unfolding fetch_control_key_def Let_def by (auto split: option.splits bind_splits)
  qed
qed

subsection \<open>A concrete server\<close>

definition toy_snow :: "unit snow_ops" where
  "toy_snow = \<lparr>sn_build = \<lambda>_ _ _. Some (), sn_write = \<lambda>_. Some ((), [7]), sn_read = \<lambda>_ _. Some (),
     sn_finished = \<lambda>_. True, sn_split = \<lambda>_. ([1], [2])\<rparr>"

definition toy_upgrade :: bytes where
  "toy_upgrade = ascii ''HTTP/1.1 101 Switching'' @ crlf2"

definition toy_server :: "bytes list \<Rightarrow> read_result list" where
  "toy_server ps = [ReadOk toy_upgrade, ReadOk (enc_frame (NOISE_RESPONSE, [8])),
     ReadOk (concat (snd (seal_all toy_crypto (noise_transport_new [2] [1]) ps)))]"

definition toy_settings :: h2_frame where
  "toy_settings = \<lparr>fr_typ = FT_SETTINGS, fr_flags = 0, fr_stream_id = 0, fr_payload = []\<rparr>"

lemma toy_upgrade_head: "upgrade_head toy_upgrade"
proof -
  have "trim (ascii ''HTTP/1.1 101 Switching'' @ [13]) = ascii ''HTTP/1.1 101 Switching''"
    by (simp add: trim_def strip.simps ws_prefix_def ws_suffix_def ascii_ws_def ws2_def ws3_def ascii_def)
  then show ?thesis by (simp add: upgrade_head_def toy_upgrade_def find_sub_def crlf2_def status_line_def ascii_def)
qed

lemma toy_server_stream:
  assumes "list_all (\<lambda>p. length p \<le> 65519) ps" and "concat ps = enc_h2_frame toy_settings @ rest"
  shows "control_stream toy_crypto toy_snow mp cp [1] [toy_settings] rest (stream_data (toy_server ps))"
proof -
  obtain t rs where s: "seal_all toy_crypto (noise_transport_new [2] [1]) ps = (t, rs)" by fastforce
  have p: "plain toy_crypto [2] 0 (concat rs) = concat ps"
    using plain_sealed [OF toy_crypto_ok s assms(1), of "[]"] by (simp add: noise_transport_new_def)
  have "stream_data (toy_server ps) = toy_upgrade @ enc_frame (NOISE_RESPONSE, [8]) @ concat rs"
    using p assms(2) s by (auto simp: toy_server_def toy_upgrade_def crlf2_def enc_frame_def)
  moreover have "handshake_runs toy_snow mp cp [8] [1] [2]" by (simp add: handshake_runs_def toy_snow_def)
  moreover have "starts_up None [toy_settings]"
    by (simp add: starts_up_def toy_settings_def frame_fits_def)
  ultimately show ?thesis
    unfolding control_stream_def using toy_upgrade_head p assms(2)
    by (intro exI [of _ toy_upgrade] exI [of _ "[8]"] exI [of _ "[2]"] exI [of _ "concat rs"] exI [of _ None]) (simp add: enc_early_def)
qed

definition toy_answer :: "bytes \<Rightarrow> h2_frame list" where
  "toy_answer body =
    [\<lparr>fr_typ = FT_HEADERS, fr_flags = FL_END_HEADERS, fr_stream_id = 1, fr_payload = [0x88]\<rparr>,
     \<lparr>fr_typ = FT_DATA, fr_flags = FL_END_STREAM, fr_stream_id = 1, fr_payload = body\<rparr>]"

lemma toy_answer_response:
  assumes "length body < 2 ^ 24"
  shows "is_response 1 (toy_answer body)" "response_status 1 0 (toy_answer body) = 200" "response_body 1 (toy_answer body) = body"
  using assms
  by (simp_all add: is_response_def toy_answer_def frame_ok_def ends_response_def goes_away_def is_headers_def is_data_def
      of_stream_def frame_types frame_flags response_status_def response_body_def map_filter_def decode_status.simps)

definition toy_config :: config where
  "toy_config = \<lparr>CONTROL_HOST = ''ctl'', KEY_ENDPOINT_VER = 130, CAPABILITY_VERSION = 90, ADVERTISE_TAGS = [], DEVICE_NAME = ''d'',
     HOSTNAME = ''d'', OS_NAME = ''o'', OS_VERSION = ''1'', GO_ARCH = ''x'', SUBNET_ROUTES = [], ADVERTISE_EXIT_NODE = False\<rparr>"

definition toy_keys :: node_keys where
  "toy_keys = (let k = \<lparr>kp_private = replicate 32 1, kp_public = replicate 32 2\<rparr> in \<lparr>nk_machine = k, nk_node = k, nk_disco = k\<rparr>)"

text \<open>A JSON library that knows one document.\<close>

definition toy_serde :: "bytes \<Rightarrow> serde" where
  "toy_serde doc = \<lparr>sj_to_string = \<lambda>_. [0x7B, 0x7D],
     sj_parse = \<lambda>b. if b = doc then Some (JObj (fmap_of_list [(''MachineAuthorized'', JBool True)])) else None,
     sj_map_resp = \<lambda>b. if b = doc then Some \<lparr>mr_peers = Some []\<rparr> else None,
     sj_filter_resp = \<lambda>b. if b = doc then Some sample_filter else None\<rparr>"

subsection \<open>Properties\<close>

text \<open>
  C10. A node registers. Against a server that follows the protocol (upgrade, handshake message, an
  early payload or none, settings, then a response on the first stream), \<open>connect_and_register\<close>
  returns the server's verdict: the status and body of the response, whether the machine is
  authorized and the login URL if the answer has one. What the node has written since the handshake
  decrypts at the server to the HTTP/2 preface and settings, the acknowledgement and one
  request to \<open>/machine/register\<close> whose body is the JSON text of an object with the node's own
  machine, node and disco keys and the pre-auth key exactly when one is configured, followed by
  the flow control of the response.
\<close>

theorem node_registers:
  assumes "wg_crypto_ok C" and "keys_ok keys" and "is_response 1 frs"
    and "control_stream C N mp cp ks st (concat (map enc_h2_frame frs) @ rest) (stream_data reads)"
  shows "\<exists>sess sess' res m h0 out body.
    connect C N cfg (Some (reads, None)) mp cp = Some (Inr sess) \<and>
    register C S cfg sess keys auth_key = Some (sess', Inr res) \<and>
    connect_and_register C N S cfg (Some (reads, None)) mp cp keys auth_key = Some (Inr res) \<and>
    rr_status res = response_status 1 0 frs \<and> rr_raw res = strip_wire_prefix (response_body 1 frs) \<and>
    (rr_machine_authorized res \<longleftrightarrow> (\<exists>v. sj_parse S (rr_raw res) = Some v \<and> json_get v ''MachineAuthorized'' = Some (JBool True))) \<and>
    (rr_auth_url res = Some url \<longleftrightarrow>
       url \<noteq> [] \<and> (\<exists>v. sj_parse S (rr_raw res) = Some v \<and> json_get v ''AuthURL'' = Some (JStr url))) \<and>
    fresh_transport ks h0 \<and> tc_sent (h2_conn sess') = tc_sent (h2_conn h0) @ out \<and>
    plain C ks 0 out = client_hello @ settings_ack st @
      concat (map enc_h2_frame (request_frames (CONTROL_HOST cfg) 1 ''/machine/register'' body)) @
      concat (map (client_says 1) frs) \<and>
    body = sj_to_string S (JObj m) \<and> names_key m ''NodeKey'' (kp_public (nk_node keys)) \<and>
    names_key m ''MachineKey'' (kp_public (nk_machine keys)) \<and> names_key m ''DiscoKey'' (kp_public (nk_disco keys)) \<and>
    fmlookup m ''Auth'' = (if auth_key = [] then None else Some (JObj (fmap_of_list [(''AuthKey'', JStr auth_key)])))"
proof -
  obtain h0 h where h: "connect C N cfg (Some (reads, None)) mp cp = Some (Inr h)"
      "h2_plain C h = concat (map enc_h2_frame frs) @ rest" "tc_write_ok (h2_conn h)" "h2_next_stream h = 1"
      "h2_authority h = CONTROL_HOST cfg" "fresh_transport ks h0" "says C h0 h (client_hello @ settings_ack st)"
    using connect_ok [OF assms(1,4)] by blast
  obtain m where m: "build_register_json S cfg keys auth_key = Some (sj_to_string S (JObj m))"
      "names_key m ''NodeKey'' (kp_public (nk_node keys))" "names_key m ''MachineKey'' (kp_public (nk_machine keys))"
      "names_key m ''DiscoKey'' (kp_public (nk_disco keys))"
      "fmlookup m ''Auth'' = (if auth_key = [] then None else Some (JObj (fmap_of_list [(''AuthKey'', JStr auth_key)])))"
    using build_register_json_ok [OF assms(2)] by blast
  let ?b = "sj_to_string S (JObj m)" and ?r = "strip_wire_prefix (response_body 1 frs)"
  obtain h' where p: "post_json C ''/machine/register'' ?b h = (h', Inr (response_status 1 0 frs, ?r))"
      "says C h h' (post_frames (CONTROL_HOST cfg) 1 ''/machine/register'' ?b @ concat (map (client_says 1) frs))"
    using post_json_says [OF assms(1) h(3,2)] assms(3) h(4,5) by metis
  obtain out where o: "tc_sent (h2_conn h') = tc_sent (h2_conn h0) @ out"
      "plain C ks 0 out = (client_hello @ settings_ack st) @ post_frames (CONTROL_HOST cfg) 1 ''/machine/register'' ?b @ concat (map (client_says 1) frs)"
    using says_out [OF says_trans [OF h(7) p(2)]] h(6) unfolding fresh_transport_def by metis
  obtain res where r: "register C S cfg h keys auth_key = Some (h', Inr res)" "rr_status res = response_status 1 0 frs" "rr_raw res = ?r"
      "rr_machine_authorized res \<longleftrightarrow> (\<exists>v. sj_parse S ?r = Some v \<and> json_get v ''MachineAuthorized'' = Some (JBool True))"
      "rr_auth_url res = Some url \<longleftrightarrow> url \<noteq> [] \<and> (\<exists>v. sj_parse S ?r = Some v \<and> json_get v ''AuthURL'' = Some (JStr url))"
    using register_ok [OF m(1) p(1), of url] by (elim exE conjE)
  have "connect_and_register C N S cfg (Some (reads, None)) mp cp keys auth_key = Some (Inr res)"
    using h(1) r(1) by (simp add: connect_and_register_def)
  note facts = this h(1,6) m(2-5) o r
  show ?thesis
    by (rule exI [of _ h], rule exI [of _ h'], rule exI [of _ res], rule exI [of _ m], rule exI [of _ h0], rule exI [of _ out],
        rule exI [of _ ?b]) (use facts in \<open>simp add: post_frames_enc\<close>)
qed

theorem node_registers_witness:
  "\<exists>res. connect_and_register toy_crypto toy_snow (toy_serde [0x7B, 0x7D]) toy_config
      (Some (toy_server [enc_h2_frame toy_settings @ concat (map enc_h2_frame (toy_answer [0x7B, 0x7D]))], None))
      [3] [4] toy_keys ''k'' = Some (Inr res) \<and> rr_status res = 200 \<and> rr_machine_authorized res"
proof -
  let ?ps = "[enc_h2_frame toy_settings @ concat (map enc_h2_frame (toy_answer [0x7B, 0x7D]))]"
  have l: "list_all (\<lambda>p. length p \<le> 65519) ?ps"
    by (simp add: toy_settings_def toy_answer_def enc_h2_frame_def frame_def Let_def)
  have s: "control_stream toy_crypto toy_snow [3] [4] [1] [toy_settings]
      (concat (map enc_h2_frame (toy_answer [0x7B, 0x7D])) @ []) (stream_data (toy_server ?ps))"
    by (rule toy_server_stream [OF l]) simp
  have a: "length [0x7B, 0x7D :: u8] < 2 ^ 24" by simp
  have k: "keys_ok toy_keys" by (simp add: keys_ok_def toy_keys_def Let_def)
  have b: "strip_wire_prefix [0x7B, 0x7D] = [0x7B, 0x7D]" by (simp add: strip_wire_prefix_def)
  obtain res where r: "connect_and_register toy_crypto toy_snow (toy_serde [0x7B, 0x7D]) toy_config (Some (toy_server ?ps, None)) [3] [4] toy_keys ''k'' = Some (Inr res)"
      "rr_status res = 200" "rr_raw res = [0x7B, 0x7D]"
      "rr_machine_authorized res \<longleftrightarrow> (\<exists>v. sj_parse (toy_serde [0x7B, 0x7D]) (rr_raw res) = Some v \<and> json_get v ''MachineAuthorized'' = Some (JBool True))"
    using node_registers [OF toy_crypto_ok k toy_answer_response(1) [OF a] s, of toy_config "toy_serde [0x7B, 0x7D]" "''k''" "[]"]
    unfolding toy_answer_response(2,3) [OF a] b by (elim exE conjE)
  moreover have "rr_machine_authorized res" using r(3,4) by (simp add: toy_serde_def json_get_def)
  ultimately show ?thesis by blast
qed

text \<open>
  The node enforces the map it fetched. Against a server that follows the protocol and whose
  response body decodes to a peer list and a packet filter and names our address in the first
  quoted string that starts with \<open>100.\<close>, \<open>fetch_peers\<close> returns that address, the peers with usable
  keys and an access list under which an IPv4 packet passes exactly when some rule of the
  filter that covers our address permits its source.
\<close>

theorem netmap_enforced:
  assumes "wg_crypto_ok C" and "keys_ok keys" and "is_response 1 frs"
    and "control_stream C N mp cp ks st (concat (map enc_h2_frame frs) @ rest) (stream_data reads)"
    and "map_answer S (strip_wire_prefix (response_body 1 frs)) our ps rules"
    and "16 \<le> length p" and "drop_bit 4 (p ! 0) = 4"
  shows "\<exists>peers allowed. fetch_peers C N S cfg (Some (reads, None)) mp cp keys endpoints =
      Some (Inr (Some (show_ipv4 our), peers, allowed)) \<and>
    length peers = length (filter (\<lambda>p. usable_key (pt_key p) \<noteq> None \<and> usable_key (pt_disco_key p) \<noteq> None) ps) \<and>
    src_allowed allowed p = Some (\<exists>rule \<in> set rules. rule_permits our (from_be_bytes (sub p 12 16)) rule)"
proof -
  obtain peers where "fetch_peers C N S cfg (Some (reads, None)) mp cp keys endpoints =
      Some (Inr (Some (show_ipv4 our), peers, Some (rule_loop our [] rules)))" "filter_map_p parse_peer ps = Some peers"
    using fetch_peers_ok [OF assms(1-5)] by blast
  then show ?thesis using parse_peers_list rule_list_decides [OF assms(6,7)] by blast
qed

definition toy_map :: bytes where
  "toy_map = [0x7B] @ 0x22 # ascii (show_ipv4 0x64400002) @ [0x2F]"

lemma toy_map_text: "toy_map = ascii ''{\"100.64.0.2/''"
  unfolding toy_map_def by code_simp

lemma toy_map_answer: "map_answer (toy_serde toy_map) toy_map 0x64400002 [] [sample_rule]"
proof -
  have "find_sub toy_map (0x22 # ascii ''100.'') = Some (length [0x7B :: u8])" by (simp add: toy_map_text find_sub_def ascii_def)
  then show ?thesis
    unfolding map_answer_def
    by (intro exI [of _ "\<lparr>mr_peers = Some []\<rparr>"] exI [of _ sample_filter] exI [of _ "[0x7B]"] exI [of _ "[0x2F]"])
      (simp add: toy_serde_def sample_filter_def, simp add: toy_map_def)
qed

theorem netmap_enforced_witness:
  "\<exists>peers allowed. fetch_peers toy_crypto toy_snow (toy_serde toy_map) toy_config
      (Some (toy_server [enc_h2_frame toy_settings @ concat (map enc_h2_frame (toy_answer toy_map))], None)) [3] [4] toy_keys [] =
      Some (Inr (Some (show_ipv4 0x64400002), peers, allowed)) \<and>
    src_allowed allowed sample_inner =
      Some (\<exists>rule \<in> set [sample_rule]. rule_permits 0x64400002 (from_be_bytes (sub sample_inner 12 16)) rule)"
proof -
  let ?ps = "[enc_h2_frame toy_settings @ concat (map enc_h2_frame (toy_answer toy_map))]"
  have l: "list_all (\<lambda>p. length p \<le> 65519) ?ps"
    by (simp add: toy_settings_def toy_answer_def enc_h2_frame_def frame_def Let_def toy_map_text)
  have s: "control_stream toy_crypto toy_snow [3] [4] [1] [toy_settings]
      (concat (map enc_h2_frame (toy_answer toy_map)) @ []) (stream_data (toy_server ?ps))"
    by (rule toy_server_stream [OF l]) simp
  have a: "length toy_map < 2 ^ 24" by (simp add: toy_map_text)
  have k: "keys_ok toy_keys" by (simp add: keys_ok_def toy_keys_def Let_def)
  have b: "strip_wire_prefix (response_body 1 (toy_answer toy_map)) = toy_map"
    unfolding toy_answer_response(3) [OF a] by (simp add: strip_wire_prefix_def toy_map_text ascii_def)
  have p: "16 \<le> length sample_inner" "drop_bit 4 (sample_inner ! 0) = 4" by (simp_all add: sample_inner_def)
  have m: "map_answer (toy_serde toy_map) (strip_wire_prefix (response_body 1 (toy_answer toy_map))) 0x64400002 [] [sample_rule]"
    unfolding b by (rule toy_map_answer)
  show ?thesis
    using netmap_enforced [OF toy_crypto_ok k toy_answer_response(1) [OF a] s m p, of toy_config "[]"] by blast
qed

text \<open>
  C37. What the streaming map reports as the node's address. The payloads of the stream's DATA
  frames are looked at one by one, at most four of them. The text of a payload is what stands
  between the quote before its first \<open>100.\<close> and the next slash or quote, or the end of the
  payload; it is taken for an address when it consists of digits and dots and has at least seven
  characters. \<open>stream_map\<close> returns the text of the first of the four payloads that has such a text,
  leaving the rest of the stream unread, and no address when none of the four has one. So an
  address cut by a frame boundary is reported as its first part when that has seven characters
  or more, and passed over when it is shorter.
\<close>

theorem map_address_scanned:
  assumes "wg_crypto_ok C" and "keys_ok keys"
    and "control_stream C N mp cp ks st (concat (map enc_chunk (cs @ [c])) @ rest) (stream_data reads)"
    and "list_all (\<lambda>c. data_chunk c \<and> shows_none (fr_payload (snd c))) cs" and "data_chunk c" and "length cs < 4"
  shows "(\<forall>s. address_text (fr_payload (snd c)) s \<and> plausible s \<longrightarrow>
      (\<exists>h. stream_map C N S cfg (Some (reads, None)) mp cp keys endpoints = Some (Inr (h, 1, Some s)) \<and> h2_plain C h = rest)) \<and>
    (shows_none (fr_payload (snd c)) \<and> length cs = 3 \<longrightarrow>
      (\<exists>h. stream_map C N S cfg (Some (reads, None)) mp cp keys endpoints = Some (Inr (h, 1, None)) \<and> h2_plain C h = rest))"
proof -
  obtain h where h: "connect C N cfg (Some (reads, None)) mp cp = Some (Inr h)"
      "h2_plain C h = concat (map enc_chunk (cs @ [c])) @ rest" "tc_write_ok (h2_conn h)" "h2_next_stream h = 1"
    using connect_ok [OF assms(1,3)] by blast
  obtain m where m: "build_map_json S cfg keys True True True endpoints = Some (sj_to_string S (JObj m))"
    using build_map_json_ok [OF assms(2)] by blast
  obtain h1 where 1: "post_stream C ''/machine/map'' (sj_to_string S (JObj m)) h = (h1, Inr 1)"
      "h2_plain C h1 = h2_plain C h" "tc_write_ok (h2_conn h1)"
    using post_stream_says [OF assms(1) h(3)] h(4) by metis
  obtain n where n: "4 = length cs + Suc n" using assms(6) by (metis add_Suc_right less_iff_Suc_add)
  have "h2_plain C h1 = concat (map enc_chunk cs) @ enc_chunk c @ rest" using 1(2) h(2) by simp
  then obtain h2 where 2: "scan_chunks C 1 4 None h1 = scan_chunks C 1 (Suc n) None h2" "tc_write_ok (h2_conn h2)"
      "h2_plain C h2 = enc_chunk c @ rest"
    using scan_chunks_skip [OF assms(1) 1(3) _ assms(4), of "enc_chunk c @ rest" "Suc n"] unfolding n by blast
  obtain h3 where 3: "read_data C 1 h2 = (h3, Inr (fr_payload (snd c)))" "h2_plain C h3 = rest"
    using read_chunk [OF assms(1,5) 2(2,3)] by blast
  have "stream_map C N S cfg (Some (reads, None)) mp cp keys endpoints = Some (Inr (h3, 1, Some s))"
    if "address_text (fr_payload (snd c)) s" "plausible s" for s
    using that h(1) m 1(1) 2(1) 3(1) by (simp add: stream_map_def scan_text)
  moreover have "stream_map C N S cfg (Some (reads, None)) mp cp keys endpoints = Some (Inr (h3, 1, None))"
    if "shows_none (fr_payload (snd c))" "length cs = 3"
    using that n h(1) m 1(1) 2(1) 3(1) by (simp add: stream_map_def scan_none)
  ultimately show ?thesis using 3(2) by blast
qed

theorem map_address_scanned_witness:
  "\<exists>h. stream_map toy_crypto toy_snow (toy_serde []) toy_config
      (Some (toy_server [enc_h2_frame toy_settings @ concat (map enc_h2_frame
        [\<lparr>fr_typ = FT_DATA, fr_flags = 0, fr_stream_id = 1, fr_payload = ascii ''{\"100.64''\<rparr>,
         \<lparr>fr_typ = FT_DATA, fr_flags = 0, fr_stream_id = 1, fr_payload = ascii ''.0.2\",\"100.64.1''\<rparr>,
         \<lparr>fr_typ = FT_DATA, fr_flags = 0, fr_stream_id = 1, fr_payload = ascii ''02.3/32\"}''\<rparr>])], None)) [3] [4] toy_keys [] =
    Some (Inr (h, 1, Some ''100.64.1''))"
proof -
  let ?d1 = "\<lparr>fr_typ = FT_DATA, fr_flags = 0, fr_stream_id = 1, fr_payload = ascii ''{\"100.64''\<rparr>"
  let ?d2 = "\<lparr>fr_typ = FT_DATA, fr_flags = 0, fr_stream_id = 1, fr_payload = ascii ''.0.2\",\"100.64.1''\<rparr>"
  let ?e = "\<lparr>fr_typ = FT_DATA, fr_flags = 0, fr_stream_id = 1, fr_payload = ascii ''02.3/32\"}''\<rparr>"
  let ?ps = "[enc_h2_frame toy_settings @ concat (map enc_h2_frame [?d1, ?d2, ?e])]"
  have l: "list_all (\<lambda>p. length p \<le> 65519) ?ps"
    by (simp add: toy_settings_def enc_h2_frame_def frame_def Let_def)
  have s: "control_stream toy_crypto toy_snow [3] [4] [1] [toy_settings]
      (concat (map enc_chunk ([([], ?d1)] @ [([], ?d2)])) @ enc_h2_frame ?e) (stream_data (toy_server ?ps))"
    by (rule toy_server_stream [OF l]) (simp add: enc_chunk_def)
  have k: "keys_ok toy_keys" by (simp add: keys_ok_def toy_keys_def Let_def)
  have c: "data_chunk ([], ?d1)" "data_chunk ([], ?d2)" by (simp_all add: data_chunk_def frame_ok_def ascii_def)
  have "address_text (ascii ''{\"100.64'') ''100.64''"
    unfolding address_text_def by (intro exI [of _ "[0x7B]"] exI [of _ "[]"]) (simp add: find_sub_def ascii_def)
  then have n: "shows_none (fr_payload ?d1)" by (auto simp: shows_none_def plausible_def)
  have a: "address_text (fr_payload ?d2) ''100.64.1''"
    unfolding address_text_def by (intro exI [of _ "ascii ''.0.2\",''"] exI [of _ "[]"]) (simp add: find_sub_def ascii_def)
  have p: "plausible ''100.64.1''" by (simp add: plausible_def address_char_def is_digit_def)
  show ?thesis
    using map_address_scanned [OF toy_crypto_ok k s _ c(2), of "toy_serde []" toy_config "[]"] c(1) n a p by auto
qed

end
