(* ===== verification/Startup_Properties.thy ===== *)
theory Startup_Properties
  imports Startup Control_Session
begin

text \<open>
  What the start-up of \<open>Startup\<close> achieves: polling ends with the registration once a connection is
  answered with the authorization, the LAN targets are the peers of our own subnet, and the
  packet filter is in force exactly when the one map request succeeded.
\<close>

subsection \<open>Prefixes of addresses\<close>

lemma starts_with_sep:
  "c \<notin> set xs \<Longrightarrow> c \<notin> set ys \<Longrightarrow> starts_with (ys @ c # t) (xs @ c # u) \<longleftrightarrow> xs = ys \<and> starts_with t u"
proof (induction xs arbitrary: ys)
  case Nil
  then show ?case by (cases ys) (auto simp: starts_with_def)
next
  case (Cons x xs)
  then show ?case by (cases ys) (auto simp: starts_with_def)
qed

lemma show_nat_inject [simp]: "show_nat a = show_nat b \<longleftrightarrow> a = b"
  by (metis option.inject parse_show_nat)

lemma dot_not_in_show_nat [simp]: "CHR ''.'' \<notin> set (show_nat n)"
  by (rule not_in_show_nat) (simp add: is_digit_def)

definition same_net :: "ipv4addr \<Rightarrow> ipv4addr \<times> u16 \<Rightarrow> bool" where
  "same_net our e \<longleftrightarrow> take 3 (to_be_bytes (fst e)) = take 3 (to_be_bytes our)"

definition net_prefix :: "ipv4addr \<Rightarrow> string" where
  "net_prefix ip =
    (let b = to_be_bytes ip in show_nat (unat (b ! 0)) @ ''.'' @ show_nat (unat (b ! 1)) @ ''.'' @ show_nat (unat (b ! 2)) @ ''.'')"

lemma starts_with_net: "starts_with (show_socket_addr_v4 (fst e) (snd e)) (net_prefix our) \<longleftrightarrow> same_net our e"
proof -
  obtain a b c d where o: "to_be_bytes our = [a, b, c, d]" by (simp add: to_be_bytes_32)
  obtain a' b' c' d' where o': "to_be_bytes (fst e) = [a', b', c', d']" by (simp add: to_be_bytes_32)
  have "starts_with (show_nat (unat a') @ CHR ''.'' # show_nat (unat b') @ CHR ''.'' # show_nat (unat c') @ CHR ''.'' # t)
      (show_nat (unat a) @ CHR ''.'' # show_nat (unat b) @ CHR ''.'' # show_nat (unat c) @ CHR ''.'' # [])
    \<longleftrightarrow> a = a' \<and> b = b' \<and> c = c'" for t
    by (simp add: starts_with_sep) (auto simp: starts_with_def word_unat_eq_iff)
  then show ?thesis by (auto simp: same_net_def net_prefix_def show_socket_addr_v4_def show_ipv4_def o o' Let_def)
qed

lemma rsplit_show_ipv4: "\<exists>net d. rsplit_once CHR ''.'' (show_ipv4 our) = Some (net, d) \<and> net @ ''.'' = net_prefix our"
proof -
  obtain a b c d where o: "to_be_bytes our = [a, b, c, d]" by (simp add: to_be_bytes_32)
  let ?n = "show_nat (unat a) @ ''.'' @ show_nat (unat b) @ ''.'' @ show_nat (unat c)"
  have "show_ipv4 our = ?n @ CHR ''.'' # show_nat (unat d)" by (simp add: show_ipv4_def o)
  then have "rsplit_once CHR ''.'' (show_ipv4 our) = Some (?n, show_nat (unat d))"
    using split_once_sep [of "CHR ''.''" "rev (show_nat (unat d))" "rev ?n"] by (simp add: rsplit_once_def)
  then show ?thesis by (simp add: net_prefix_def o)
qed

subsection \<open>Attempts to register\<close>

lemma connect_total: "\<exists>r. connect C N cfg tcp mp cp = Some r"
proof (cases "noise_start N mp cp")
  case (Inr x)
  obtain hs init where x: "x = (hs, init)" by fastforce
  obtain e where "base64_std init = Some e" using b64_loop_decodes [of init] by (auto simp: base64_std_def)
  then show ?thesis using Inr x by (simp add: connect_def control_handshake_def)
qed (simp add: connect_def control_handshake_def)

lemma connect_and_register_total:
  assumes "keys_ok keys"
  shows "\<exists>r. connect_and_register C N S cfg tcp mp cp keys auth_key = Some r"
proof -
  obtain r where "connect C N cfg tcp mp cp = Some r" using connect_total by blast
  moreover obtain b where "build_register_json S cfg keys auth_key = Some b" using build_register_json_ok [OF assms] by blast
  ultimately show ?thesis
    by (auto simp: connect_and_register_def register_def Let_def split: sum.splits prod.splits)
qed

lemma connect_and_register_ok:
  assumes "wg_crypto_ok C" and "keys_ok keys" and "is_response 1 frs"
    and "control_stream C N mp cp ks st (concat (map enc_h2_frame frs) @ rest) (stream_data reads)"
    and "sj_parse S (strip_wire_prefix (response_body 1 frs)) = Some v"
    and "json_get v ''MachineAuthorized'' = Some (JBool True)"
  shows "\<exists>res. connect_and_register C N S cfg (Some (reads, None)) mp cp keys auth_key = Some (Inr res) \<and> rr_machine_authorized res"
proof -
  obtain h where h: "connect C N cfg (Some (reads, None)) mp cp = Some (Inr h)"
      "h2_plain C h = concat (map enc_h2_frame frs) @ rest" "tc_write_ok (h2_conn h)" "h2_next_stream h = 1"
    using connect_ok [OF assms(1,4)] by blast
  obtain b where b: "build_register_json S cfg keys auth_key = Some b" using build_register_json_ok [OF assms(2)] by blast
  obtain h' where "post_json C ''/machine/register'' b h =
      (h', Inr (response_status 1 0 frs, strip_wire_prefix (response_body 1 frs)))"
    using post_json_says [OF assms(1) h(3,2)] assms(3) h(4) by metis
  from register_ok [OF b this, of "[]"] assms(5,6) h(1) show ?thesis by (auto simp: connect_and_register_def)
qed

lemma register_loop_ends:
  assumes total: "\<And>t. \<exists>r. connect_and_register C N S cfg t mp cp keys [] = Some r"
    and t: "connect_and_register C N S cfg t mp cp keys [] = Some (Inr res)" "rr_machine_authorized res"
  shows "t \<in> set tcps \<Longrightarrow> \<exists>urls. register_loop C N S cfg mp cp keys [] shown tcps = Some (Some ''registered OK'', urls) \<and>
    length urls \<le> (if shown then 0 else 1)"
proof (induction tcps arbitrary: shown)
  case (Cons u us)
  obtain r where r: "connect_and_register C N S cfg u mp cp keys [] = Some r" using total by blast
  show ?case
  proof (cases "\<exists>x. r = Inr x \<and> rr_machine_authorized x")
    case True
    then show ?thesis using r by auto
  next
    case False
    then have "t \<in> set us" using Cons.prems t r by auto
    from Cons.IH [OF this, of shown] Cons.IH [OF this, of True] False r show ?thesis
      by (cases r) (auto split: option.splits)
  qed
qed simp

subsection \<open>Keys of the start-up\<close>

lemma loaded_keys_ok:
  assumes "\<forall>p. length (X p) = 32" and "load_or_generate V X nvs r1 r2 r3 = (nvs', Inr keys)"
  shows "keys_ok keys"
proof -
  have "length (kp_public k) = 32" if "load_or_make V X n s r = (n', Inr k)" for n s r n' k
    using that assms(1) by (auto simp: load_or_make_def from_private_def Let_def split: option.splits if_splits)
  then show ?thesis
    using assms(2) by (auto simp: load_or_generate_def keys_ok_def split: prod.splits sum.splits bool.splits)
qed

lemma hex_decode_hex_lower:
  assumes "length k = 32"
  shows "\<exists>s. hex_lower k = Some s \<and> hex_decode_32 s = Some (Some k)"
proof -
  obtain s where s: "hex_lower k = Some s" "length s = 64" "hex_pairs (ascii s) = Some k"
      "\<forall>c \<in> set s. c \<noteq> CHR '':'' \<and> plain_ascii (of_char c)"
    using hex_lower_pairs [of k] assms by auto
  have "trim (ascii s) = ascii s" using s(4) by (intro trim_id) (auto simp: ascii_def)
  with s(1-3) show ?thesis by (simp add: hex_decode_32_eq)
qed

lemma fetch_control_key_ok:
  assumes "length cp = 32" and "hex_lower cp = Some hx"
    and "client (''https://'' @ CONTROL_HOST cfg @ ''/key?v='' @ show_nat (unat (KEY_ENDPOINT_VER cfg))) = Some reads"
    and "sj_parse S (http_get_loop reads []) = Some v" and "json_get v ''publicKey'' = Some (JStr (''mkey:'' @ hx))"
  shows "fetch_control_key S cfg client = Some (Inr cp)"
proof -
  have "hex_decode_32 hx = Some (Some cp)" using hex_decode_hex_lower [OF assms(1)] assms(2) by auto
  then show ?thesis
    using assms(3-5) by (simp add: fetch_control_key_def http_get_def as_str_def strip_prefix_def)
qed

lemma fetch_peers_total:
  assumes "keys_ok keys"
  shows "\<exists>r. fetch_peers C N S cfg tcp mp cp keys endpoints = Some r"
proof -
  obtain r where r: "connect C N cfg tcp mp cp = Some r" using connect_total by blast
  obtain b where b: "build_map_json S cfg keys False False False endpoints = Some b" using build_map_json_ok [OF assms] by blast
  have pp: "\<exists>l. parse_peers J raw = Some l" for J raw
  proof (cases "J raw")
    case (Some m)
    obtain out where "filter_map_p parse_peer (unwrap_or_default (mr_peers m)) = Some out" using parse_peers_total by blast
    then show ?thesis using Some by (simp add: parse_peers_def)
  qed (simp add: parse_peers_def)
  show ?thesis
  proof (cases r)
    case (Inr h)
    obtain h' q where q: "post_json C ''/machine/map'' b h = (h', q)" by fastforce
    show ?thesis
    proof (cases q)
      case q': (Inr x)
      obtain l where "parse_peers (sj_map_resp S) (snd x) = Some l" using pp by blast
      then show ?thesis using r b Inr q q' by (cases l) (auto simp: fetch_peers_def split_beta Let_def)
    qed (use r b Inr q in \<open>simp add: fetch_peers_def\<close>)
  qed (use r in \<open>simp add: fetch_peers_def\<close>)
qed

lemma register_loop_total:
  assumes "keys_ok keys"
  shows "\<exists>r. register_loop C N S cfg mp cp keys auth_key shown tcps = Some r"
proof (induction tcps arbitrary: shown)
  case (Cons t tcps)
  obtain r where "connect_and_register C N S cfg t mp cp keys auth_key = Some r" using connect_and_register_total [OF assms] by blast
  then show ?case using Cons [of shown] Cons [of True] by (cases r) (auto split: option.splits)
qed simp

subsection \<open>The public endpoint\<close>

text \<open>Lost and foreign datagrams cost an attempt; the first answer to the request counts.\<close>

lemma stun_attempts_ok:
  assumes "fst (net k)" and "snd (net k) = Some buf" and "is_stun buf = Some True" and "parse_response buf txid = Some (Inr a)"
  shows "list_all (\<lambda>i. fst (net i) \<and> (case snd (net i) of None \<Rightarrow> True | Some b \<Rightarrow> is_stun b = Some False)) pre \<Longrightarrow>
    stun_attempts net txid e (pre @ k # post) = Some (Inr a)"
proof (induction pre arbitrary: e)
  case Nil
  then show ?case using assms by (simp add: split_beta)
next
  case (Cons i pre)
  then show ?case by (auto simp: split_beta split: option.splits)
qed

subsection \<open>The threads\<close>

text \<open>The relay thread survives every connection, and the map thread shows an address for good once it has one.\<close>

lemma derp_run_returns:
  assumes "identity_ok cf"
  shows "\<exists>ts. derp_run cf up cs = Some ts"
proof (induction cs)
  case (Cons c cs)
  obtain rns nb tls where c: "c = (rns, nb, tls)" by (cases c) auto
  show ?case
  proof (cases tls)
    case (Some d)
    obtain d1 r where k: "derp_connect (cf_box cf) DERP_HOST (id_node_priv (cf_id cf)) (id_node_pub (cf_id cf)) nb d = (d1, r)" by fastforce
    obtain st' d' ts where "derp_serve cf up rns 0 derp_state_new d1 = Some (st', d', ts)"
      using derp_serve_returns [OF assms, of derp_state_new up rns 0 d1] by (auto simp: derp_state_new_def)
    then show ?thesis using Cons c Some k by (cases r) auto
  qed (use Cons c in simp)
qed simp

definition shown_address :: "shown \<Rightarrow> string option" where
  "shown_address s = (case s of Online a \<Rightarrow> a | Offline a \<Rightarrow> a)"

lemma map_loop_keeps_address:
  assumes "keys_ok keys"
  shows "\<exists>out. map_loop C N S cfg mp cp keys endpoints ts tcps = Some out \<and> length out = length tcps \<and>
    (ts \<noteq> None \<longrightarrow> list_all (\<lambda>s. shown_address s \<noteq> None) out)"
proof (induction tcps arbitrary: ts)
  case (Cons t tcps)
  obtain r where "connect C N cfg t mp cp = Some r" using connect_total by blast
  moreover obtain b where "build_map_json S cfg keys True True True endpoints = Some b" using build_map_json_ok [OF assms] by blast
  ultimately obtain q where q: "stream_map C N S cfg t mp cp keys endpoints = Some q"
    by (cases r) (auto simp: stream_map_def)
  show ?case
  proof (cases q)
    case (Inl e)
    then show ?thesis using q Cons [of ts] by (auto simp: shown_address_def)
  next
    case (Inr x)
    obtain h sid ip where x: "x = (h, sid, ip)" by (cases x) auto
    then show ?thesis using q Inr Cons [of "if ip \<noteq> None then ip else ts"] by (auto simp: shown_address_def Let_def)
  qed
qed simp

subsection \<open>Properties\<close>

text \<open>
  Registration ends. With interactive login, whatever happens on the connections before (they
  may be refused, break off, be answered with anything), the polling loop of the start-up never
  panics, and as soon as one connection is served by a server that follows the protocol and
  answers that the machine is authorized it ends with \<open>registered OK\<close>, having shown at most one
  login URL.
\<close>

theorem registration_ends:
  assumes "wg_crypto_ok C" and "keys_ok keys" and "is_response 1 frs"
    and "control_stream C N mp cp ks st (concat (map enc_h2_frame frs) @ rest) (stream_data reads)"
    and "sj_parse S (strip_wire_prefix (response_body 1 frs)) = Some v"
    and "json_get v ''MachineAuthorized'' = Some (JBool True)" and "Some (reads, None) \<in> set tcps"
  shows "\<exists>urls. register_loop C N S cfg mp cp keys [] False tcps = Some (Some ''registered OK'', urls) \<and> length urls \<le> 1"
proof -
  obtain res where "connect_and_register C N S cfg (Some (reads, None)) mp cp keys [] = Some (Inr res)" "rr_machine_authorized res"
    using connect_and_register_ok [OF assms(1-6)] by blast
  from register_loop_ends [OF connect_and_register_total [OF assms(2)] this assms(7), of False] show ?thesis by simp
qed

theorem registration_ends_witness:
  "\<exists>urls. register_loop toy_crypto toy_snow (toy_serde [0x7B, 0x7D]) toy_config [3] [4] toy_keys [] False
     [None, Some ([], None),
      Some (toy_server [enc_h2_frame toy_settings @ concat (map enc_h2_frame (toy_answer [0x7B, 0x7D]))], None)] =
     Some (Some ''registered OK'', urls)"
proof -
  let ?ps = "[enc_h2_frame toy_settings @ concat (map enc_h2_frame (toy_answer [0x7B, 0x7D]))]"
  have l: "list_all (\<lambda>p. length p \<le> 65519) ?ps"
    by (simp add: toy_settings_def toy_answer_def enc_h2_frame_def frame_def Let_def)
  have s: "control_stream toy_crypto toy_snow [3] [4] [1] [toy_settings]
      (concat (map enc_h2_frame (toy_answer [0x7B, 0x7D])) @ []) (stream_data (toy_server ?ps))"
    by (rule toy_server_stream [OF l]) simp
  have a: "length [0x7B, 0x7D :: u8] < 2 ^ 24" by simp
  have k: "keys_ok toy_keys" by (simp add: keys_ok_def toy_keys_def Let_def)
  have v: "sj_parse (toy_serde [0x7B, 0x7D]) (strip_wire_prefix (response_body 1 (toy_answer [0x7B, 0x7D]))) =
      Some (JObj (fmap_of_list [(''MachineAuthorized'', JBool True)]))"
    unfolding toy_answer_response(3) [OF a] by (simp add: toy_serde_def strip_wire_prefix_def)
  show ?thesis
    using registration_ends [OF toy_crypto_ok k toy_answer_response(1) [OF a] s v, of
        "[None, Some ([], None), Some (toy_server ?ps, None)]" toy_config]
    by (auto simp: json_get_def simp del: register_loop.simps)
qed

text \<open>
  C38. The LAN targets are the peers of our subnet. For peers whose endpoints are IPv4 addresses with
  ports, as the map writes them, \<open>build_lan_targets\<close> keeps exactly the peers that have an
  endpoint whose address agrees with ours in the first 24 bits, in order, each with its keys and
  exactly those endpoints, also in order.
\<close>

theorem lan_targets_same_subnet:
  "build_lan_targets (map (\<lambda>(p, eps). p\<lparr>pi_endpoints := map (\<lambda>(ip, port). show_socket_addr_v4 ip port) eps\<rparr>) pes) (show_ipv4 our) =
   map (\<lambda>(p, eps). \<lparr>tg_name = pi_hostname p, tg_disco_pub = pi_disco_key p, tg_node_pub = pi_node_key p,
       tg_endpoints = map (\<lambda>(ip, port). V4 ip port) (filter (same_net our) eps), tg_spray = False\<rparr>)
     (filter (\<lambda>(p, eps). list_ex (same_net our) eps) pes)"
proof -
  obtain net d where r: "rsplit_once CHR ''.'' (show_ipv4 our) = Some (net, d)" "net @ ''.'' = net_prefix our"
    using rsplit_show_ipv4 by blast
  have eps: "List.map_filter parse_socket_addr (filter (\<lambda>e. starts_with e (net_prefix our)) (map (\<lambda>(ip, port). show_socket_addr_v4 ip port) es)) =
      map (\<lambda>(ip, port). V4 ip port) (filter (same_net our) es)" for es
    by (induction es) (auto simp: parse_show_socket_addr_v4 starts_with_net [of "(_, _)", simplified])
  have ne: "filter P es = [] \<longleftrightarrow> \<not> list_ex P es" for P :: "ipv4addr \<times> u16 \<Rightarrow> bool" and es
    by (auto simp: list_ex_iff filter_empty_conv)
  show ?thesis
    unfolding build_lan_targets_def r(1) option.case prod.case Let_def r(2)
    by (induction pes) (auto simp: eps ne)
qed

text \<open>
  What \<open>boot\<close> may end with: threads are started only after a registration that ended with
  \<open>registered OK\<close>, with the stored keys as their identity, and both threads with the same one.
\<close>

definition boot_outcome ::
  "wg_crypto \<Rightarrow> 's snow_ops \<Rightarrow> serde \<Rightarrow> 'n nvs_ops \<Rightarrow> (bytes \<Rightarrow> bytes) \<Rightarrow> boot_features \<Rightarrow> app_config \<Rightarrow> boot_env \<Rightarrow>
     'n \<Rightarrow> bytes \<Rightarrow> bytes \<Rightarrow> bytes \<Rightarrow> 'n \<Rightarrow> boot_result \<Rightarrow> bool" where
  "boot_outcome C N S V X F acfg env nvs r1 r2 r3 nvs' res \<longleftrightarrow>
    (case res of
       Started s \<Rightarrow> \<exists>keys cp urls. load_or_generate V X nvs r1 r2 r3 = (nvs', Inr keys) \<and>
         register_loop C N S (config.truncate acfg) (kp_private (nk_machine keys)) cp keys
           (if bf_authkey F then AUTH_KEY_DEFAULT acfg else []) False (be_register env) = Some (Some ''registered OK'', urls) \<and>
         (\<exists>allowed. pred_option (\<lambda>d. da_identity d = node_identity keys allowed) (sd_dataplane s) \<and>
            pred_option (\<lambda>r. fst r = node_identity keys allowed) (sd_relay s))
     | KeysFailed e \<Rightarrow> load_or_generate V X nvs r1 r2 r3 = (nvs', Inl e)
     | NotRegistered status \<Rightarrow> status \<noteq> Some ''registered OK'')"

lemma boot_returns:
  assumes "\<forall>p. length (X p) = 32"
  shows "\<exists>nvs' res. boot C N S V X F acfg env nvs r1 r2 r3 = Some (nvs', res) \<and>
    boot_outcome C N S V X F acfg env nvs r1 r2 r3 nvs' res"
proof -
  define ak where "ak = (if bf_authkey F then AUTH_KEY_DEFAULT acfg else [])"
  obtain nvs' l where l: "load_or_generate V X nvs r1 r2 r3 = (nvs', l)" by fastforce
  show ?thesis
  proof (cases l)
    case (Inl e)
    then show ?thesis using l by (simp add: boot_def boot_outcome_def Let_def)
  next
    case (Inr keys)
    have k: "keys_ok keys" using loaded_keys_ok [OF assms, of V nvs r1 r2 r3 nvs' keys] l Inr by blast
    let ?cfg = "config.truncate acfg"
    obtain f where f: "fetch_control_key S ?cfg (be_client env) = Some f" "\<And>k. f = Inr k \<Longrightarrow> length k = 32"
      using fetch_control_key_total by blast
    show ?thesis
    proof (cases f)
      case f': (Inl e)
      then show ?thesis using l Inr f(1) by (simp add: boot_def boot_outcome_def Let_def)
    next
      case f': (Inr cp)
      obtain hx where hx: "hex_lower cp = Some hx" "hex_decode_32 hx = Some (Some cp)"
        using hex_decode_hex_lower f(2) [OF f'] by blast
      let ?eps = "if bf_direct F then our_endpoints (be_lan_ip env) (be_magicsock env) else []"
      obtain status urls where r: "register_loop C N S ?cfg (kp_private (nk_machine keys)) cp keys
          ak False (be_register env) = Some (status, urls)"
        using register_loop_total [OF k] by fast
      obtain m where m: "fetch_peers C N S ?cfg (be_map env) (kp_private (nk_machine keys)) cp keys ?eps = Some m"
        using fetch_peers_total [OF k] by blast
      have "boot C N S V X F acfg env nvs r1 r2 r3 = Some (nvs',
          if status = Some ''registered OK'' then Started (start_threads F acfg env keys ?eps m) else NotRegistered status)"
        unfolding boot_def Let_def using l Inr f(1) f' hx r m by (simp flip: ak_def)
      moreover have "\<exists>allowed. pred_option (\<lambda>d. da_identity d = node_identity keys allowed) (sd_dataplane (start_threads F acfg env keys ?eps m)) \<and>
          pred_option (\<lambda>r. fst r = node_identity keys allowed) (sd_relay (start_threads F acfg env keys ?eps m))"
        by (auto simp: start_threads_def Let_def split_beta)
      ultimately show ?thesis unfolding boot_outcome_def ak_def [symmetric] using l Inr r by auto
    qed
  qed
qed

text \<open>
  Servers that follow their protocols: the key server answers with the control key \<open>cp\<close>; some
  connection of the registration is served by a control server that holds it and authorizes the
  machine; the map connection is served with a map that names our address, peers and rules.
\<close>

definition answers_key :: "serde \<Rightarrow> app_config \<Rightarrow> boot_env \<Rightarrow> bytes \<Rightarrow> bool" where
  "answers_key S acfg env cp \<longleftrightarrow> length cp = 32 \<and> (\<exists>hx reads v. hex_lower cp = Some hx \<and>
     be_client env (''https://'' @ CONTROL_HOST acfg @ ''/key?v='' @ show_nat (unat (KEY_ENDPOINT_VER acfg))) = Some reads \<and>
     sj_parse S (http_get_loop reads []) = Some v \<and> json_get v ''publicKey'' = Some (JStr (''mkey:'' @ hx)))"

definition authorizes :: "wg_crypto \<Rightarrow> 's snow_ops \<Rightarrow> serde \<Rightarrow> bytes \<Rightarrow> bytes \<Rightarrow> read_result list \<Rightarrow> bool" where
  "authorizes C N S mpriv cp reads \<longleftrightarrow> (\<exists>frs ks st rest w. is_response 1 frs \<and>
     control_stream C N mpriv cp ks st (concat (map enc_h2_frame frs) @ rest) (stream_data reads) \<and>
     sj_parse S (strip_wire_prefix (response_body 1 frs)) = Some w \<and>
     json_get w ''MachineAuthorized'' = Some (JBool True))"

definition sends_map ::
  "wg_crypto \<Rightarrow> 's snow_ops \<Rightarrow> serde \<Rightarrow> bytes \<Rightarrow> bytes \<Rightarrow> read_result list \<Rightarrow> ipv4addr \<Rightarrow> peer_t list \<Rightarrow> filter_rule list \<Rightarrow> bool" where
  "sends_map C N S mpriv cp reads our ps rules \<longleftrightarrow> (\<exists>frs ks st rest. is_response 1 frs \<and>
     control_stream C N mpriv cp ks st (concat (map enc_h2_frame frs) @ rest) (stream_data reads) \<and>
     map_answer S (strip_wire_prefix (response_body 1 frs)) our ps rules)"

text \<open>Threads are started with what the one map request of the start-up returned.\<close>

lemma boot_started:
  assumes "boot C N S V X F acfg env nvs r1 r2 r3 = Some (nvs', Started s)"
  shows "\<exists>keys cp m. load_or_generate V X nvs r1 r2 r3 = (nvs', Inr keys) \<and>
    fetch_control_key S (config.truncate acfg) (be_client env) = Some (Inr cp) \<and>
    fetch_peers C N S (config.truncate acfg) (be_map env) (kp_private (nk_machine keys)) cp keys (sd_endpoints s) = Some m \<and>
    s = start_threads F acfg env keys (sd_endpoints s) m"
proof -
  let ?cfg = "config.truncate acfg"
  let ?eps = "if bf_direct F then our_endpoints (be_lan_ip env) (be_magicsock env) else []"
  obtain n l where l: "load_or_generate V X nvs r1 r2 r3 = (n, l)" by fastforce
  obtain keys where k: "l = Inr keys" using assms l by (cases l) (simp_all add: boot_def Let_def)
  obtain f where f: "fetch_control_key S ?cfg (be_client env) = Some f" "\<And>k. f = Inr k \<Longrightarrow> length k = 32"
    using fetch_control_key_total by blast
  obtain cp where cp: "f = Inr cp" using assms l k f(1) by (cases f) (simp_all add: boot_def Let_def)
  obtain hx where hx: "hex_lower cp = Some hx" "hex_decode_32 hx = Some (Some cp)"
    using hex_decode_hex_lower f(2) [OF cp] by blast
  obtain m where m: "fetch_peers C N S ?cfg (be_map env) (kp_private (nk_machine keys)) cp keys ?eps = Some m"
      "s = start_threads F acfg env keys ?eps m" and n: "n = nvs'"
    using assms unfolding boot_def Let_def l k prod.case sum.case f(1) cp
    by (auto simp: hx bind_eq_Some_conv split: if_split_asm)
  have e: "sd_endpoints s = ?eps" unfolding m(2) start_threads_def by (simp add: Let_def split_beta)
  show ?thesis unfolding e
    by (intro exI [of _ keys] exI [of _ cp] exI [of _ m] conjI) (simp add: l k n, simp add: f(1) cp, rule m(1), rule m(2))
qed

text \<open>A node that the control server authorizes starts its threads, whatever the map request returns.\<close>

lemma boot_starts:
  assumes "wg_crypto_ok C" and "\<forall>p. length (X p) = 32" and "load_or_generate V X nvs r1 r2 r3 = (nvs', Inr keys)"
    and "\<not> bf_authkey F" and "answers_key S acfg env cp"
    and "Some (reads, None) \<in> set (be_register env)" and "authorizes C N S (kp_private (nk_machine keys)) cp reads"
    and "fetch_peers C N S (config.truncate acfg) (be_map env) (kp_private (nk_machine keys)) cp keys
      (if bf_direct F then our_endpoints (be_lan_ip env) (be_magicsock env) else []) = Some m"
  shows "boot C N S V X F acfg env nvs r1 r2 r3 = Some (nvs', Started (start_threads F acfg env keys
    (if bf_direct F then our_endpoints (be_lan_ip env) (be_magicsock env) else []) m))"
proof -
  let ?cfg = "config.truncate acfg" and ?mp = "kp_private (nk_machine keys)"
  have k: "keys_ok keys" using loaded_keys_ok [OF assms(2,3)] .
  obtain hx kreads v where key: "length cp = 32" "hex_lower cp = Some hx"
      "be_client env (''https://'' @ CONTROL_HOST acfg @ ''/key?v='' @ show_nat (unat (KEY_ENDPOINT_VER acfg))) = Some kreads"
      "sj_parse S (http_get_loop kreads []) = Some v" "json_get v ''publicKey'' = Some (JStr (''mkey:'' @ hx))"
    using assms(5) by (auto simp: answers_key_def)
  have ck: "fetch_control_key S ?cfg (be_client env) = Some (Inr cp)"
    using fetch_control_key_ok [OF key(1,2) _ key(4,5)] key(3) by (simp add: config.defs)
  have hx: "hex_decode_32 hx = Some (Some cp)" using hex_decode_hex_lower [OF key(1)] key(2) by auto
  obtain res where "connect_and_register C N S ?cfg (Some (reads, None)) ?mp cp keys [] = Some (Inr res)" "rr_machine_authorized res"
    using assms(7) connect_and_register_ok [OF assms(1) k] unfolding authorizes_def by blast
  then obtain urls where r: "register_loop C N S ?cfg ?mp cp keys [] False (be_register env) = Some (Some ''registered OK'', urls)"
    using register_loop_ends [OF connect_and_register_total [OF k] _ _ assms(6), of C N S ?cfg ?mp cp res False] by auto
  show ?thesis unfolding boot_def Let_def using assms(3,4,8) key(2) ck hx r by simp
qed

text \<open>
  The node boots: with interactive login and the packet filter on, the data plane is started
  with the stored keys, with the LAN targets of exactly the peers of the map that have usable keys, and
  with a filter that lets an IPv4 packet pass exactly when a rule of the map permits it.
\<close>

lemma node_boots:
  assumes "wg_crypto_ok C" and "\<forall>p. length (X p) = 32" and "load_or_generate V X nvs r1 r2 r3 = (nvs', Inr keys)"
    and "bf_direct F" and "bf_packet_filter F" and "\<not> bf_authkey F" and "be_magicsock env = Some ms"
    and "answers_key S acfg env cp"
    and "Some (reads, None) \<in> set (be_register env)" and "authorizes C N S (kp_private (nk_machine keys)) cp reads"
    and "be_map env = Some (mreads, None)" and "sends_map C N S (kp_private (nk_machine keys)) cp mreads our ps rules"
  shows "\<exists>s d peers allowed. boot C N S V X F acfg env nvs r1 r2 r3 = Some (nvs', Started s) \<and> sd_dataplane s = Some d \<and>
    filter_map_p parse_peer ps = Some peers \<and> da_targets d = build_lan_targets peers (show_ipv4 (be_lan_ip env)) \<and>
    da_identity d = node_identity keys allowed \<and>
    (\<forall>p. 16 \<le> length p \<longrightarrow> drop_bit 4 (p ! 0) = 4 \<longrightarrow>
       src_allowed allowed p = Some (\<exists>rule \<in> set rules. rule_permits our (from_be_bytes (sub p 12 16)) rule))"
proof -
  let ?eps = "our_endpoints (be_lan_ip env) (be_magicsock env)"
  have k: "keys_ok keys" using loaded_keys_ok [OF assms(2,3)] .
  obtain peers where m: "fetch_peers C N S (config.truncate acfg) (be_map env) (kp_private (nk_machine keys)) cp keys ?eps =
      Some (Inr (Some (show_ipv4 our), peers, Some (rule_loop our [] rules)))" "filter_map_p parse_peer ps = Some peers"
    using assms(11,12) fetch_peers_ok [OF assms(1) k] unfolding sends_map_def by fastforce
  have "boot C N S V X F acfg env nvs r1 r2 r3 =
      Some (nvs', Started (start_threads F acfg env keys ?eps (Inr (Some (show_ipv4 our), peers, Some (rule_loop our [] rules)))))"
    using boot_starts [OF assms(1-3,6,8,9,10)] m(1) assms(4) by simp
  with m(2) assms(4,5,7) rule_list_decides show ?thesis
    by (simp add: start_threads_def learn_map_def Let_def) blast
qed

definition toy_boot_serde :: "string \<Rightarrow> serde" where
  "toy_boot_serde hx = (toy_serde toy_map)\<lparr>sj_parse := \<lambda>b.
     if b = [1] then Some (JObj (fmap_of_list [(''publicKey'', JStr (''mkey:'' @ hx))]))
     else if b = [0x7B, 0x7D] then Some (JObj (fmap_of_list [(''MachineAuthorized'', JBool True)])) else None\<rparr>"

definition toy_served :: "bytes \<Rightarrow> read_result list" where
  "toy_served body = toy_server [enc_h2_frame toy_settings @ concat (map enc_h2_frame (toy_answer body))]"

lemma toy_served_stream:
  assumes "length body \<le> 60000"
  shows "control_stream toy_crypto toy_snow mp cp [1] [toy_settings]
    (concat (map enc_h2_frame (toy_answer body)) @ []) (stream_data (toy_served body))"
proof -
  have "list_all (\<lambda>p. length p \<le> 65519) [enc_h2_frame toy_settings @ concat (map enc_h2_frame (toy_answer body))]"
    using assms by (simp add: toy_settings_def toy_answer_def enc_h2_frame_def frame_def Let_def)
  from toy_server_stream [OF this] show ?thesis by (simp add: toy_served_def)
qed

definition toy_boot_features :: boot_features where
  "toy_boot_features = \<lparr>bf_direct = True, bf_derp = True, bf_derp_upgrade = False, bf_authkey = False,
     bf_packet_filter = True, bf_outbound = False, bf_mdns_forward = False\<rparr>"

definition toy_app_config :: app_config where
  "toy_app_config = config.extend toy_config
     \<lparr>AUTH_KEY_DEFAULT = [], OUTBOUND_TARGET_IP = [], OUTBOUND_HTTP_PORT = 80, OUTBOUND_HTTP_PATH = ''/'', MDNS_PARTNER_IP = []\<rparr>"

definition toy_boot_env :: boot_env where
  "toy_boot_env = \<lparr>be_client = \<lambda>_. Some [ReadOk [1], ReadOk []], be_register = [None, Some (toy_served [0x7B, 0x7D], None)],
     be_map = Some (toy_served toy_map, None), be_lan_ip = 0xC0A80114, be_magicsock = Some (41641, Inl NoStunReply)\<rparr>"

lemma toy_servers:
  assumes "hex_lower (replicate 32 9) = Some hx"
  shows "answers_key (toy_boot_serde hx) toy_app_config toy_boot_env (replicate 32 9)"
    "authorizes toy_crypto toy_snow (toy_boot_serde hx) mp cp (toy_served [0x7B, 0x7D])"
    "sends_map toy_crypto toy_snow (toy_boot_serde hx) mp cp (toy_served toy_map) 0x64400002 [] [sample_rule]"
proof -
  let ?S = "toy_boot_serde hx"
  have a: "length [0x7B, 0x7D :: u8] < 2 ^ 24" "length toy_map < 2 ^ 24" by (simp_all add: toy_map_text)
  have l: "length [0x7B, 0x7D :: u8] \<le> 60000" "length toy_map \<le> 60000" by (simp_all add: toy_map_text)
  have b: "strip_wire_prefix (response_body 1 (toy_answer toy_map)) = toy_map"
    unfolding toy_answer_response(3) [OF a(2)] by (simp add: strip_wire_prefix_def toy_map_text ascii_def)
  have m: "map_answer ?S (strip_wire_prefix (response_body 1 (toy_answer toy_map))) 0x64400002 [] [sample_rule]"
    unfolding b using toy_map_answer by (simp add: map_answer_def toy_boot_serde_def)
  have w: "sj_parse ?S (strip_wire_prefix (response_body 1 (toy_answer [0x7B, 0x7D]))) =
      Some (JObj (fmap_of_list [(''MachineAuthorized'', JBool True)]))"
    unfolding toy_answer_response(3) [OF a(1)] by (simp add: toy_boot_serde_def strip_wire_prefix_def)
  show "answers_key ?S toy_app_config toy_boot_env (replicate 32 9)"
    using assms by (simp add: answers_key_def toy_boot_env_def toy_boot_serde_def json_get_def)
  show "authorizes toy_crypto toy_snow ?S mp cp (toy_served [0x7B, 0x7D])"
    unfolding authorizes_def using toy_answer_response(1) [OF a(1)] toy_served_stream [OF l(1)] w
    by (fastforce simp: json_get_def)
  show "sends_map toy_crypto toy_snow ?S mp cp (toy_served toy_map) 0x64400002 [] [sample_rule]"
    unfolding sends_map_def using toy_answer_response(1) [OF a(2)] toy_served_stream [OF l(2)] m by blast
qed

text \<open>
  C39. When the filter is in force. Whenever the start-up gets as far as its threads, the data
  plane (with direct paths on and a socket) and the relay (with its feature on) both run with the
  stored keys and with the outcome of the one map request of the start-up: if it succeeded and the
  feature is on, each of them lets a packet pass exactly when the access list of that map does; if
  it failed, or the feature is off, each of them lets every packet pass. In particular, when the TCP
  connection of that request is refused, the node runs open.
\<close>

theorem filter_follows_map:
  assumes "boot C N S V X F acfg env nvs r1 r2 r3 = Some (nvs', Started s)"
  shows "\<exists>keys cp m. load_or_generate V X nvs r1 r2 r3 = (nvs', Inr keys) \<and>
    fetch_control_key S (config.truncate acfg) (be_client env) = Some (Inr cp) \<and>
    fetch_peers C N S (config.truncate acfg) (be_map env) (kp_private (nk_machine keys)) cp keys (sd_endpoints s) = Some m \<and>
    (be_map env = None \<longrightarrow> (\<exists>e. m = Inl e)) \<and>
    (sd_dataplane s \<noteq> None \<longleftrightarrow> bf_direct F \<and> be_magicsock env \<noteq> None) \<and> (sd_relay s \<noteq> None \<longleftrightarrow> bf_derp F) \<and>
    (\<forall>i \<in> set_option (map_option da_identity (sd_dataplane s)) \<union> set_option (map_option fst (sd_relay s)).
       id_node_priv i = kp_private (nk_node keys) \<and> id_disco_priv i = kp_private (nk_disco keys) \<and>
       (\<forall>p. src_allowed (id_allowed_srcs i) p =
          (case m of Inl e \<Rightarrow> Some True
           | Inr (ip, peers, acl) \<Rightarrow> if bf_packet_filter F then src_allowed acl p else Some True)))"
proof -
  obtain keys cp m where m: "load_or_generate V X nvs r1 r2 r3 = (nvs', Inr keys)"
      "fetch_control_key S (config.truncate acfg) (be_client env) = Some (Inr cp)"
      "fetch_peers C N S (config.truncate acfg) (be_map env) (kp_private (nk_machine keys)) cp keys (sd_endpoints s) = Some m"
      "s = start_threads F acfg env keys (sd_endpoints s) m"
    using boot_started [OF assms] by blast
  obtain peers allowed our where learn: "learn_map (bf_packet_filter F) m = (peers, allowed, our)" by (cases "learn_map (bf_packet_filter F) m")
  define eps where "eps = sd_endpoints s"
  have s: "s = start_threads F acfg env keys eps m" unfolding eps_def by (rule m(4))
  have t: "map_option da_identity (sd_dataplane s) =
        (if bf_direct F \<and> be_magicsock env \<noteq> None then Some (node_identity keys allowed) else None)"
      "map_option fst (sd_relay s) = (if bf_derp F then Some (node_identity keys allowed) else None)"
    unfolding s by (simp_all add: start_threads_def learn Let_def)
  have on: "sd_dataplane s \<noteq> None \<longleftrightarrow> bf_direct F \<and> be_magicsock env \<noteq> None" "sd_relay s \<noteq> None \<longleftrightarrow> bf_derp F"
    using arg_cong [OF t(1), of "\<lambda>x. x = None"] arg_cong [OF t(2), of "\<lambda>x. x = None"] by (simp_all split: if_splits)
  have refused: "be_map env = None \<longrightarrow> (\<exists>e. m = Inl e)"
    using m(3)
    by (auto simp: fetch_peers_def connect_def control_handshake_def bind_eq_Some_conv split: sum.splits prod.splits)
  have acl: "src_allowed allowed p = (case m of Inl e \<Rightarrow> Some True
      | Inr (ip, peers, acl) \<Rightarrow> if bf_packet_filter F then src_allowed acl p else Some True)" for p
    using learn by (auto simp: learn_map_def src_allowed_eq split: sum.splits)
  have n: "id_node_priv (node_identity keys allowed) = kp_private (nk_node keys)"
      "id_disco_priv (node_identity keys allowed) = kp_private (nk_disco keys)"
      "id_allowed_srcs (node_identity keys allowed) = allowed" by (simp_all add: node_identity_def)
  have "i = node_identity keys allowed"
    if "i \<in> set_option (map_option da_identity (sd_dataplane s)) \<union> set_option (map_option fst (sd_relay s))" for i
    using that unfolding t by (simp split: if_splits)
  then have "\<forall>i \<in> set_option (map_option da_identity (sd_dataplane s)) \<union> set_option (map_option fst (sd_relay s)).
      id_node_priv i = kp_private (nk_node keys) \<and> id_disco_priv i = kp_private (nk_disco keys) \<and>
      (\<forall>p. src_allowed (id_allowed_srcs i) p = (case m of Inl e \<Rightarrow> Some True
         | Inr (ip, peers, acl) \<Rightarrow> if bf_packet_filter F then src_allowed acl p else Some True))"
    unfolding acl [symmetric] by (metis n)
  with m(1-3) refused on show ?thesis by (intro exI [of _ keys] exI [of _ cp] exI [of _ m] conjI)
qed

theorem filter_follows_map_witness:
  "\<exists>hx nvs' s. boot toy_crypto toy_snow (toy_boot_serde hx) toy_nvs (pubkey toy_crypto) toy_boot_features toy_app_config
      (toy_boot_env\<lparr>be_map := None\<rparr>) Map.empty (replicate 32 1) (replicate 32 2) (replicate 32 3) = Some (nvs', Started s) \<and>
    sd_relay s \<noteq> None \<and> pred_option (\<lambda>d. src_allowed (id_allowed_srcs (da_identity d)) sample_inner = Some True) (sd_dataplane s) \<and>
    pred_option (\<lambda>r. src_allowed (id_allowed_srcs (fst r)) sample_inner = Some True) (sd_relay s)"
proof -
  let ?env = "toy_boot_env\<lparr>be_map := None\<rparr>"
  obtain hx where hx: "hex_lower (replicate 32 9) = Some hx" using hex_decode_hex_lower [of "replicate 32 9"] by auto
  obtain n keys where g: "load_or_generate toy_nvs (pubkey toy_crypto) Map.empty (replicate 32 1) (replicate 32 2) (replicate 32 3) = (n, Inr keys)"
    by (simp add: load_or_generate_def load_or_make_def toy_nvs_def)
  have x: "\<forall>p. length (pubkey toy_crypto p) = 32" using wg_lengths [OF wg_crypto_ok_lengths [OF toy_crypto_ok]] by simp
  have e: "\<not> bf_authkey toy_boot_features" "Some (toy_served [0x7B, 0x7D], None) \<in> set (be_register ?env)"
    "answers_key (toy_boot_serde hx) toy_app_config ?env (replicate 32 9)"
    using toy_servers(1) [OF hx] by (simp_all add: toy_boot_features_def toy_boot_env_def answers_key_def)
  obtain m where "fetch_peers toy_crypto toy_snow (toy_boot_serde hx) (config.truncate toy_app_config) (be_map ?env)
      (kp_private (nk_machine keys)) (replicate 32 9) keys
      (if bf_direct toy_boot_features then our_endpoints (be_lan_ip ?env) (be_magicsock ?env) else []) = Some m"
    using fetch_peers_total [OF loaded_keys_ok [OF x g]] by blast
  from boot_starts [OF toy_crypto_ok x g e(1,3,2) toy_servers(2) [OF hx] this]
  obtain s where s: "boot toy_crypto toy_snow (toy_boot_serde hx) toy_nvs (pubkey toy_crypto) toy_boot_features toy_app_config
      ?env Map.empty (replicate 32 1) (replicate 32 2) (replicate 32 3) = Some (n, Started s)" by blast
  from filter_follows_map [OF s] s show ?thesis
    by (cases "sd_relay s"; cases "sd_dataplane s") (auto simp: toy_boot_features_def intro!: exI [of _ hx])
qed

end
