(* ===== verification/Firmware.thy ===== *)
theory Firmware
  imports Startup_Properties Dataplane_System
begin

text \<open>
  The firmware as a whole: \<open>main\<close> of \<open>src/main.rs\<close> followed by the threads it starts. The
  data plane gets what the start-up computed for it (\<open>dataplane_start\<close>, the part of
  \<open>dataplane::run\<close> before its loop), the endpoint thread reports our endpoints
  (\<open>endpoint_updates\<close>), the relay thread and the main loop are \<open>derp_run\<close> and \<open>map_loop\<close>.
  Shown: none of the threads ever panics, and the rules that the control server put into the map
  decide which packets the running data plane serves.
\<close>

subsection \<open>The threads\<close>

text \<open>
  A node of the given build: the cryptography, the features, the proxy's port and the LAN are the
  same for every identity the threads are started with.
\<close>

definition node_of :: "wg_crypto \<Rightarrow> box_crypto \<Rightarrow> features \<Rightarrow> u16 \<Rightarrow> (bytes \<Rightarrow> bytes) \<Rightarrow> identity \<Rightarrow> node_cfg" where
  "node_of C B ft port fetch ident =
    \<lparr>cf_wg = C, cf_box = B, cf_id = ident, cf_features = ft, cf_proxy_port = port, cf_fetch = fetch\<rparr>"

text \<open>
  The start of \<open>dataplane::run\<close>: \<open>addrs\<close> is the answer of the resolver for the STUN server, \<open>s\<close> the
  four random bytes of the outbound state, \<open>now\<close> the clock.
\<close>

definition dataplane_start ::
  "(identity \<Rightarrow> node_cfg) \<Rightarrow> socket_addr list option \<Rightarrow> bytes \<Rightarrow> nat \<Rightarrow> dataplane_args \<Rightarrow> loop_cfg \<times> dp_world" where
  "dataplane_start node addrs s now d =
    (let cf = node (da_identity d);
         stun_addr = Option.bind addrs (List.find addr_is_v4);
         (our_ip, partner_ip, partner_node, reinject_tx) =
           (case da_mdns d of
              Some m \<Rightarrow> (ml_our_ip m, ml_partner_ip m, ml_partner_node m, Some [])
            | None \<Rightarrow> (0, 0, replicate 32 0, None));
         outbound_cfg = (if ft_outbound (cf_features cf) then da_outbound d else None)
     in (\<lparr>lc_node = cf, lc_stun_addr = stun_addr, lc_our_ip = our_ip, lc_partner_ip = partner_ip,
          lc_partner_node = partner_node\<rparr>,
         dp_world_new (da_targets d) (dp_new outbound_cfg s reinject_tx partner_node) now))"

text \<open>The endpoint thread, started when there are endpoints, over the outcomes of its successive connections.\<close>

primrec endpoint_updates ::
  "wg_crypto \<Rightarrow> 's snow_ops \<Rightarrow> serde \<Rightarrow> config \<Rightarrow> bytes \<Rightarrow> bytes \<Rightarrow> node_keys \<Rightarrow> string list \<Rightarrow> tcp_result list \<Rightarrow>
     (ctl_error + u16) list panics" where
  "endpoint_updates C N S cfg mpriv cpub nk eps [] = Some []"
| "endpoint_updates C N S cfg mpriv cpub nk eps (tcp # tcps) = do {
     r \<leftarrow> update_endpoints C N S cfg tcp mpriv cpub nk eps;
     rest \<leftarrow> endpoint_updates C N S cfg mpriv cpub nk eps tcps;
     Some (r # rest) }"

subsection \<open>The identity of the threads\<close>

lemma loaded_keys_derived:
  assumes "load_or_generate V X nvs r1 r2 r3 = (nvs', Inr keys)" and "length r2 = 32" and "length r3 = 32"
  shows "kp_public (nk_node keys) = X (kp_private (nk_node keys))" "length (kp_private (nk_node keys)) = 32"
    "kp_public (nk_disco keys) = X (kp_private (nk_disco keys))" "length (kp_private (nk_disco keys)) = 32"
proof -
  have "kp_public k = X (kp_private k) \<and> length (kp_private k) = 32"
    if "load_or_make V X n name r = (n', Inr k)" and "length r = 32" for n name r n' k
    using that by (auto simp: load_or_make_def from_private_def Let_def split: option.splits if_splits)
  then show "kp_public (nk_node keys) = X (kp_private (nk_node keys))" "length (kp_private (nk_node keys)) = 32"
    "kp_public (nk_disco keys) = X (kp_private (nk_disco keys))" "length (kp_private (nk_disco keys)) = 32"
    using assms by (auto simp: load_or_generate_def split: prod.splits sum.splits bool.splits)
qed

lemma booted_identity_ok:
  assumes "wg_crypto_lengths C" and "box_public B = pubkey C"
    and "load_or_generate V (pubkey C) nvs r1 r2 r3 = (nvs', Inr keys)" and "length r2 = 32" and "length r3 = 32"
  shows "identity_ok (node_of C B ft port fetch (node_identity keys allowed))"
  using loaded_keys_derived [OF assms(3-5)] assms(1,2) by (simp add: identity_ok_def node_of_def node_identity_def)

lemma endpoint_updates_total:
  assumes "keys_ok keys"
  shows "\<exists>out. endpoint_updates C N S cfg mp cp keys eps tcps = Some out \<and> length out = length tcps"
proof (induction tcps)
  case (Cons tcp tcps)
  obtain r where "connect C N cfg tcp mp cp = Some r" using connect_total by blast
  moreover obtain b where "build_map_json S cfg keys False True False eps = Some b" using build_map_json_ok [OF assms] by blast
  ultimately obtain q where "update_endpoints C N S cfg tcp mp cp keys eps = Some q"
    by (cases r) (auto simp: update_endpoints_def)
  with Cons show ?case by auto
qed simp

lemma dataplane_started:
  assumes "dataplane_start node addrs s now d = (rc, w)"
  shows "lc_node rc = node (da_identity d)" and "dp_inv (w_st w)" and "w_targets w = da_targets d"
  using assms by (auto simp: dataplane_start_def Let_def dp_world_new_def dp_new_def dp_inv_def split: option.splits)

lemma started_dataplane_runs:
  assumes "identity_ok (node (da_identity d))"
  shows "\<exists>rc w0 w out. dataplane_start node addrs s now d = (rc, w0) \<and> run_handler (dp_handle rc) w0 events = Some (w, out) \<and>
    dp_inv (w_st w) \<and> list_all (\<lambda>m. datagram_ok (fst m)) out"
proof -
  obtain rc w0 where s: "dataplane_start node addrs s now d = (rc, w0)" by fastforce
  then show ?thesis
    using dataplane.run_ok [of rc w0 events] dataplane_started [OF s] assms by (auto simp: list_all_iff)
qed

text \<open>What the filter means for a transport packet, whatever the state: it is dropped, or handled as without a filter.\<close>

definition unfiltered :: "node_cfg \<Rightarrow> node_cfg" where
  "unfiltered cf = cf\<lparr>cf_id := (cf_id cf)\<lparr>id_allowed_srcs := None\<rparr>\<rparr>"

lemma unfiltered_same:
  "cf_wg (unfiltered cf) = cf_wg cf" "cf_features (unfiltered cf) = cf_features cf"
  "cf_proxy_port (unfiltered cf) = cf_proxy_port cf" "cf_fetch (unfiltered cf) = cf_fetch cf"
  "id_allowed_srcs (cf_id (unfiltered cf)) = None"
  by (simp_all add: unfiltered_def)

lemma unfiltered_services:
  "send_inner (unfiltered cf) = send_inner cf"
  "serve_inner (unfiltered cf) = serve_inner cf"
  "outbound_replies (unfiltered cf) = outbound_replies cf"
proof -
  show s: "send_inner (unfiltered cf) = send_inner cf" by (intro ext) (simp only: send_inner_def unfiltered_same)
  show "serve_inner (unfiltered cf) = serve_inner cf" by (intro ext) (unfold serve_inner_def unfiltered_same s, rule refl)
  show "outbound_replies (unfiltered cf) = outbound_replies cf" by (intro ext) (unfold outbound_replies_def s, rule refl)
qed

lemma allowed_as_unfiltered:
  assumes "src_allowed (id_allowed_srcs (cf_id cf)) inner = Some True"
  shows "handle_decrypted (unfiltered cf) rn st i inner src = handle_decrypted cf rn st i inner src"
proof -
  have n: "src_allowed None inner = Some True" by (simp add: src_allowed_eq)
  show ?thesis by (unfold handle_decrypted_def unfiltered_same unfiltered_services assms n, rule refl)
qed

lemma filter_decides_packet:
  assumes "is_transport pkt" and "i = from_le_bytes [pkt ! 4, pkt ! 5, pkt ! 6, pkt ! 7]" and "i \<noteq> STUN_INDEX"
    and "map_of (st_tunnels st) i = Some e" and "decrypt (cf_wg cf) (te_tun e) pkt = Some (Inr inner)"
    and "inner \<noteq> []" and "src_allowed (id_allowed_srcs (cf_id cf)) inner = Some ok"
  shows "handle_packet cf rn targets st tick pkt src =
    (if ok then handle_packet (unfiltered cf) rn targets st tick pkt src
     else Some (st\<lparr>st_tunnels := AList.update i (e\<lparr>te_addr := src\<rparr>) (st_tunnels st)\<rparr>, []))"
proof -
  have l: "16 \<le> length pkt" using assms(1) by (simp add: is_transport_def)
  have "handle_packet c rn targets st tick pkt src = handle_decrypted c rn st i inner src" if "cf_wg c = cf_wg cf" for c
    using that assms l by (simp add: transport_dispatch handle_wg_transport_def rust_simps Let_def)
  from this [of cf] this [of "unfiltered cf"]
  have "handle_packet cf rn targets st tick pkt src = handle_decrypted cf rn st i inner src"
    "handle_packet (unfiltered cf) rn targets st tick pkt src = handle_decrypted (unfiltered cf) rn st i inner src"
    by (simp_all add: unfiltered_same)
  then show ?thesis
    using assms(4,6,7) allowed_as_unfiltered [of cf inner rn st i src] by (cases ok) (simp_all add: handle_decrypted_def)
qed

subsection \<open>Properties\<close>

text \<open>
  C14. The firmware never panics. Whatever the storage, the HTTPS client, the control server and the
  network return, \<open>boot\<close> returns a result: the two \<open>expect\<close>s on the control key and the \<open>unwrap\<close> are
  never hit. Threads are started only after a registration that ended with \<open>registered OK\<close>; from
  then on no thread panics: not the data plane, whatever packets arrive and whatever targets the
  relay hands over, which keeps its invariant and sends only well-formed messages; not the relay
  thread over any sequence of TLS sessions; not the endpoint thread; and not the loop that keeps the map open.
\<close>

theorem firmware_survives:
  assumes "wg_crypto_lengths C" and "box_public B = pubkey C" and "length r2 = 32" and "length r3 = 32"
  shows "\<exists>nvs' res. boot C N S V (pubkey C) F acfg env nvs r1 r2 r3 = Some (nvs', res) \<and>
    (case res of
       Started s \<Rightarrow> \<exists>keys cp urls. load_or_generate V (pubkey C) nvs r1 r2 r3 = (nvs', Inr keys) \<and>
         register_loop C N S (config.truncate acfg) (kp_private (nk_machine keys)) cp keys
           (if bf_authkey F then AUTH_KEY_DEFAULT acfg else []) False (be_register env) = Some (Some ''registered OK'', urls) \<and>
         pred_option (\<lambda>d. \<exists>rc w0 w out. dataplane_start (node_of C B ft port fetch) addrs rnd now d = (rc, w0) \<and>
            run_handler (dp_handle rc) w0 events = Some (w, out) \<and> dp_inv (w_st w) \<and> list_all (\<lambda>m. datagram_ok (fst m)) out)
           (sd_dataplane s) \<and>
         pred_option (\<lambda>r. \<exists>ts. derp_run (node_of C B ft port fetch (fst r)) (snd r) tls = Some ts) (sd_relay s) \<and>
         (\<exists>ups. endpoint_updates C N S (config.truncate acfg) (kp_private (nk_machine keys)) cp keys (sd_endpoints s) tcps = Some ups) \<and>
         (\<exists>sh. map_loop C N S (config.truncate acfg) (kp_private (nk_machine keys)) cp keys (sd_endpoints s) None mtcps = Some sh)
     | KeysFailed e \<Rightarrow> load_or_generate V (pubkey C) nvs r1 r2 r3 = (nvs', Inl e)
     | NotRegistered status \<Rightarrow> status \<noteq> Some ''registered OK'')"
proof -
  have X: "\<forall>p. length (pubkey C p) = 32" using assms(1) by (simp add: wg_lengths)
  obtain nvs' res where b: "boot C N S V (pubkey C) F acfg env nvs r1 r2 r3 = Some (nvs', res)"
    "boot_outcome C N S V (pubkey C) F acfg env nvs r1 r2 r3 nvs' res"
    using boot_returns [OF X, of C N S V F acfg env nvs r1 r2 r3] by (elim exE conjE)
  show ?thesis
  proof (cases res)
    case (Started s)
    obtain keys cp urls allowed where k: "load_or_generate V (pubkey C) nvs r1 r2 r3 = (nvs', Inr keys)"
      "register_loop C N S (config.truncate acfg) (kp_private (nk_machine keys)) cp keys
         (if bf_authkey F then AUTH_KEY_DEFAULT acfg else []) False (be_register env) = Some (Some ''registered OK'', urls)"
      "pred_option (\<lambda>d. da_identity d = node_identity keys allowed) (sd_dataplane s)"
      "pred_option (\<lambda>r. fst r = node_identity keys allowed) (sd_relay s)"
      using b(2) Started by (auto simp: boot_outcome_def)
    have ok: "identity_ok (node_of C B ft port fetch (node_identity keys allowed))"
      by (rule booted_identity_ok [OF assms(1,2) k(1) assms(3,4)])
    have ko: "keys_ok keys" by (rule loaded_keys_ok [OF X k(1)])
    let ?run = "\<lambda>d. \<exists>rc w0 w out. dataplane_start (node_of C B ft port fetch) addrs rnd now d = (rc, w0) \<and>
      run_handler (dp_handle rc) w0 events = Some (w, out) \<and> dp_inv (w_st w) \<and> list_all (\<lambda>m. datagram_ok (fst m)) out"
    have d: "pred_option ?run (sd_dataplane s)"
      by (rule option.pred_mono_strong [OF k(3)], rule started_dataplane_runs) (simp add: ok)
    have r: "pred_option (\<lambda>r. \<exists>ts. derp_run (node_of C B ft port fetch (fst r)) (snd r) tls = Some ts) (sd_relay s)"
      by (rule option.pred_mono_strong [OF k(4)]) (simp add: derp_run_returns [OF ok])
    obtain ups where e: "endpoint_updates C N S (config.truncate acfg) (kp_private (nk_machine keys)) cp keys (sd_endpoints s) tcps = Some ups"
      using endpoint_updates_total [OF ko] by blast
    obtain sh where m: "map_loop C N S (config.truncate acfg) (kp_private (nk_machine keys)) cp keys (sd_endpoints s) None mtcps = Some sh"
      using map_loop_keeps_address [OF ko] by blast
    show ?thesis
      by (intro exI [of _ nvs'] exI [of _ res] conjI, rule b(1), unfold Started boot_result.case, intro exI conjI)
        (rule k(1), rule k(2), rule d, rule r, rule e, rule m)
  qed (use b in \<open>auto simp: boot_outcome_def\<close>)
qed

theorem firmware_survives_witness:
  "\<exists>nvs' res. boot toy_crypto toy_snow (toy_serde []) toy_nvs (pubkey toy_crypto) toy_boot_features toy_app_config toy_boot_env
     Map.empty (replicate 32 1) (replicate 32 2) (replicate 32 3) = Some (nvs', res)"
proof -
  have "wg_crypto_lengths toy_crypto" using toy_crypto_ok by (rule wg_crypto_ok_lengths)
  from firmware_survives [OF this, of "toy_box\<lparr>box_public := pubkey toy_crypto\<rparr>" "replicate 32 2" "replicate 32 3"]
  show ?thesis by fastforce
qed

text \<open>
  C13. The rules of the map decide what the booted node serves. Let the key server answer with the
  control key, one of the registration connections be served by a control server that follows the
  protocol and authorizes the machine, and the map connection by one that sends a map with our
  address, peers and rules. Then, with interactive login and the packet filter on, the data plane is
  started with the stored keys and with the LAN targets of exactly the peers of the map that have
  usable keys; and in every state of it, a transport packet that decrypts to an IPv4 packet is handled
  as by a node without a filter if a rule of the map permits its source to reach us, and is dropped otherwise.
\<close>

theorem booted_node_enforces_map:
  assumes "wg_crypto_ok C" and "load_or_generate V (pubkey C) nvs r1 r2 r3 = (nvs', Inr keys)"
    and "bf_direct F" and "bf_packet_filter F" and "\<not> bf_authkey F" and "be_magicsock env = Some ms"
    and "answers_key S acfg env cp"
    and "Some (reads, None) \<in> set (be_register env)" and "authorizes C N S (kp_private (nk_machine keys)) cp reads"
    and "be_map env = Some (mreads, None)" and "sends_map C N S (kp_private (nk_machine keys)) cp mreads our ps rules"
    and "is_transport pkt" and "i = from_le_bytes [pkt ! 4, pkt ! 5, pkt ! 6, pkt ! 7]" and "i \<noteq> STUN_INDEX"
    and "map_of (st_tunnels st) i = Some e" and "decrypt C (te_tun e) pkt = Some (Inr p)"
    and "16 \<le> length p" and "drop_bit 4 (p ! 0) = 4"
  shows "\<exists>s d peers rc w0. boot C N S V (pubkey C) F acfg env nvs r1 r2 r3 = Some (nvs', Started s) \<and> sd_dataplane s = Some d \<and>
    dataplane_start (node_of C B ft port fetch) addrs rnd now d = (rc, w0) \<and>
    id_node_priv (cf_id (lc_node rc)) = kp_private (nk_node keys) \<and> id_disco_priv (cf_id (lc_node rc)) = kp_private (nk_disco keys) \<and>
    filter_map_p parse_peer ps = Some peers \<and> w_targets w0 = build_lan_targets peers (show_ipv4 (be_lan_ip env)) \<and>
    handle_packet (lc_node rc) rn targets st tick pkt src =
      (if \<exists>rule \<in> set rules. rule_permits our (from_be_bytes (sub p 12 16)) rule
       then handle_packet (unfiltered (lc_node rc)) rn targets st tick pkt src
       else Some (st\<lparr>st_tunnels := AList.update i (e\<lparr>te_addr := src\<rparr>) (st_tunnels st)\<rparr>, []))"
proof -
  have X: "\<forall>p. length (pubkey C p) = 32" using wg_crypto_ok_lengths [OF assms(1)] by (simp add: wg_lengths)
  obtain s d peers allowed where b: "boot C N S V (pubkey C) F acfg env nvs r1 r2 r3 = Some (nvs', Started s)"
      "sd_dataplane s = Some d" "filter_map_p parse_peer ps = Some peers"
      "da_targets d = build_lan_targets peers (show_ipv4 (be_lan_ip env))" "da_identity d = node_identity keys allowed"
      "src_allowed allowed p = Some (\<exists>rule \<in> set rules. rule_permits our (from_be_bytes (sub p 12 16)) rule)"
    using node_boots [OF assms(1) X assms(2-11)] assms(17,18) by (elim exE conjE) blast
  obtain rc w0 where r: "dataplane_start (node_of C B ft port fetch) addrs rnd now d = (rc, w0)" by fastforce
  note n = dataplane_started [OF r]
  have f: "cf_wg (lc_node rc) = C" "cf_id (lc_node rc) = node_identity keys allowed" "id_allowed_srcs (node_identity keys allowed) = allowed"
    using n(1) b(5) by (simp_all add: node_of_def node_identity_def)
  have "p \<noteq> []" using assms(17) by auto
  from filter_decides_packet [OF assms(12-15), of "lc_node rc" p, OF _ this, of _ rn targets tick src] assms(16) b(6) f
  have h: "handle_packet (lc_node rc) rn targets st tick pkt src =
      (if \<exists>rule \<in> set rules. rule_permits our (from_be_bytes (sub p 12 16)) rule
       then handle_packet (unfiltered (lc_node rc)) rn targets st tick pkt src
       else Some (st\<lparr>st_tunnels := AList.update i (e\<lparr>te_addr := src\<rparr>) (st_tunnels st)\<rparr>, []))"
    by simp
  show ?thesis
    by (intro exI conjI, rule b(1), rule b(2), rule r, simp_all add: f node_identity_def b(3,4) n(3) h)
qed

theorem booted_node_enforces_map_witness:
  "\<exists>hx nvs' s st. boot toy_crypto toy_snow (toy_boot_serde hx) toy_nvs (pubkey toy_crypto) toy_boot_features toy_app_config toy_boot_env
       Map.empty (replicate 32 1) (replicate 32 2) (replicate 32 3) = Some (nvs', Started s) \<and>
     pred_option (\<lambda>d. handle_packet (lc_node (fst (dataplane_start (node_of toy_crypto toy_box (cf_features toy_node) 80 id) None [0, 0, 0, 0] 0 d)))
       toy_rand [] toy_state 0 (snd (encrypt toy_crypto (toy_tunnel\<lparr>tun_their_index := 9\<rparr>) denied_inner)) (V4 3 4) = Some (st, [])) (sd_dataplane s)"
proof -
  obtain hx where hx: "hex_lower (replicate 32 9) = Some hx" using hex_decode_hex_lower [of "replicate 32 9"] by auto
  obtain n keys where g: "load_or_generate toy_nvs (pubkey toy_crypto) Map.empty (replicate 32 1) (replicate 32 2) (replicate 32 3) = (n, Inr keys)"
    by (simp add: load_or_generate_def load_or_make_def toy_nvs_def)
  have e: "bf_direct toy_boot_features" "bf_packet_filter toy_boot_features" "\<not> bf_authkey toy_boot_features"
    "be_magicsock toy_boot_env = Some (41641, Inl NoStunReply)" "be_map toy_boot_env = Some (toy_served toy_map, None)"
    "Some (toy_served [0x7B, 0x7D], None) \<in> set (be_register toy_boot_env)"
    by (simp_all add: toy_boot_features_def toy_boot_env_def)
  let ?t = "toy_tunnel\<lparr>tun_their_index := 9\<rparr>"
  obtain t' w where w: "encrypt toy_crypto ?t denied_inner = (t', w)" by fastforce
  have "pad_loop denied_inner = denied_inner" by (simp add: pad_loop_eq denied_inner_def)
  then have d: "decrypt toy_crypto toy_tunnel w = Some (Inr denied_inner)"
    using decrypt_encrypt [OF toy_crypto_ok w, of toy_tunnel] by (simp add: toy_tunnel_def)
  have p: "16 \<le> length denied_inner" "drop_bit 4 (denied_inner ! 0) = 4" by (simp_all add: denied_inner_def)
  have f: "sub denied_inner 12 16 = [10, 0, 0, 1]" by (simp add: denied_inner_def numeral_eq_Suc)
  have r: "\<not> rule_permits 0x64400002 (from_be_bytes (sub denied_inner 12 16)) sample_rule"
    unfolding f by (rule sample_rule_denies)
  have i: "(9 :: u32) = from_le_bytes [w ! 4, w ! 5, w ! 6, w ! 7]" "9 \<noteq> STUN_INDEX"
    using encrypt_is_transport(2) [OF w] by (simp_all add: STUN_INDEX_eq)
  from booted_node_enforces_map [OF toy_crypto_ok g e(1-4) toy_servers(1) [OF hx] e(6) toy_servers(2) [OF hx] e(5) toy_servers(3) [OF hx]
      encrypt_is_transport(1) [OF w] i _ _ p, of toy_state _ toy_box "cf_features toy_node" 80 id None "[0, 0, 0, 0]" 0 toy_rand "[]" 0 "V4 3 4"] d r
  show ?thesis by (auto simp: toy_state_def w intro!: exI [of _ hx])
qed

end
