(* ===== verification/Rendezvous.thy ===== *)
theory Rendezvous
  imports Dataplane_System
begin

text \<open>
  Two nodes meet: the whole exchange from the first disco ping to a tunnel, with both ends
  running \<open>handle_packet\<close> of \<^verbatim>\<open>src/dataplane.rs\<close>. Node A probes B; B answers with a PONG; the
  PONG makes A start a handshake; B responds; A completes it and sends a keepalive, which B
  decrypts. The parts were verified separately (\<open>Disco\<close>, \<open>Wg\<close>, \<open>Stun\<close>); that the exchange
  runs to its end also needs the dispatch on the first bytes and the tables of pending
  handshakes and tunnels.
\<close>

subsection \<open>One exchange\<close>

text \<open>Handling datagrams that arrive from one address, in order.\<close>

definition deliver ::
  "node_cfg \<Rightarrow> packet_rand \<Rightarrow> target list \<Rightarrow> u32 \<Rightarrow> socket_addr \<Rightarrow> dp_state \<Rightarrow> datagram list \<Rightarrow>
   (dp_state \<times> datagram list) panics" where
  "deliver cf rn targets tick from st ds = run_handler (\<lambda>st d. handle_packet cf rn targets st tick (fst d) from) st ds"

text \<open>
  A's ping arrives at B, and every reply travels back, until nobody has anything to send.
  \<open>rA\<close> and \<open>rB\<close> are what the nodes draw in the first and second step they take.
\<close>

definition rendezvous ::
  "node_cfg \<Rightarrow> node_cfg \<Rightarrow> target list \<Rightarrow> target list \<Rightarrow> u32 \<Rightarrow> u32 \<Rightarrow> socket_addr \<Rightarrow> socket_addr \<Rightarrow>
   packet_rand \<Rightarrow> packet_rand \<Rightarrow> dp_state \<Rightarrow> dp_state \<Rightarrow> bytes \<Rightarrow> (dp_state \<times> dp_state \<times> datagram list) panics" where
  "rendezvous A B targetsA targetsB tickA tickB addrA addrB rA rB stA stB ping = do {
     (stB, pong) \<leftarrow> deliver B rB targetsB tickB addrA stB [(ping, addrB)];
     (stA, init) \<leftarrow> deliver A rA targetsA tickA addrB stA pong;
     (stB, resp) \<leftarrow> deliver B rB targetsB tickB addrA stB init;
     (stA, ka) \<leftarrow> deliver A rA targetsA tickA addrB stA resp;
     (stB, rest) \<leftarrow> deliver B rB targetsB tickB addrA stB ka;
     Some (stA, stB, rest)
   }"

subsection \<open>The steps\<close>

lemma deliver_one: "deliver cf rn targets tick from st [d] = handle_packet cf rn targets st tick (fst d) from"
  unfolding deliver_def by (simp add: split_beta)

lemma deliver_none: "deliver cf rn targets tick from st [] = Some (st, [])"
  by (simp add: deliver_def)

lemma sealed_disco_dispatch:
  assumes "box_crypto_ok (cf_box cf)" and "length nonce = 24"
    and "id_disco_priv (cf_id cf) = b"
    and "disco_seal (cf_box cf) a (box_public (cf_box cf) a) (box_public (cf_box cf) b) pt nonce = Inr wire"
    and "read_plaintext (box_public (cf_box cf) a) pt = Inr msg"
  shows "handle_packet cf rn targets st tick wire src = (
    if inc_msg_type msg = PING then do {
      p \<leftarrow> pong_plaintext (inc_txid msg) src;
      case disco_seal (cf_box cf) b (id_disco_pub (cf_id cf)) (inc_sender_disco_pub msg) p (rn_nonce rn) of
        Inr reply \<Rightarrow> Some (st, [(reply, src)]) | Inl err \<Rightarrow> Some (st, []) }
    else if inc_msg_type msg = PONG then
      maybe_start_handshake cf rn targets (st\<lparr>st_confirmed := insert src (st_confirmed st)\<rparr>) tick (inc_sender_disco_pub msg) src
    else Some (st, []))"
  using disco_open_seal [OF assms(1,2,4)] assms(3,5)
  by (simp add: handle_packet_def handle_disco_def)

lemma wg_dispatch:
  assumes "8 \<le> length pkt" and "sub pkt 4 8 = to_le_bytes (i :: u32)" and "i \<noteq> STUN_INDEX" and "pkt ! 0 \<noteq> 0x54"
  shows "handle_packet cf rn targets st tick pkt src =
    (if pkt ! 0 = MSG_INITIATION then handle_wg_init cf rn st pkt src
     else if pkt ! 0 = MSG_RESPONSE then handle_wg_response cf st pkt src
     else if pkt ! 0 = MSG_TRANSPORT then handle_wg_transport cf rn st pkt src else Some (st, []))"
proof -
  have "sub pkt 0 6 \<noteq> MAGIC"
  proof
    assume "sub pkt 0 6 = MAGIC"
    then have "sub pkt 0 6 ! 0 = 0x54" by (simp add: MAGIC_def)
    then show False using assms(1,4) by simp
  qed
  moreover have "from_be_bytes (sub pkt 4 8) \<noteq> MAGIC_COOKIE"
  proof
    assume "from_be_bytes (sub pkt 4 8) = MAGIC_COOKIE"
    then have "sub pkt 4 8 = to_be_bytes MAGIC_COOKIE"
      using to_from_be_bytes [of "sub pkt 4 8", where ?'a = 32] assms(1) by simp
    then have "from_le_bytes (to_le_bytes i) = STUN_INDEX" using assms(2) by (simp add: STUN_INDEX_def)
    then show False using assms(3) by (simp add: bytes_roundtrip)
  qed
  ultimately show ?thesis using assms(1)
    by (cases pkt) (simp_all add: handle_packet_def is_disco_eq is_stun_eq)
qed

lemma update_new: "map_of al k = None \<Longrightarrow> AList.update k v al = al @ [(k, v)]"
  by (induction al) (auto split: if_splits)

lemma find_last: "\<forall>x \<in> set xs. \<not> P x \<Longrightarrow> P y \<Longrightarrow> List.find P (xs @ [y]) = Some y"
  by (induction xs) auto

text \<open>B answers A's ping, and A reads the answer as a PONG.\<close>

lemma ping_pong:
  assumes X: "box_crypto_ok (cf_box B)" "\<And>sk pk n m. box_encrypt (cf_box B) sk pk n m \<noteq> None"
    and B: "identity_ok B" and A: "identity_ok A" "cf_box A = cf_box B"
    and n: "length txid = 12" "length nonce = 24" "length (rn_nonce rB) = 24"
    and ping: "disco_seal (cf_box A) (id_disco_priv (cf_id A)) (id_disco_pub (cf_id A)) (id_disco_pub (cf_id B))
       (ping_plaintext txid node) nonce = Inr ping"
  shows "\<exists>pong. handle_packet B rB targetsB stB tickB ping addrA = Some (stB, [(pong, addrA)]) \<and>
    (\<forall>rA targets st tick src. handle_packet A rA targets st tick pong src =
       maybe_start_handshake A rA targets (st\<lparr>st_confirmed := insert src (st_confirmed st)\<rparr>) tick (id_disco_pub (cf_id B)) src)"
proof -
  let ?X = "cf_box B" and ?a = "id_disco_priv (cf_id A)" and ?b = "id_disco_priv (cf_id B)"
  have pub: "id_disco_pub (cf_id A) = box_public ?X ?a" "id_disco_pub (cf_id B) = box_public ?X ?b"
    using A B by (simp_all add: identity_ok_def)
  obtain pt where pt: "pong_plaintext txid addrA = Some pt" "pt ! 0 = PONG" "14 \<le> length pt"
    using n(1) by (auto simp: pong_plaintext_def addr_to_bytes_eq PONG_def)
  obtain pong where pong: "disco_seal ?X ?b (box_public ?X ?b) (box_public ?X ?a) pt (rn_nonce rB) = Inr pong"
    using X(2) by (fastforce simp: disco_seal_def split: option.split)
  let ?ping = "ping_plaintext txid node"
  have ms: "sub ?ping 2 14 = txid" "?ping ! 0 = PING" "14 \<le> length ?ping"
    using n(1) by (simp_all add: ping_plaintext_def)
  obtain msg where msg: "read_plaintext (box_public ?X ?a) ?ping = Inr msg" "inc_msg_type msg = PING"
      "inc_txid msg = txid" "inc_sender_disco_pub msg = box_public ?X ?a"
    using ms by (simp add: read_plaintext_def)
  obtain msg' where msg': "read_plaintext (box_public ?X ?b) pt = Inr msg'" "inc_msg_type msg' = PONG"
      "inc_sender_disco_pub msg' = box_public ?X ?b"
    using pt(2,3) by (simp add: read_plaintext_def)
  have "handle_packet B rB targetsB stB tickB ping addrA = Some (stB, [(pong, addrA)])"
    using ping pub pt(1) pong msg A(2)
    by (subst sealed_disco_dispatch [OF X(1) n(2), where b = ?b and a = ?a and msg = msg]) simp_all
  moreover have "handle_packet A rA targets st tick pong src =
      maybe_start_handshake A rA targets (st\<lparr>st_confirmed := insert src (st_confirmed st)\<rparr>) tick (id_disco_pub (cf_id B)) src"
    for rA targets st tick src
    using X(1) A(2) pub pong msg' n(3)
    by (subst sealed_disco_dispatch [where b = ?a and a = ?b and nonce = "rn_nonce rB" and pt = pt and msg = msg'])
      (simp_all add: PING_def PONG_def)
  ultimately show ?thesis by blast
qed

text \<open>The handshake messages through both dispatchers, and the keepalive.\<close>

lemma handshake_dispatch:
  assumes C: "wg_crypto_ok (cf_wg B)" "cf_wg A = cf_wg B" and A: "identity_ok A" and B: "identity_ok B"
    and l: "length (rn_eph rA) = 32" "length (rn_eph rB) = 32"
    and i: "rn_index rA \<noteq> STUN_INDEX" "rn_index rB \<noteq> STUN_INDEX"
  shows "\<exists>msg hs resp tA tB.
    build_initiation (cf_wg A) (id_node_priv (cf_id A)) (id_node_pub (cf_id A)) (id_node_pub (cf_id B))
      (tai64n s ns) (rn_index rA) (rn_eph rA) = Some (msg, hs) \<and>
    handle_packet B rB targetsB stB tickB msg addrA =
      Some (insert_tunnel stB (rn_index rB) tB addrA (id_node_pub (cf_id A)), [(resp, addrA)]) \<and>
    (\<forall>st rn targets tick src. handle_packet A rn targets st tick resp src = handle_wg_response A st resp src) \<and>
    consume_response (cf_wg A) hs resp = Some (Inr tA) \<and> 12 \<le> length resp \<and>
    from_le_bytes [resp ! 8, resp ! 9, resp ! 10, resp ! 11] = rn_index rA \<and>
    tun_send_key tA = tun_recv_key tB \<and> tun_recv_key tA = tun_send_key tB \<and>
    tun_their_index tA = rn_index rB \<and> tun_our_index tA = rn_index rA \<and>
    tun_their_index tB = rn_index rA \<and> tun_our_index tB = rn_index rB"
proof -
  have id: "length (id_node_priv (cf_id A)) = 32" "length (id_node_priv (cf_id B)) = 32"
      "id_node_pub (cf_id A) = pubkey (cf_wg B) (id_node_priv (cf_id A))"
      "id_node_pub (cf_id B) = pubkey (cf_wg B) (id_node_priv (cf_id B))"
    using A B C(2) by (simp_all add: identity_ok_def)
  have ts: "length (tai64n s ns) = 12" by (simp add: tai64n_def)
  obtain msg hs resp tA tB where h:
    "build_initiation (cf_wg B) (id_node_priv (cf_id A)) (id_node_pub (cf_id A)) (id_node_pub (cf_id B))
      (tai64n s ns) (rn_index rA) (rn_eph rA) = Some (msg, hs)"
    "consume_initiation (cf_wg B) (id_node_priv (cf_id B)) (id_node_pub (cf_id B)) msg (rn_index rB) (rn_eph rB) =
      Some (Inr (resp, tB, id_node_pub (cf_id A)))"
    "consume_response (cf_wg B) hs resp = Some (Inr tA)"
    "length msg = 148" "msg ! 0 = MSG_INITIATION" "sub msg 4 8 = to_le_bytes (rn_index rA)"
    "length resp = 92" "resp ! 0 = MSG_RESPONSE" "sub resp 4 8 = to_le_bytes (rn_index rB)"
    "sub resp 8 12 = to_le_bytes (rn_index rA)"
    "tun_send_key tA = tun_recv_key tB" "tun_recv_key tA = tun_send_key tB"
    "tun_their_index tA = rn_index rB" "tun_our_index tA = rn_index rA"
    "tun_their_index tB = rn_index rA" "tun_our_index tB = rn_index rB"
    using handshake_completes [OF C(1) id(1,2) l ts, of "rn_index rA" "rn_index rB"] unfolding id(3,4) by blast
  have r: "from_le_bytes [resp ! 8, resp ! 9, resp ! 10, resp ! 11] = rn_index rA"
    using index_field [of 8 resp "rn_index rA"] h(7,10) by simp
  have "handle_packet B rB targetsB stB tickB msg addrA =
      Some (insert_tunnel stB (rn_index rB) tB addrA (id_node_pub (cf_id A)), [(resp, addrA)])"
    using wg_dispatch [of msg "rn_index rA"] h(2,4-6) i(1) by (simp add: handle_wg_init_def)
  moreover have "handle_packet A rn targets st tick resp src = handle_wg_response A st resp src" for st rn targets tick src
    using wg_dispatch [of resp "rn_index rB"] h(7-9) i(2) by simp
  ultimately show ?thesis using h(1,3,7,11-) r C(2) by auto
qed

lemma keepalive_received:
  assumes "wg_crypto_ok (cf_wg B)" and "tun_recv_key tB = tun_send_key t" and "tun_their_index t = j" and "j \<noteq> STUN_INDEX"
    and "keepalive (cf_wg B) t = (t', ka)" and "map_of (st_tunnels st) j = Some e" and "te_tun e = tB"
  shows "handle_packet B rB targets st tick ka src =
    Some (st\<lparr>st_tunnels := AList.update j (e\<lparr>te_addr := src\<rparr>) (st_tunnels st)\<rparr>, [])"
proof -
  have e: "encrypt (cf_wg B) t [] = (t', ka)" using assms(5) by (simp add: keepalive_def)
  have "decrypt (cf_wg B) tB ka = Some (Inr [])"
    using decrypt_encrypt [OF assms(1) e, of tB] assms(2) by (simp add: pad_loop_eq)
  moreover have "handle_packet B rB targets st tick ka src = handle_wg_transport B rB st ka src"
    using encrypt_is_transport [OF e] assms(3,4) by (intro transport_dispatch) simp_all
  moreover have "16 \<le> length ka" using encrypt_wire(6) [OF e] .
  ultimately show ?thesis using assms(3,6,7) encrypt_is_transport(2) [OF e]
    by (simp add: handle_wg_transport_def handle_decrypted_def rust_simps Let_def)
qed

text \<open>A on the PONG and on the response: the handshake goes through the table of pending ones.\<close>

lemma initiator_side:
  assumes A: "dp_inv stA" and t: "List.find (\<lambda>t. tg_disco_pub t = dk) targets = Some t" "tg_node_pub t = k"
    and free: "map_of (st_pending stA) k = None" "\<forall>ie \<in> set (st_tunnels stA). te_addr (snd ie) \<noteq> src"
      "length (st_tunnels stA) + length (st_pending stA) < MAX_TUNNELS"
      "\<forall>kp \<in> set (st_pending stA). pn_our_index (snd kp) \<noteq> rn_index rA"
    and b: "build_initiation (cf_wg A) (id_node_priv (cf_id A)) (id_node_pub (cf_id A)) k
      (tai64n (fst (rn_clock rA)) (snd (rn_clock rA))) (rn_index rA) (rn_eph rA) = Some (msg, hs)" "rn_sent rA"
    and r: "consume_response (cf_wg A) hs resp = Some (Inr tA)" "12 \<le> length resp"
      "from_le_bytes [resp ! 8, resp ! 9, resp ! 10, resp ! 11] = rn_index rA"
  shows "\<exists>st1. maybe_start_handshake A rA targets (stA\<lparr>st_confirmed := c\<rparr>) tick dk src = Some (st1, [(msg, src)]) \<and>
    handle_wg_response A st1 resp src = Some (insert_tunnel (stA\<lparr>st_confirmed := c\<rparr>) (rn_index rA)
      (fst (keepalive (cf_wg A) tA)) src k, [(snd (keepalive (cf_wg A) tA), src)])"
proof -
  define p where "p = \<lparr>pn_addr = src, pn_init = msg, pn_hs = hs, pn_our_index = rn_index rA, pn_sent_tick = tick, pn_retries = 0\<rparr>"
  let ?st = "stA\<lparr>st_confirmed := c\<rparr>"
  define st1 where "st1 = ?st\<lparr>st_pending := AList.update k p (st_pending stA)\<rparr>"
  have "\<not> list_ex (\<lambda>(i, e). te_addr e = src) (st_tunnels stA)" using free(2) by (auto simp: list_ex_iff)
  then have 1: "maybe_start_handshake A rA targets ?st tick dk src = Some (st1, [(msg, src)])"
    using t free(1,3) b by (simp add: maybe_start_handshake_def st1_def p_def Let_def)
  have f: "List.find (\<lambda>(k, p). pn_our_index p = rn_index rA) (st_pending st1) = Some (k, p)"
    unfolding st1_def using update_new [OF free(1)] free(4)
    by (simp add: find_last p_def split_beta)
  have del: "AList.delete k (st_pending st1) = st_pending stA"
    using free(1) by (simp add: st1_def delete_update_same map_of_eq_None_iff)
  have "st1\<lparr>st_pending := st_pending stA\<rparr> = ?st" by (simp add: st1_def)
  moreover have "map_of (st_pending st1) k = Some p" by (simp add: st1_def update_conv')
  ultimately have "handle_wg_response A st1 resp src = Some (insert_tunnel ?st (rn_index rA)
      (fst (keepalive (cf_wg A) tA)) src k, [(snd (keepalive (cf_wg A) tA), src)])"
    using f del r by (simp add: handle_wg_response_def rust_simps p_def split_beta Let_def)
  with 1 show ?thesis by blast
qed

text \<open>
  C2. Two nodes that can reach each other end with a tunnel. Let A know B's keys, have a
  free slot, no handshake with B and no tunnel to its address, and let the indices drawn be
  unused and not read as the STUN cookie. Then, from A's disco ping on, every message is
  accepted by the other side, the exchange stops by itself, and both nodes hold a tunnel to
  the other: under the index each drew, at the other's address, for the other's static key,
  with the send key of one the receive key of the other in both directions. Whatever B was
  doing before does not matter.
\<close>

theorem nodes_establish_tunnel:
  assumes C: "wg_crypto_ok (cf_wg B)" "cf_wg A = cf_wg B" and A: "identity_ok A" and B: "identity_ok B"
    and X: "box_crypto_ok (cf_box B)" "cf_box A = cf_box B" "\<And>sk pk n m. box_encrypt (cf_box B) sk pk n m \<noteq> None"
    and n: "length txid = 12" "length nonce = 24" "length (rn_nonce rB) = 24" "length (rn_eph rA) = 32" "length (rn_eph rB) = 32"
    and ix: "rn_index rA \<noteq> STUN_INDEX" "rn_index rB \<noteq> STUN_INDEX" and sent: "rn_sent rA"
    and t: "List.find (\<lambda>t. tg_disco_pub t = id_disco_pub (cf_id B)) targetsA = Some t" "tg_node_pub t = id_node_pub (cf_id B)"
    and stA: "dp_inv stA" "map_of (st_pending stA) (id_node_pub (cf_id B)) = None"
      "\<forall>ie \<in> set (st_tunnels stA). te_addr (snd ie) \<noteq> addrB"
      "length (st_tunnels stA) + length (st_pending stA) < MAX_TUNNELS"
      "\<forall>kp \<in> set (st_pending stA). pn_our_index (snd kp) \<noteq> rn_index rA"
    and ping: "disco_seal (cf_box A) (id_disco_priv (cf_id A)) (id_disco_pub (cf_id A)) (id_disco_pub (cf_id B))
       (ping_plaintext txid (id_node_pub (cf_id A))) nonce = Inr ping"
  shows "\<exists>stA' stB' eA eB.
    rendezvous A B targetsA targetsB tickA tickB addrA addrB rA rB stA stB ping = Some (stA', stB', []) \<and>
    map_of (st_tunnels stA') (rn_index rA) = Some eA \<and> map_of (st_tunnels stB') (rn_index rB) = Some eB \<and>
    te_addr eA = addrB \<and> te_addr eB = addrA \<and>
    te_peer_node eA = id_node_pub (cf_id B) \<and> te_peer_node eB = id_node_pub (cf_id A) \<and>
    tun_send_key (te_tun eA) = tun_recv_key (te_tun eB) \<and> tun_recv_key (te_tun eA) = tun_send_key (te_tun eB) \<and>
    tun_their_index (te_tun eA) = rn_index rB \<and> tun_their_index (te_tun eB) = rn_index rA \<and>
    map_of (st_pending stA') (id_node_pub (cf_id B)) = None"
proof -
  obtain pong where p: "handle_packet B rB targetsB stB tickB ping addrA = Some (stB, [(pong, addrA)])"
      "handle_packet A rA targetsA stA tickA pong addrB =
        maybe_start_handshake A rA targetsA (stA\<lparr>st_confirmed := insert addrB (st_confirmed stA)\<rparr>) tickA (id_disco_pub (cf_id B)) addrB"
    using ping_pong [OF X(1,3) B A X(2) n(1-3) ping] by blast
  obtain msg hs resp tA tB where h:
    "build_initiation (cf_wg A) (id_node_priv (cf_id A)) (id_node_pub (cf_id A)) (id_node_pub (cf_id B))
      (tai64n (fst (rn_clock rA)) (snd (rn_clock rA))) (rn_index rA) (rn_eph rA) = Some (msg, hs)"
    "handle_packet B rB targetsB stB tickB msg addrA =
      Some (insert_tunnel stB (rn_index rB) tB addrA (id_node_pub (cf_id A)), [(resp, addrA)])"
    "\<And>st. handle_packet A rA targetsA st tickA resp addrB = handle_wg_response A st resp addrB"
    "consume_response (cf_wg A) hs resp = Some (Inr tA)" "12 \<le> length resp"
    "from_le_bytes [resp ! 8, resp ! 9, resp ! 10, resp ! 11] = rn_index rA"
    and k: "tun_send_key tA = tun_recv_key tB" "tun_recv_key tA = tun_send_key tB"
    "tun_their_index tA = rn_index rB" "tun_their_index tB = rn_index rA"
    using handshake_dispatch [OF C A B n(4,5) ix, where s = "fst (rn_clock rA)" and ns = "snd (rn_clock rA)"
        and targetsB = targetsB and stB = stB and tickB = tickB and addrA = addrA] by blast
  obtain st1 where a: "maybe_start_handshake A rA targetsA (stA\<lparr>st_confirmed := insert addrB (st_confirmed stA)\<rparr>) tickA
        (id_disco_pub (cf_id B)) addrB = Some (st1, [(msg, addrB)])"
      "handle_wg_response A st1 resp addrB = Some (insert_tunnel (stA\<lparr>st_confirmed := insert addrB (st_confirmed stA)\<rparr>)
        (rn_index rA) (fst (keepalive (cf_wg A) tA)) addrB (id_node_pub (cf_id B)), [(snd (keepalive (cf_wg A) tA), addrB)])"
    using initiator_side [OF stA(1) t stA(2-5) h(1) sent h(4-6)] by blast
  define stB1 where "stB1 = insert_tunnel stB (rn_index rB) tB addrA (id_node_pub (cf_id A))"
  obtain eB where eB: "map_of (st_tunnels stB1) (rn_index rB) = Some eB" "te_tun eB = tB" "te_peer_node eB = id_node_pub (cf_id A)"
    by (simp add: stB1_def insert_tunnel_def update_conv')
  have ka: "handle_packet B rB targetsB stB1 tickB (snd (keepalive (cf_wg A) tA)) addrA =
      Some (stB1\<lparr>st_tunnels := AList.update (rn_index rB) (eB\<lparr>te_addr := addrA\<rparr>) (st_tunnels stB1)\<rparr>, [])"
    using keepalive_received [OF C(1) k(1) [symmetric] k(3) ix(2) _ eB(1,2), where t' = "fst (keepalive (cf_wg A) tA)"] C(2) by simp
  define stA2 where "stA2 = insert_tunnel (stA\<lparr>st_confirmed := insert addrB (st_confirmed stA)\<rparr>)
    (rn_index rA) (fst (keepalive (cf_wg A) tA)) addrB (id_node_pub (cf_id B))"
  have run: "rendezvous A B targetsA targetsB tickA tickB addrA addrB rA rB stA stB ping = Some (stA2,
      stB1\<lparr>st_tunnels := AList.update (rn_index rB) (eB\<lparr>te_addr := addrA\<rparr>) (st_tunnels stB1)\<rparr>, [])"
    using p h(2,3) a ka by (simp add: rendezvous_def deliver_one flip: stB1_def stA2_def)
  have keys: "tun_send_key (fst (keepalive (cf_wg A) tA)) = tun_recv_key tB"
      "tun_recv_key (fst (keepalive (cf_wg A) tA)) = tun_send_key tB"
      "tun_their_index (fst (keepalive (cf_wg A) tA)) = rn_index rB"
    using k by (simp_all add: keepalive_def encrypt_def Let_def)
  show ?thesis
    using run keys eB k(4) stA(2) by (auto simp: update_conv' stA2_def insert_tunnel_def)
qed

definition toy_peer :: node_cfg where
  "toy_peer = toy_node\<lparr>cf_id := \<lparr>id_disco_priv = replicate 32 5, id_disco_pub = box_public toy_box (replicate 32 5),
     id_node_priv = replicate 32 6, id_node_pub = pubkey toy_crypto (replicate 32 6), id_allowed_srcs = None\<rparr>\<rparr>"

definition toy_target :: target where
  "toy_target = \<lparr>tg_name = ''peer'', tg_disco_pub = id_disco_pub (cf_id toy_peer), tg_node_pub = id_node_pub (cf_id toy_peer),
     tg_endpoints = [V4 2 41641], tg_spray = False\<rparr>"

theorem nodes_establish_tunnel_witness:
  "\<exists>ping stA' stB' eA eB.
    rendezvous toy_node toy_peer [toy_target] [] 0 0 (V4 1 41641) (V4 2 41641) toy_rand (toy_rand\<lparr>rn_index := 6\<rparr>)
      (dp_new None [] None []) (dp_new None [] None []) ping = Some (stA', stB', []) \<and>
    map_of (st_tunnels stA') 5 = Some eA \<and> map_of (st_tunnels stB') 6 = Some eB \<and>
    tun_send_key (te_tun eA) = tun_recv_key (te_tun eB)"
proof -
  let ?st = "dp_new None [] None []"
  have cf: "cf_wg toy_peer = toy_crypto" "cf_wg toy_node = toy_crypto" "cf_box toy_peer = toy_box" "cf_box toy_node = toy_box"
    by (simp_all add: toy_peer_def toy_node_def)
  have P: "identity_ok toy_peer"
    using toy_crypto_ok by (simp add: identity_ok_def toy_peer_def toy_node_def wg_crypto_ok_lengths)
  have total: "box_encrypt toy_box sk pk n m \<noteq> None" for sk pk n m by (simp add: toy_box_def)
  obtain ping where ping: "disco_seal (cf_box toy_node) (id_disco_priv (cf_id toy_node)) (id_disco_pub (cf_id toy_node))
      (id_disco_pub (cf_id toy_peer)) (ping_plaintext (replicate 12 0) (id_node_pub (cf_id toy_node))) (replicate 24 0) = Inr ping"
    by (simp add: disco_seal_def cf toy_box_def)
  have "dp_inv ?st" by (simp add: dp_new_def dp_inv_def)
  then show ?thesis
    using nodes_establish_tunnel [of toy_peer toy_node "replicate 12 0" "replicate 24 0" "toy_rand\<lparr>rn_index := 6\<rparr>" toy_rand
        "[toy_target]" toy_target ?st "V4 2 41641" ping "[]" 0 0 "V4 1 41641" ?st]
      toy_crypto_ok toy_node_ok P toy_box_ok total ping
    by (simp add: cf toy_rand_def STUN_INDEX_eq toy_target_def dp_new_def MAX_TUNNELS_def) blast
qed

end
