(* ===== verification/Http_Session.thy ===== *)
theory Http_Session
  imports Tcp_Server Proxy Outbound
begin

text \<open>
  Whole connections: the TCP client of \<^verbatim>\<open>outbound.rs\<close> talking to the page server of
  \<^verbatim>\<open>tcp.rs\<close> and to the LAN proxy of \<^verbatim>\<open>proxy.rs\<close>, packet by packet over a tunnel that
  delivers in order. The three state machines were written separately; that they complete a
  connection together rests on their sequence numbers, flags and checksums agreeing.
\<close>

subsection \<open>Feeding a well-formed segment\<close>

abbreviation seg :: "ipv4addr \<Rightarrow> ipv4addr \<Rightarrow> u16 \<Rightarrow> u16 \<Rightarrow> u32 \<Rightarrow> u8 \<Rightarrow> bytes \<Rightarrow> tcp_seg" where
  "seg src dst sport dport sq fl pl \<equiv> \<lparr> seg_src = src, seg_dst = dst, seg_sport = sport, seg_dport = dport,
     seg_seq = sq, seg_flags = fl, seg_payload = pl \<rparr>"

lemma srv_fed:
  assumes "length pl \<le> 65495"
  shows "handle s iss (tcp_packet src dst sport HTTP_PORT sq ack fl pl) =
    Some (s\<lparr>srv_conn := fst (react (srv_conn s) iss (seg src dst sport HTTP_PORT sq fl pl))\<rparr>,
          snd (react (srv_conn s) iss (seg src dst sport HTTP_PORT sq fl pl)))"
  using tcp_packet_ok [OF assms, of src dst sport HTTP_PORT sq ack fl]
  by (simp add: handle_eq for_port_def segment_ok_def)

lemma px_fed:
  assumes "length pl \<le> 65495"
  shows "proxy_handle port fetch s iss (tcp_packet src dst sport port sq ack fl pl) =
    Some (s\<lparr>px_conn := fst (px_react port fetch (px_conn s) iss (seg src dst sport port sq fl pl))\<rparr>,
          snd (px_react port fetch (px_conn s) iss (seg src dst sport port sq fl pl)))"
  using tcp_packet_ok [OF assms, of src dst sport port sq ack fl]
  by (simp add: proxy_handle_eq for_port_def segment_ok_def)

lemma cl_fed_packet:
  assumes "length pl \<le> 65495" and "cl_sport c = dport" and "\<not> cl_done c"
  shows "on_inner c (tcp_packet src dst sport dport sq ack fl pl) = Some (cl_react c (sq, fl, pl))"
  using cl_fed [OF tcp_packet_ok [OF assms(1)] assms(2,3)] .

lemma cl_done_ignores: "cl_done c \<Longrightarrow> on_inner c p = Some (c, [])"
  by (simp add: on_inner_eq)

subsection \<open>The client and the page server\<close>

definition page_session ::
  "tcp_client \<Rightarrow> tcp_server \<Rightarrow> u32 \<Rightarrow> (tcp_client \<times> tcp_server \<times> nat) panics" where
  "page_session c s iss = do {
     (c, syn) \<leftarrow> cl_open c;
     (s, o1) \<leftarrow> handle s iss syn;
     (c, o2) \<leftarrow> run_handler on_inner c o1;
     (s, o3) \<leftarrow> run_handler (\<lambda>s p. handle s iss p) s o2;
     (c, o4) \<leftarrow> run_handler on_inner c o3;
     (s, o5) \<leftarrow> run_handler (\<lambda>s p. handle s iss p) s o4;
     (c, o6) \<leftarrow> run_handler on_inner c o5;
     Some (c, s, length o6)
   }"

text \<open>
  A page is delivered: for any addresses, port, initial sequence numbers and non-empty
  request, and whatever the server was doing before, opening a connection to port 80 ends, after
  three round trips, with the client holding exactly the server's HTTP response, done, the
  server's connection closed, and nothing left to send.
\<close>

theorem page_delivered:
  assumes "request \<noteq> []" and "length request \<le> 65495"
  shows "\<exists>c. page_session (tcp_client_new src dst sport HTTP_PORT request r) s iss =
      Some (c, s\<lparr>srv_conn := conn_default\<rparr>, 0) \<and>
    cl_response c = http_response (page dst) \<and> cl_done c"
proof -
  have resp: "length (http_response (page dst)) \<le> 65495" using length_http_response [of dst] by simp
  show ?thesis
    using assms resp
    by (simp add: page_session_def cl_open_def cl_segment_eq cl_packet_def conn_packet_def tcp_client_new_def
        srv_fed cl_fed_packet cl_done_ignores react_def conn_of_syn_def of_client_def cl_react_def cl_data_def
        tcp_flags Let_def)
qed

theorem page_delivered_witness:
  "\<exists>c. page_session (tcp_client_new 0x64400001 0x64400002 40000 HTTP_PORT (ascii ''GET / HTTP/1.0'') 12345)
      tcp_server_new 777 = Some (c, tcp_server_new, 0) \<and> cl_done c"
  using page_delivered [of "ascii ''GET / HTTP/1.0''" "0x64400001" "0x64400002" 40000 12345 tcp_server_new 777]
  by (auto simp: ascii_def tcp_server_new_def)

subsection \<open>The client and the proxy\<close>

lemma cl_receives_cut:
  assumes "\<forall>d \<in> set ds. d \<noteq> [] \<and> length d \<le> MSS" and "ds \<noteq> []"
    and "cl_established c" and "\<not> cl_done c" and "cl_sport c = pc_client_port pc"
    and "cl_rcv_nxt c = pc_snd_nxt pc"
  shows "\<exists>c' out. run_handler on_inner c (px_cut port pc ds) = Some (c', out) \<and> cl_done c' \<and>
    cl_response c' = cl_response c @ concat ds"
  using assms
proof (induction port pc ds arbitrary: c rule: px_cut.induct)
  case (2 port pc d)
  then show ?case
    by (simp add: px_packet_def cl_fed_packet MSS_def cl_react_def cl_data_def tcp_flags Let_def)
next
  case (3 port pc d d' ds)
  let ?c = "cl_data c (pc_snd_nxt pc) d"
  have d: "d \<noteq> []" "length d \<le> 65495" using 3(2) by (simp_all add: MSS_def)
  have step: "on_inner c (px_packet port pc (PSH OR ACK) d) = Some (?c, [cl_packet ?c ACK []])"
    using 3(4-6) d by (simp add: px_packet_def cl_fed_packet cl_react_def tcp_flags Let_def)
  have "\<exists>c' out. run_handler on_inner ?c
      (px_cut port (pc\<lparr>pc_snd_nxt := pc_snd_nxt pc + of_nat (length d)\<rparr>) (d' # ds)) = Some (c', out) \<and>
      cl_done c' \<and> cl_response c' = cl_response ?c @ concat (d' # ds)"
    using 3(2-7) d by (intro 3(1)) (simp_all add: cl_data_def)
  moreover have "cl_response ?c = cl_response c @ d" using d 3(7) by (simp add: cl_data_def)
  ultimately show ?case using step by auto
qed simp

definition proxy_session ::
  "u16 \<Rightarrow> (bytes \<Rightarrow> bytes) \<Rightarrow> tcp_client \<Rightarrow> tcp_proxy \<Rightarrow> u32 \<Rightarrow> (tcp_client \<times> tcp_proxy) panics" where
  "proxy_session port fetch c s iss = do {
     (c, syn) \<leftarrow> cl_open c;
     (s, o1) \<leftarrow> proxy_handle port fetch s iss syn;
     (c, o2) \<leftarrow> run_handler on_inner c o1;
     (s, o3) \<leftarrow> run_handler (\<lambda>s p. proxy_handle port fetch s iss p) s o2;
     (c, o4) \<leftarrow> run_handler on_inner c o3;
     Some (c, s)
   }"

text \<open>
  C29. A proxied response arrives whole: whatever the LAN service answers to the request, of any
  length, the client that opened the connection ends with exactly those
  bytes, reassembled from the segments, and done.
\<close>

theorem proxied_response_delivered:
  assumes "request \<noteq> []" and "length request \<le> 65495"
  shows "\<exists>c s'. proxy_session port fetch (tcp_client_new src dst sport port request r) s iss = Some (c, s') \<and>
    cl_response c = fetch request \<and> cl_done c"
proof -
  define c2 where "c2 = (tcp_client_new src dst sport port request r)
    \<lparr>cl_snd_nxt := cl_snd_nxt (tcp_client_new src dst sport port request r) + 1 + of_nat (length request),
     cl_rcv_nxt := iss + 1, cl_established := True\<rparr>"
  define pc where "pc = \<lparr> pc_active = True, pc_client_ip = src, pc_our_ip = dst, pc_client_port = sport,
     pc_rcv_nxt = cl_snd_nxt c2, pc_snd_nxt = iss + 1, pc_fetched = True \<rparr>"
  define o3 where "o3 = px_packet port pc ACK [] #
     (if fetch request = [] then [px_packet port pc (FIN OR ACK) []] else px_cut port pc (chunks MSS (fetch request)))"
  have run: "proxy_session port fetch (tcp_client_new src dst sport port request r) s iss =
      do { (c, o4) \<leftarrow> run_handler on_inner c2 o3;
           Some (c, s\<lparr>px_conn := pc\<lparr>pc_snd_nxt := iss + 1 + of_nat (length (fetch request)) + 1\<rparr>\<rparr>) }"
    using assms
    by (simp add: proxy_session_def cl_open_def cl_segment_eq cl_packet_def px_packet_def tcp_client_new_def
        px_fed cl_fed_packet px_react_def pconn_of_syn_def px_of_client_def cl_react_def tcp_flags Let_def
        c2_def pc_def o3_def)
  have ack: "on_inner c2 (px_packet port pc ACK []) = Some (c2, [])"
    by (simp add: px_packet_def cl_fed_packet cl_react_def cl_data_def tcp_flags c2_def pc_def
        tcp_client_new_def Let_def)
  have "\<exists>c' out. run_handler on_inner c2 o3 = Some (c', out) \<and> cl_done c' \<and> cl_response c' = fetch request"
  proof (cases "fetch request = []")
    case True
    then show ?thesis
      by (simp add: o3_def ack)
        (simp add: px_packet_def cl_fed_packet cl_react_def cl_data_def tcp_flags c2_def pc_def
          tcp_client_new_def Let_def)
  next
    case False
    have "\<exists>c' out. run_handler on_inner c2 (px_cut port pc (chunks MSS (fetch request))) = Some (c', out) \<and>
        cl_done c' \<and> cl_response c' = cl_response c2 @ concat (chunks MSS (fetch request))"
      using False chunks_size
      by (intro cl_receives_cut) (auto simp: c2_def pc_def tcp_client_new_def chunks_eq_Nil_iff MSS_def)
    then show ?thesis using False ack
      by (auto simp: o3_def concat_chunks MSS_def c2_def tcp_client_new_def Let_def)
  qed
  then show ?thesis unfolding run by auto
qed

theorem proxied_response_delivered_witness:
  "\<exists>c s'. proxy_session 8080 (\<lambda>_. replicate 3000 7) (tcp_client_new 1 2 40000 8080 [71] 5) \<lparr> px_conn = pconn_default \<rparr> 9
      = Some (c, s') \<and> cl_response c = replicate 3000 7"
  using proxied_response_delivered [of "[71]" 8080 "\<lambda>_. replicate 3000 7" 1 2 40000 5 "\<lparr> px_conn = pconn_default \<rparr>" 9]
  by auto

end
