(* ===== verification/Tunnel_Traffic.thy ===== *)
theory Tunnel_Traffic
  imports Rendezvous Http_Session
begin

text \<open>
  Traffic through an established tunnel, with both ends running \<open>handle_packet\<close>. WireGuard
  pads what it carries to a multiple of 16 bytes, so that every service sees its packets with
  trailing zeros; that this changes nothing rests on each of them reading the length of the IP
  header. With that, the data plane of one node simulates the service behind it: what goes
  into the tunnel comes out at the service, and its answers come back. Shown for the device's
  own HTTP request: the ping is answered and the page of the other node arrives whole.
\<close>

subsection \<open>Padding\<close>

lemma padded: "\<exists>z. pad_loop p = p @ z"
  by (simp add: pad_loop_eq)

lemma header_padded:
  assumes "20 \<le> length p"
  shows "ihl_of (p @ z) = ihl_of p" "total_len_of (p @ z) = total_len_of p" "is_ipv4 (p @ z) = is_ipv4 p" "(p @ z) ! 9 = p ! 9"
  using assms by (simp_all add: ihl_of_def total_len_of_def is_ipv4_def nth_append)

lemma read_segment_padded:
  assumes "read_segment p = Some g"
  shows "read_segment (pad_loop p) = Some g"
proof -
  obtain z where z: "pad_loop p = p @ z" using padded by blast
  have h: "20 \<le> length p" "total_len_of p \<le> length p"
    using assms by (auto simp: read_segment_def is_ipv4_def Let_def split: if_splits)
  show ?thesis using assms h unfolding z by (simp add: read_segment_def header_padded Let_def split: if_splits)
qed

lemma not_padded:
  assumes "read_segment p = Some g"
  shows "pad_loop p \<noteq> []" "echo_reply_any (pad_loop p) = Some None" "udp_payload_to_port (pad_loop p) port = Some None"
proof -
  have r: "is_ipv4 (pad_loop p)" "pad_loop p ! 9 = PROTO_TCP"
    using read_segment_padded [OF assms] by (auto simp: read_segment_def Let_def split: if_splits)
  then show "pad_loop p \<noteq> []" by (auto simp: is_ipv4_def)
  show "echo_reply_any (pad_loop p) = Some None"
    using r by (simp add: echo_reply_any_eq is_echo_request_def is_echo_request_v6_def is_ipv4_def PROTO_TCP_def)
  show "udp_payload_to_port (pad_loop p) port = Some None"
    using r by (simp add: udp_payload_to_port_eq PROTO_TCP_def)
qed

text \<open>A source address the packet filter lets in.\<close>

definition admits :: "node_cfg \<Rightarrow> ipv4addr \<Rightarrow> bool" where
  "admits cf ip \<longleftrightarrow> (case id_allowed_srcs (cf_id cf) of None \<Rightarrow> True | Some cs \<Rightarrow> cidr_match cs ip)"

lemma admitted_padded:
  assumes "admits cf (from_be_bytes (sub p 12 16))" and "20 \<le> length p"
  shows "src_allowed (id_allowed_srcs (cf_id cf)) (pad_loop p) = Some True"
proof -
  obtain z where "pad_loop p = p @ z" using padded by blast
  then show ?thesis using assms by (simp add: src_allowed_eq admits_def split: option.splits)
qed

lemma segment_admitted:
  assumes "read_segment p = Some g" and "admits cf (seg_src g)"
  shows "src_allowed (id_allowed_srcs (cf_id cf)) (pad_loop p) = Some True"
proof (rule admitted_padded)
  show "admits cf (from_be_bytes (sub p 12 16))" "20 \<le> length p"
    using assms by (auto simp: read_segment_def is_ipv4_def Let_def split: if_splits)
qed

subsection \<open>The two ends of a tunnel\<close>

definition linked :: "tunnel \<Rightarrow> tunnel \<Rightarrow> bool" where
  "linked t u \<longleftrightarrow> tun_send_key t = tun_recv_key u \<and> tun_recv_key t = tun_send_key u \<and>
     tun_their_index t = tun_our_index u \<and> tun_our_index t = tun_their_index u \<and>
     tun_our_index t \<noteq> STUN_INDEX \<and> tun_our_index u \<noteq> STUN_INDEX"

text \<open>A datagram that the other end of \<open>u\<close> made of the inner packet \<open>p\<close>.\<close>

definition sealed_for :: "wg_crypto \<Rightarrow> tunnel \<Rightarrow> bytes \<Rightarrow> bytes \<Rightarrow> bool" where
  "sealed_for C u p w \<longleftrightarrow> (\<exists>t t'. encrypt C t p = (t', w) \<and> linked t u)"

lemma linked_counter [simp]:
  "linked (t\<lparr>tun_tx_counter := c\<rparr>) u = linked t u" "linked t (u\<lparr>tun_tx_counter := c\<rparr>) = linked t u"
  by (simp_all add: linked_def)

lemma linked_sym: "linked t u \<Longrightarrow> linked u t"
  by (auto simp: linked_def)

lemma sealed_for_counter [simp]: "sealed_for C (u\<lparr>tun_tx_counter := c\<rparr>) = sealed_for C u"
  by (simp add: sealed_for_def fun_eq_iff)

lemma encrypt_sealed:
  assumes "encrypt C t p = (t', w)" and "linked t u"
  shows "sealed_for C u p w" "linked t' u" "t' = t\<lparr>tun_tx_counter := tun_tx_counter t + 1\<rparr>"
  using assms encrypt_wire(1) [OF assms(1)] by (auto simp: sealed_for_def)

lemma encrypt_all_sealed:
  assumes "encrypt_all C t ps = (t', ws)" and "linked t u"
  shows "list_all2 (sealed_for C u) ps ws"
  using assms
proof (induction ps arbitrary: t t' ws)
  case (Cons p ps)
  obtain t1 w where 1: "encrypt C t p = (t1, w)" by fastforce
  obtain t2 ws' where 2: "encrypt_all C t1 ps = (t2, ws')" by fastforce
  show ?case using Cons.IH [OF 2 encrypt_sealed(2) [OF 1 Cons.prems(2)]] encrypt_sealed(1) [OF 1 Cons.prems(2)] Cons.prems(1) 1 2
    by auto
qed simp

lemma sealed_decrypts:
  assumes "wg_crypto_ok C" and "sealed_for C t p w"
  shows "decrypt C t w = Some (Inr (pad_loop p))"
  using assms decrypt_encrypt [OF assms(1)] by (auto simp: sealed_for_def linked_def)

lemma sealed_received:
  assumes "wg_crypto_ok (cf_wg cf)" and "map_of (st_tunnels st) i = Some e" and "tun_our_index (te_tun e) = i"
    and "sealed_for (cf_wg cf) (te_tun e) p w"
  shows "handle_packet cf rn targets st tick w src = handle_decrypted cf rn st i (pad_loop p) src"
proof -
  obtain t t' where e: "encrypt (cf_wg cf) t p = (t', w)" and l: "linked t (te_tun e)"
    using assms(4) by (auto simp: sealed_for_def)
  have i: "tun_their_index t = i" "i \<noteq> STUN_INDEX" "tun_recv_key (te_tun e) = tun_send_key t"
    using l assms(3) by (auto simp: linked_def)
  note w = encrypt_is_transport [OF e] encrypt_wire(6) [OF e]
  have "decrypt (cf_wg cf) (te_tun e) w = Some (Inr (pad_loop p))" by (rule sealed_decrypts [OF assms(1,4)])
  then show ?thesis using w i(1,2) assms(2)
    by (simp add: transport_dispatch handle_wg_transport_def rust_simps Let_def)
qed

subsection \<open>What fits the receive buffer\<close>

text \<open>
  The loop receives into 1500 bytes and handles what fits: of a longer datagram only the first 1500
  bytes arrive. An inner packet of at most 1456 bytes fits together with padding, header and tag.
\<close>

definition RECV_BUF :: nat where "RECV_BUF = 1500"
definition INNER_MAX :: nat where "INNER_MAX = 1456"

definition arrive :: "datagram list \<Rightarrow> datagram list" where
  "arrive ds = map (\<lambda>(w, a). (take RECV_BUF w, a)) ds"

lemma encrypt_length:
  assumes "wg_crypto_ok C" and "encrypt C t p = (t', w)"
  shows "length w = 32 + length (pad_loop p)"
proof -
  have "length (drop 16 w) = length (pad_loop p) + 16"
    unfolding encrypt_wire(5) [OF assms(2)] by (rule wg_lengths(7) [OF wg_crypto_ok_lengths [OF assms(1)]])
  then show ?thesis using encrypt_wire(6) [OF assms(2)] by simp
qed

lemma padded_fits: "length (pad_loop p) \<le> INNER_MAX \<longleftrightarrow> length p \<le> INNER_MAX"
proof -
  have "length (pad_loop p) < length p + 16" by (simp add: pad_loop_eq)
  moreover have "\<exists>k. length (pad_loop p) = 16 * k" using length_pad_loop(1) [of p] by auto
  ultimately show ?thesis using length_pad_loop(2) [of p] unfolding INNER_MAX_def by presburger
qed

lemma encrypt_fits:
  assumes "wg_crypto_ok C" and "encrypt C t p = (t', w)"
  shows "length w \<le> RECV_BUF \<longleftrightarrow> length p \<le> INNER_MAX"
  using encrypt_length [OF assms] padded_fits [of p] length_pad_loop(1) [of p] unfolding INNER_MAX_def RECV_BUF_def by presburger

lemma sealed_fits:
  assumes "wg_crypto_ok C" and "sealed_for C u p w"
  shows "length w \<le> RECV_BUF \<longleftrightarrow> length p \<le> INNER_MAX"
  using assms(2) encrypt_fits [OF assms(1)] by (auto simp: sealed_for_def)

lemma arrive_all:
  assumes "wg_crypto_ok C" and "list_all2 (sealed_for C u) ps ws" and "list_all (\<lambda>p. length p \<le> INNER_MAX) ps"
  shows "arrive (map (\<lambda>w. (w, a)) ws) = map (\<lambda>w. (w, a)) ws"
  using assms(2,3)
proof (induction ps ws rule: list_all2_induct)
  case (Cons p ps w ws)
  then show ?case using sealed_fits [OF assms(1) Cons(1)] by (simp add: arrive_def)
qed (simp add: arrive_def)

subsection \<open>The data plane simulates a service\<close>

text \<open>
  A service behind tunnel \<open>i\<close>: a state that can be seen in the state of the data plane and a step
  on inner packets, with the promise that the data plane takes the step when the packet comes out
  of the tunnel, and encrypts the answers into it.
\<close>

definition in_tunnel :: "(dp_state \<Rightarrow> 's \<Rightarrow> bool) \<Rightarrow> u32 \<Rightarrow> tunnel \<Rightarrow> dp_state \<Rightarrow> 's \<Rightarrow> bool" where
  "in_tunnel view i t st s \<longleftrightarrow> view st s \<and> (\<exists>e n. map_of (st_tunnels st) i = Some e \<and> te_tun e = t\<lparr>tun_tx_counter := n\<rparr>)"

locale tunnel_service =
  fixes cf :: node_cfg and rn :: packet_rand and i :: u32 and src :: socket_addr
    and step :: "'s \<Rightarrow> bytes \<Rightarrow> ('s \<times> bytes list) panics"
    and view :: "dp_state \<Rightarrow> 's \<Rightarrow> bool" and accepts :: "bytes \<Rightarrow> bool"
  assumes view_crypto: "view st s \<Longrightarrow> wg_crypto_ok (cf_wg cf)" and accepts_fits: "accepts p \<Longrightarrow> length p \<le> INNER_MAX"
    and serve: "view st s \<Longrightarrow> accepts p \<Longrightarrow> map_of (st_tunnels st) i = Some e \<Longrightarrow> step s p = Some (s', replies) \<Longrightarrow>
      encrypt_all (cf_wg cf) (te_tun e) replies = (t', ws) \<Longrightarrow>
      \<exists>st' e'. handle_decrypted cf rn st i (pad_loop p) src = Some (st', map (\<lambda>w. (w, src)) ws) \<and>
        view st' s' \<and> map_of (st_tunnels st') i = Some e' \<and> te_tun e' = t'"
begin

lemma deliver_service:
  assumes "view st s" and "map_of (st_tunnels st) i = Some e" and "tun_our_index (te_tun e) = i"
    and "list_all accepts ps" and "list_all2 (sealed_for (cf_wg cf) (te_tun e)) ps ws" and "linked (te_tun e) u"
    and "run_handler step s ps = Some (s', replies)"
  shows "\<exists>st' e' ws' c. deliver cf rn targets tick src st (map (\<lambda>w. (w, a)) ws) = Some (st', map (\<lambda>w. (w, src)) ws') \<and>
    view st' s' \<and> map_of (st_tunnels st') i = Some e' \<and> te_tun e' = (te_tun e)\<lparr>tun_tx_counter := c\<rparr> \<and>
    list_all2 (sealed_for (cf_wg cf) u) replies ws'"
  using assms
proof (induction ps arbitrary: st s e ws replies)
  case Nil
  then show ?case by (auto simp: deliver_def intro!: exI [of _ "[]"] exI [of _ "tun_tx_counter (te_tun e)"])
next
  case (Cons p ps)
  obtain w ws2 where w: "ws = w # ws2" "sealed_for (cf_wg cf) (te_tun e) p w" "list_all2 (sealed_for (cf_wg cf) (te_tun e)) ps ws2"
    using Cons.prems(5) by (auto simp: list_all2_Cons1)
  obtain s1 r1 r2 where r: "step s p = Some (s1, r1)" "run_handler step s1 ps = Some (s', r2)" "replies = r1 @ r2"
    using Cons.prems(7) by (auto split: option.splits prod.splits simp: bind_eq_Some_conv)
  obtain t' ws1 where t: "encrypt_all (cf_wg cf) (te_tun e) r1 = (t', ws1)" by fastforce
  obtain st1 e1 where 1: "handle_decrypted cf rn st i (pad_loop p) src = Some (st1, map (\<lambda>w. (w, src)) ws1)"
      "view st1 s1" "map_of (st_tunnels st1) i = Some e1" "te_tun e1 = t'"
    using serve [OF Cons.prems(1) _ Cons.prems(2) r(1) t] Cons.prems(4) by auto
  have t': "t' = (te_tun e)\<lparr>tun_tx_counter := tun_tx_counter (te_tun e) + of_nat (length r1)\<rparr>"
    by (rule encrypt_all_counters(3) [OF t])
  have h: "handle_packet cf rn targets st tick w src = Some (st1, map (\<lambda>w. (w, src)) ws1)"
    using sealed_received [OF view_crypto [OF Cons.prems(1)] Cons.prems(2,3) w(2)] 1(1) by simp
  obtain st2 e2 ws3 c where 2: "deliver cf rn targets tick src st1 (map (\<lambda>w. (w, a)) ws2) = Some (st2, map (\<lambda>w. (w, src)) ws3)"
      "view st2 s'" "map_of (st_tunnels st2) i = Some e2" "te_tun e2 = (te_tun e1)\<lparr>tun_tx_counter := c\<rparr>"
      "list_all2 (sealed_for (cf_wg cf) u) r2 ws3"
    using Cons.IH [OF 1(2,3) _ _ _ _ r(2), of ws2] Cons.prems(3,4,6) w(3) 1(4) t' by auto
  have "deliver cf rn targets tick src st (map (\<lambda>w. (w, a)) ws) = Some (st2, map (\<lambda>w. (w, src)) (ws1 @ ws3))"
    using h 2(1) by (simp add: deliver_def w(1))
  moreover have "list_all2 (sealed_for (cf_wg cf) u) replies (ws1 @ ws3)"
    using encrypt_all_sealed [OF t Cons.prems(6)] 2(5) r(3) by (auto intro: list_all2_appendI)
  moreover have "te_tun e2 = (te_tun e)\<lparr>tun_tx_counter := c\<rparr>" using 2(4) 1(4) t' by simp
  ultimately show ?case using 2(2,3) by blast
qed

lemma exchange:
  assumes "in_tunnel view i t st s" and "tun_our_index t = i" and "linked t u" and "list_all accepts ps"
    and "list_all2 (sealed_for (cf_wg cf) t) ps ws" and "run_handler step s ps = Some (s', replies)"
  shows "\<exists>st' ws'. deliver cf rn targets tick src st (arrive (map (\<lambda>w. (w, a)) ws)) = Some (st', map (\<lambda>w. (w, src)) ws') \<and>
    in_tunnel view i t st' s' \<and> list_all2 (sealed_for (cf_wg cf) u) replies ws'"
proof -
  obtain e n where e: "view st s" "map_of (st_tunnels st) i = Some e" "te_tun e = t\<lparr>tun_tx_counter := n\<rparr>"
    using assms(1) by (auto simp: in_tunnel_def)
  have "tun_our_index (te_tun e) = i" "linked (te_tun e) u" "list_all2 (sealed_for (cf_wg cf) (te_tun e)) ps ws"
    using assms(2,3,5) e(3) by simp_all
  from deliver_service [OF e(1,2) this(1) assms(4) this(3,2) assms(6), of targets tick a] e(3)
    arrive_all [OF view_crypto [OF e(1)] assms(5)] assms(4) accepts_fits
  show ?thesis by (fastforce simp: in_tunnel_def list_all_iff)
qed

end

subsection \<open>Decrypted packets that are for a service\<close>

lemma send_inner_eq:
  assumes "map_of (st_tunnels st) i = Some e" and "encrypt_all (cf_wg cf) (te_tun e) rs = (t', ws)"
  shows "send_inner cf st i src rs =
    (st\<lparr>st_tunnels := AList.update i (e\<lparr>te_tun := t'\<rparr>) (st_tunnels st)\<rparr>, map (\<lambda>w. (w, src)) ws)"
  using assms by (simp add: send_inner_def)

lemma handle_decrypted_open:
  assumes "map_of (st_tunnels st) i = Some e" and "p \<noteq> []"
    and "src_allowed (id_allowed_srcs (cf_id cf)) p = Some True" and "udp_payload_to_port p FWD_PORT = Some None"
  shows "handle_decrypted cf rn st i p src = (let st = st\<lparr>st_tunnels := AList.update i (e\<lparr>te_addr := src\<rparr>) (st_tunnels st)\<rparr> in do {
     (st, out, handled) \<leftarrow> (if ft_outbound (cf_features cf) \<and> is_outbound_target st (e\<lparr>te_addr := src\<rparr>)
                            then outbound_replies cf st i p src else Some (st, [], False));
     if handled then Some (st, out) else do {
     (st, out') \<leftarrow> serve_inner cf rn st i p src;
     Some (st, out @ out') }})"
  using assms by (simp add: handle_decrypted_def Let_def)

definition not_owned :: "dp_state \<Rightarrow> bytes \<Rightarrow> bool" where
  "not_owned st p \<longleftrightarrow> pred_option (\<lambda>ob. pred_option (\<lambda>c. \<not> cl_addressed (cl_sport c) p) (ob_tcp ob)) (st_outbound st)"

lemma outbound_not_owned: "not_owned st p \<Longrightarrow> outbound_replies cf st i p src = Some (st, [], False)"
  by (auto simp: outbound_replies_def not_owned_def owns_eq split: option.split)

lemma same_proxy: "(st :: dp_state)\<lparr>st_proxy := st_proxy st\<rparr> = st"
  by simp

text \<open>The page server takes what is for port 80 and not for another service.\<close>

lemma serve_page:
  assumes "map_of (st_tunnels st) i = Some e" and "echo_reply_any p = Some None"
    and "ft_tcp_proxy (cf_features cf) \<longrightarrow> for_port (cf_proxy_port cf) p = None"
    and "ft_http_server (cf_features cf)" and "handle (te_tcp e) (rn_iss rn) p = Some (srv, rs)"
    and "encrypt_all (cf_wg cf) (te_tun e) rs = (t', ws)"
  shows "serve_inner cf rn st i p src = Some (st\<lparr>st_tunnels := AList.update i (e\<lparr>te_tcp := srv, te_tun := t'\<rparr>)
    (AList.update i (e\<lparr>te_tcp := srv\<rparr>) (st_tunnels st))\<rparr>, map (\<lambda>w. (w, src)) ws)"
proof -
  have "send_inner cf (st\<lparr>st_tunnels := AList.update i (e\<lparr>te_tcp := srv\<rparr>) (st_tunnels st)\<rparr>) i src rs =
    (st\<lparr>st_tunnels := AList.update i (e\<lparr>te_tcp := srv, te_tun := t'\<rparr>) (AList.update i (e\<lparr>te_tcp := srv\<rparr>) (st_tunnels st))\<rparr>, map (\<lambda>w. (w, src)) ws)"
    using send_inner_eq [of "st\<lparr>st_tunnels := AList.update i (e\<lparr>te_tcp := srv\<rparr>) (st_tunnels st)\<rparr>" i "e\<lparr>te_tcp := srv\<rparr>" cf rs t' ws src] assms(6)
    by (simp add: update_conv')
  then show ?thesis using assms(1-5) by (simp add: serve_inner_def proxy_handle_eq Let_def)
qed

lemma serve_echo:
  assumes "map_of (st_tunnels st) i = Some e" and "ft_icmp (cf_features cf)" and "echo_reply_any p = Some (Some r)"
    and "encrypt_all (cf_wg cf) (te_tun e) [r] = (t', ws)"
  shows "serve_inner cf rn st i p src = Some (st\<lparr>st_tunnels := AList.update i (e\<lparr>te_tun := t'\<rparr>) (st_tunnels st)\<rparr>, map (\<lambda>w. (w, src)) ws)"
  using send_inner_eq [OF assms(1,4)] assms(2,3) by (simp add: serve_inner_def)

lemma echo_request_padded:
  assumes "is_echo_request p"
  shows "is_echo_request (pad_loop p)" "reply_v4 (pad_loop p) = reply_v4 p" "read_segment p = None" "read_segment (pad_loop p) = None"
    "\<not> cl_addressed port (pad_loop p)" "udp_payload_to_port (pad_loop p) fwd = Some None" "20 \<le> length p" "pad_loop p \<noteq> []"
proof -
  obtain z where z: "pad_loop p = p @ z" using padded by blast
  have p: "is_ipv4 p" "20 \<le> ihl_of p" "ihl_of p + 8 \<le> total_len_of p" "total_len_of p \<le> length p" "p ! 9 = 1" "p ! ihl_of p = 8" "20 \<le> length p"
    using assms by (auto simp: is_echo_request_def is_ipv4_def)
  note h = header_padded [OF p(7)]
  show q: "is_echo_request (pad_loop p)" unfolding z using p by (simp add: is_echo_request_def h nth_append)
  show "reply_v4 (pad_loop p) = reply_v4 p" unfolding z using p by (simp add: reply_v4_def h)
  show "read_segment p = None" "read_segment (pad_loop p) = None" "\<not> cl_addressed port (pad_loop p)"
      "udp_payload_to_port (pad_loop p) fwd = Some None"
    using p(5) h(4) unfolding z by (simp_all add: read_segment_def cl_addressed_def udp_payload_to_port_eq PROTO_TCP_def Let_def)
  show "20 \<le> length p" by (rule p(7))
  then show "pad_loop p \<noteq> []" unfolding z by auto
qed

subsection \<open>The node that is visited\<close>

definition web_view :: "node_cfg \<Rightarrow> u32 \<Rightarrow> dp_state \<Rightarrow> tcp_server \<Rightarrow> bool" where
  "web_view cf i st srv \<longleftrightarrow> wg_crypto_ok (cf_wg cf) \<and> ft_icmp (cf_features cf) \<and> ft_http_server (cf_features cf) \<and>
     (ft_tcp_proxy (cf_features cf) \<longrightarrow> cf_proxy_port cf \<noteq> HTTP_PORT) \<and>
     pred_option (\<lambda>ob. pred_option (\<lambda>c. cl_sport c \<noteq> HTTP_PORT) (ob_tcp ob)) (st_outbound st) \<and>
     (\<exists>e. map_of (st_tunnels st) i = Some e \<and> te_tcp e = srv)"

definition web_step :: "u32 \<Rightarrow> tcp_server \<Rightarrow> bytes \<Rightarrow> (tcp_server \<times> bytes list) panics" where
  "web_step iss srv p = do {
     r \<leftarrow> echo_reply_any p;
     case r of Some reply \<Rightarrow> Some (srv, [reply]) | None \<Rightarrow> handle srv iss p }"

definition web_accepts :: "node_cfg \<Rightarrow> bytes \<Rightarrow> bool" where
  "web_accepts cf p \<longleftrightarrow> length p \<le> INNER_MAX \<and> admits cf (from_be_bytes (sub p 12 16)) \<and>
     ((\<exists>g. read_segment p = Some g \<and> seg_dport g = HTTP_PORT) \<or> is_echo_request p)"

lemma segment_length: "read_segment p = Some g \<Longrightarrow> 20 \<le> length p"
  by (auto simp: read_segment_def is_ipv4_def Let_def split: if_splits)

lemma segment_not_echo: "read_segment p = Some g \<Longrightarrow> echo_reply_any p = Some None"
  by (auto simp: read_segment_def echo_reply_any_eq is_echo_request_def is_echo_request_v6_def is_ipv4_def PROTO_TCP_def Let_def
      split: if_splits)

lemma segment_owner: "read_segment p = Some g \<Longrightarrow> cl_addressed port p \<longleftrightarrow> port = seg_dport g"
  using cl_read_segment(2) [of p g] by (auto simp: cl_addressed_def)

lemma handled_open:
  assumes "map_of (st_tunnels st) i = Some e" and "p \<noteq> []"
    and "src_allowed (id_allowed_srcs (cf_id cf)) p = Some True" and "udp_payload_to_port p FWD_PORT = Some None"
    and "not_owned st p"
  shows "handle_decrypted cf rn st i p src =
    serve_inner cf rn (st\<lparr>st_tunnels := AList.update i (e\<lparr>te_addr := src\<rparr>) (st_tunnels st)\<rparr>) i p src"
proof -
  have "not_owned (st\<lparr>st_tunnels := ts\<rparr>) p" for ts using assms(5) by (simp add: not_owned_def)
  then show ?thesis
    unfolding handle_decrypted_open [OF assms(1-4)] Let_def
    by (cases "serve_inner cf rn (st\<lparr>st_tunnels := AList.update i (e\<lparr>te_addr := src\<rparr>) (st_tunnels st)\<rparr>) i p src")
      (simp_all add: outbound_not_owned split_beta)
qed

interpretation web: tunnel_service cf rn i src "web_step (rn_iss rn)" "web_view cf i" "web_accepts cf" for cf rn i src
proof
  fix st srv p e srv' rs t' ws
  assume v: "web_view cf i st srv" and a: "web_accepts cf p" and m: "map_of (st_tunnels st) i = Some e"
    and r: "web_step (rn_iss rn) srv p = Some (srv', rs)" and t: "encrypt_all (cf_wg cf) (te_tun e) rs = (t', ws)"
  define st1 where "st1 = st\<lparr>st_tunnels := AList.update i (e\<lparr>te_addr := src\<rparr>) (st_tunnels st)\<rparr>"
  have m1: "map_of (st_tunnels st1) i = Some (e\<lparr>te_addr := src\<rparr>)" by (simp add: st1_def update_conv')
  have srv: "te_tcp e = srv" using v m by (simp add: web_view_def)
  show "\<exists>st' e'. handle_decrypted cf rn st i (pad_loop p) src = Some (st', map (\<lambda>w. (w, src)) ws) \<and>
      web_view cf i st' srv' \<and> map_of (st_tunnels st') i = Some e' \<and> te_tun e' = t'"
  proof (cases "is_echo_request p")
    case True
    note q = echo_request_padded [OF True]
    have rs: "srv' = srv" "rs = [reply_v4 p]" using r True by (simp_all add: web_step_def echo_reply_any_eq)
    have "not_owned st (pad_loop p)" using q(5) by (simp add: not_owned_def option.pred_True)
    from handled_open [OF m q(8) _ q(6) this]
    have "handle_decrypted cf rn st i (pad_loop p) src = serve_inner cf rn st1 i (pad_loop p) src"
      using admitted_padded [OF _ q(7)] a by (simp add: web_accepts_def st1_def)
    also have "\<dots> = Some (st1\<lparr>st_tunnels := AList.update i (e\<lparr>te_addr := src, te_tun := t'\<rparr>) (st_tunnels st1)\<rparr>, map (\<lambda>w. (w, src)) ws)"
      using serve_echo [OF m1, of cf "pad_loop p" "reply_v4 p" t' ws rn src] v t q(1,2) rs by (simp add: web_view_def echo_reply_any_eq)
    finally show ?thesis using v rs srv by (auto simp: web_view_def update_conv' st1_def)
  next
    case False
    then obtain g where g: "read_segment p = Some g" "seg_dport g = HTTP_PORT" using a by (auto simp: web_accepts_def)
    note g' = read_segment_padded [OF g(1)] and n = not_padded [OF g(1)]
    have h: "handle (te_tcp (e\<lparr>te_addr := src\<rparr>)) (rn_iss rn) (pad_loop p) = Some (srv', rs)"
      using r segment_not_echo [OF g(1)] srv g g' by (simp add: web_step_def handle_eq for_port_def)
    have fp: "ft_tcp_proxy (cf_features cf) \<longrightarrow> for_port (cf_proxy_port cf) (pad_loop p) = None"
      using v g(2) g' by (auto simp: web_view_def for_port_def)
    have "not_owned st (pad_loop p)"
      using v segment_owner [OF g'] g(2) by (auto simp: web_view_def not_owned_def option.pred_set)
    from handled_open [OF m n(1) _ n(3) this]
    have "handle_decrypted cf rn st i (pad_loop p) src = serve_inner cf rn st1 i (pad_loop p) src"
      using admitted_padded [OF _ segment_length [OF g(1)]] a by (simp add: web_accepts_def st1_def)
    also have "\<dots> = Some (st1\<lparr>st_tunnels := AList.update i (e\<lparr>te_addr := src, te_tcp := srv', te_tun := t'\<rparr>)
        (AList.update i (e\<lparr>te_addr := src, te_tcp := srv'\<rparr>) (st_tunnels st1))\<rparr>, map (\<lambda>w. (w, src)) ws)"
      using serve_page [OF m1 n(2) fp _ h, of t' ws src] v t by (simp add: web_view_def)
    finally show ?thesis using v by (auto simp: web_view_def update_conv' st1_def)
  qed
qed (simp_all add: web_view_def web_accepts_def)

subsection \<open>The node that visits\<close>

definition client_view :: "node_cfg \<Rightarrow> u32 \<Rightarrow> u16 \<Rightarrow> dp_state \<Rightarrow> tcp_client \<Rightarrow> bool" where
  "client_view cf i port st c \<longleftrightarrow> wg_crypto_ok (cf_wg cf) \<and> ft_outbound (cf_features cf) \<and> port \<noteq> HTTP_PORT \<and>
     (ft_tcp_proxy (cf_features cf) \<longrightarrow> cf_proxy_port cf \<noteq> port) \<and> cl_sport c = port \<and>
     (\<exists>ob e. st_outbound st = Some ob \<and> ob_tcp ob = Some c \<and> ob_http_done ob = cl_done c \<and>
        map_of (st_tunnels st) i = Some e \<and> te_peer_node e = oc_target_node (ob_cfg ob))"

text \<open>Segments for the client's port, and ICMP packets that are not echo requests.\<close>

definition client_accepts :: "node_cfg \<Rightarrow> u16 \<Rightarrow> bytes \<Rightarrow> bool" where
  "client_accepts cf port p \<longleftrightarrow> length p \<le> INNER_MAX \<and> admits cf (from_be_bytes (sub p 12 16)) \<and>
     ((\<exists>g. read_segment p = Some g \<and> seg_dport g = port) \<or>
      is_ipv4 p \<and> p ! 9 = 1 \<and> ihl_of p < length p \<and> p ! ihl_of p \<noteq> 8)"

lemma serve_nothing:
  assumes "map_of (st_tunnels st) i = Some e" and "echo_reply_any p = Some None"
    and "ft_tcp_proxy (cf_features cf) \<longrightarrow> for_port (cf_proxy_port cf) p = None" and "for_port HTTP_PORT p = None"
  shows "\<exists>ts. serve_inner cf rn st i p src = Some (st\<lparr>st_tunnels := ts\<rparr>, []) \<and> map_of ts i = Some e"
proof (cases "ft_http_server (cf_features cf)")
  case True
  have "handle (te_tcp e) (rn_iss rn) p = Some (te_tcp e, [])" using assms(4) by (simp add: handle_eq)
  from serve_page [OF assms(1-3) True this, of "te_tun e" "[]"] show ?thesis by (auto simp: update_conv')
next
  case False
  have "serve_inner cf rn st i p src = Some (st\<lparr>st_tunnels := st_tunnels st\<rparr>, [])"
    using False assms by (simp add: serve_inner_def proxy_handle_eq)
  then show ?thesis using assms(1) by blast
qed

lemma client_keeps: "on_inner c p = Some (c', rs) \<Longrightarrow> cl_sport c' = cl_sport c \<and> (cl_done c \<longrightarrow> cl_done c')"
  by (auto simp: on_inner_eq cl_react_def cl_data_def Let_def split: if_splits option.splits prod.splits)

interpretation visitor: tunnel_service cf rn i src on_inner "client_view cf i port" "client_accepts cf port" for cf rn i src port
proof
  fix st c p e c' rs t' ws
  assume v: "client_view cf i port st c" and a: "client_accepts cf port p" and m: "map_of (st_tunnels st) i = Some e"
    and r: "on_inner c p = Some (c', rs)" and t: "encrypt_all (cf_wg cf) (te_tun e) rs = (t', ws)"
  define e1 where "e1 = e\<lparr>te_addr := src\<rparr>"
  define st1 where "st1 = st\<lparr>st_tunnels := AList.update i e1 (st_tunnels st)\<rparr>"
  have m1: "map_of (st_tunnels st1) i = Some e1" by (simp add: st1_def update_conv')
  obtain ob where ob: "st_outbound st = Some ob" "ob_tcp ob = Some c" "ob_http_done ob = cl_done c"
      "te_peer_node e = oc_target_node (ob_cfg ob)" and port: "cl_sport c = port" "port \<noteq> HTTP_PORT"
    using v m by (auto simp: client_view_def)
  have view: "client_view cf i port (st\<lparr>st_outbound := Some (ob\<lparr>ob_tcp := Some c', ob_http_done := cl_done c'\<rparr>), st_tunnels := ts\<rparr>) c'"
    if "map_of ts i = Some e'" "te_peer_node e' = te_peer_node e" for ts e'
    using v that ob(4) client_keeps [OF r] by (simp add: client_view_def)
  show "\<exists>st' e'. handle_decrypted cf rn st i (pad_loop p) src = Some (st', map (\<lambda>w. (w, src)) ws) \<and>
      client_view cf i port st' c' \<and> map_of (st_tunnels st') i = Some e' \<and> te_tun e' = t'"
  proof (cases "read_segment p")
    case (Some g)
    then have g: "read_segment p = Some g" "seg_dport g = port" using a by (auto simp: client_accepts_def read_segment_def PROTO_TCP_def Let_def split: if_splits)
    note g' = read_segment_padded [OF g(1)] and n = not_padded [OF g(1)]
    have own: "cl_addressed (cl_sport c) (pad_loop p)" using segment_owner [OF g'] g(2) port by simp
    have r': "on_inner c (pad_loop p) = Some (c', rs)"
      using r own segment_owner [OF g(1)] cl_read_segment(1) [OF g(1)] cl_read_segment(1) [OF g'] g(2) port
      by (simp add: on_inner_eq split: if_splits)
    define st2 where "st2 = st1\<lparr>st_outbound := Some (ob\<lparr>ob_tcp := Some c', ob_http_done := cl_done c'\<rparr>)\<rparr>"
    define ts where "ts = AList.update i (e1\<lparr>te_tun := t'\<rparr>) (st_tunnels st2)"
    have dn: "(ob_http_done ob \<or> cl_done c' \<and> \<not> ob_http_done ob) = cl_done c'" using client_keeps [OF r] ob(3) by auto
    have "send_inner cf st2 i src rs = (st2\<lparr>st_tunnels := ts\<rparr>, map (\<lambda>w. (w, src)) ws)"
      unfolding ts_def by (rule send_inner_eq) (use m1 t in \<open>simp_all add: st2_def e1_def\<close>)
    then have o: "outbound_replies cf st1 i (pad_loop p) src =
        Some (st2\<lparr>st_tunnels := ts\<rparr>, map (\<lambda>w. (w, src)) ws, rs \<noteq> [] \<or> cl_done c' \<and> \<not> ob_http_done ob)"
      using ob own r' dn by (simp add: outbound_replies_def owns_eq st1_def st2_def Let_def)
    have tgt: "ft_outbound (cf_features cf) \<and> is_outbound_target st1 e1"
      using v ob by (simp add: client_view_def is_outbound_target_def st1_def e1_def)
    have adm: "src_allowed (id_allowed_srcs (cf_id cf)) (pad_loop p) = Some True"
      using admitted_padded [OF _ segment_length [OF g(1)]] a by (simp add: client_accepts_def)
    have hd: "handle_decrypted cf rn st i (pad_loop p) src =
       (if rs \<noteq> [] \<or> cl_done c' \<and> \<not> ob_http_done ob then Some (st2\<lparr>st_tunnels := ts\<rparr>, map (\<lambda>w. (w, src)) ws)
        else do { (st, out') \<leftarrow> serve_inner cf rn (st2\<lparr>st_tunnels := ts\<rparr>) i (pad_loop p) src; Some (st, map (\<lambda>w. (w, src)) ws @ out') })"
      unfolding handle_decrypted_open [OF m n(1) adm n(3)] Let_def e1_def [symmetric] st1_def [symmetric] using tgt o by simp
    have mt: "map_of ts i = Some (e1\<lparr>te_tun := t'\<rparr>)" by (simp add: ts_def update_conv')
    show ?thesis
    proof (cases "rs \<noteq> [] \<or> cl_done c' \<and> \<not> ob_http_done ob")
      case True
      then show ?thesis using hd view [OF mt] mt by (auto simp: st2_def st1_def e1_def)
    next
      case False
      obtain ts' where "serve_inner cf rn (st2\<lparr>st_tunnels := ts\<rparr>) i (pad_loop p) src = Some (st2\<lparr>st_tunnels := ts'\<rparr>, [])"
          "map_of ts' i = Some (e1\<lparr>te_tun := t'\<rparr>)"
        using serve_nothing [of "st2\<lparr>st_tunnels := ts\<rparr>" i "e1\<lparr>te_tun := t'\<rparr>" "pad_loop p" cf rn src] mt n(2) v g(2) g' port(2)
        by (auto simp: for_port_def client_view_def)
      then show ?thesis using hd False view [of ts'] by (auto simp: st2_def st1_def e1_def)
    qed
  next
    case None
    then have q: "is_ipv4 p" "p ! 9 = 1" "ihl_of p < length p" "p ! ihl_of p \<noteq> 8" "20 \<le> length p"
      using a by (auto simp: client_accepts_def is_ipv4_def)
    obtain z where z: "pad_loop p = p @ z" using padded by blast
    note h = header_padded [OF q(5), of z, folded z]
    have k: "read_segment (pad_loop p) = None" "echo_reply_any (pad_loop p) = Some None" "\<not> cl_addressed port (pad_loop p)"
      "udp_payload_to_port (pad_loop p) FWD_PORT = Some None" "\<not> cl_addressed port p"
      using q h by (simp_all add: read_segment_def echo_reply_any_eq is_echo_request_def is_echo_request_v6_def is_ipv4_def
          cl_addressed_def udp_payload_to_port_eq PROTO_TCP_def Let_def, simp_all add: z nth_append)
    have c: "c' = c" "rs = []" "t' = te_tun e" "ws = []" using r k(5) port t by (auto simp: on_inner_eq)
    have "not_owned st (pad_loop p)" using ob(1,2) k(3) port by (simp add: not_owned_def)
    moreover have "src_allowed (id_allowed_srcs (cf_id cf)) (pad_loop p) = Some True"
      using admitted_padded [OF _ q(5)] a by (simp add: client_accepts_def)
    moreover have "pad_loop p \<noteq> []" using q(5) by (auto simp: z)
    ultimately have hd: "handle_decrypted cf rn st i (pad_loop p) src = serve_inner cf rn st1 i (pad_loop p) src"
      unfolding st1_def e1_def by (intro handled_open [OF m _ _ k(4)])
    obtain ts where ts: "serve_inner cf rn st1 i (pad_loop p) src = Some (st1\<lparr>st_tunnels := ts\<rparr>, [])" "map_of ts i = Some e1"
      using serve_nothing [OF m1 k(2), of cf rn src] k(1) by (auto simp: for_port_def)
    have "client_view cf i port (st1\<lparr>st_tunnels := ts\<rparr>) c'" using v ts(2) ob c by (simp add: client_view_def st1_def e1_def)
    then show ?thesis using hd ts c by (auto simp: e1_def)
  qed
qed (simp_all add: client_view_def client_accepts_def)

subsection \<open>The session\<close>

text \<open>A packet of a connection, and what the two views make of it.\<close>

definition between :: "ipv4addr \<Rightarrow> u16 \<Rightarrow> ipv4addr \<Rightarrow> u16 \<Rightarrow> bytes \<Rightarrow> bool" where
  "between src sport dst dport p \<longleftrightarrow> (\<exists>sq ack fl pl. length pl \<le> 1416 \<and> p = tcp_packet src dst sport dport sq ack fl pl)"

lemma between_tcp: "length pl \<le> 1416 \<Longrightarrow> between src sport dst dport (tcp_packet src dst sport dport sq ack fl pl)"
  by (auto simp: between_def)

lemma between_segment:
  assumes "between src sport dst dport p"
  shows "\<exists>g. read_segment p = Some g \<and> seg_dport g = dport \<and> seg_src g = src" and "from_be_bytes (sub p 12 16) = src"
    and "length p \<le> INNER_MAX"
proof -
  obtain sq ack fl pl where pl: "length pl \<le> 1416" "segment_ok p src dst sport dport sq ack fl pl"
  proof -
    obtain sq ack fl pl where b: "length pl \<le> 1416" "p = tcp_packet src dst sport dport sq ack fl pl"
      using assms by (auto simp: between_def)
    from that [OF b(1)] show thesis using tcp_packet_ok [of pl src dst sport dport sq ack fl] b by simp
  qed
  then obtain g where g: "read_segment p = Some g" "seg_dport g = dport" "seg_src g = src"
    by (auto simp: segment_ok_def)
  show "length p \<le> INNER_MAX" using pl by (simp add: segment_ok_def INNER_MAX_def)
  from g show "\<exists>g. read_segment p = Some g \<and> seg_dport g = dport \<and> seg_src g = src" by blast
  show "from_be_bytes (sub p 12 16) = src" using g by (auto simp: read_segment_def Let_def split: if_splits)
qed

lemma between_accepted:
  "between src sport dst HTTP_PORT p \<Longrightarrow> admits cf src \<Longrightarrow> web_accepts cf p"
  "between src sport dst port p \<Longrightarrow> admits cf src \<Longrightarrow> client_accepts cf port p"
  using between_segment [of src sport dst] by (fastforce simp: web_accepts_def client_accepts_def)+

lemma between_web: "between src sport dst dport p \<Longrightarrow> web_step iss s p = handle s iss p"
  using between_segment(1) segment_not_echo by (fastforce simp: web_step_def)

lemma run_web:
  "list_all (between src sport dst dport) ps \<Longrightarrow> run_handler (web_step iss) s ps = run_handler (\<lambda>s p. handle s iss p) s ps"
proof (induction ps arbitrary: s)
  case (Cons p ps)
  then have "web_step iss s p = handle s iss p" "\<And>s. run_handler (web_step iss) s ps = run_handler (\<lambda>s p. handle s iss p) s ps"
    by (auto simp: between_web)
  then show ?case by simp
qed simp

lemma page_rounds:
  assumes "request \<noteq> []" and "length request \<le> 1416"
  shows "\<exists>c1 syn s1 o1 c2 o2 s2 o3 c3 o4 s3 o5 c4.
    cl_open (tcp_client_new src dst sport HTTP_PORT request r) = Some (c1, syn) \<and> between src sport dst HTTP_PORT syn \<and>
    handle s iss syn = Some (s1, o1) \<and> list_all (between dst HTTP_PORT src sport) o1 \<and>
    run_handler on_inner c1 o1 = Some (c2, o2) \<and> list_all (between src sport dst HTTP_PORT) o2 \<and>
    run_handler (\<lambda>s p. handle s iss p) s1 o2 = Some (s2, o3) \<and> list_all (between dst HTTP_PORT src sport) o3 \<and>
    run_handler on_inner c2 o3 = Some (c3, o4) \<and> list_all (between src sport dst HTTP_PORT) o4 \<and>
    run_handler (\<lambda>s p. handle s iss p) s2 o4 = Some (s3, o5) \<and> list_all (between dst HTTP_PORT src sport) o5 \<and>
    run_handler on_inner c3 o5 = Some (c4, []) \<and>
    cl_sport c1 = sport \<and> \<not> cl_done c1 \<and> cl_response c4 = http_response (page dst) \<and> cl_done c4 \<and> srv_conn s3 = conn_default"
proof -
  have resp: "length (http_response (page dst)) \<le> 1416" using length_http_response [of dst] by simp
  show ?thesis
    using assms resp
    by (simp add: cl_open_def cl_segment_eq cl_packet_def conn_packet_def tcp_client_new_def
        srv_fed cl_fed_packet cl_done_ignores react_def conn_of_syn_def of_client_def cl_react_def cl_data_def
        tcp_flags Let_def between_tcp)
qed

text \<open>The answer to our ping: from the target to us, of type 0, with our identifier, sequence number and payload.\<close>

definition echo_answer :: "ipv4addr \<Rightarrow> ipv4addr \<Rightarrow> u16 \<Rightarrow> u16 \<Rightarrow> bytes \<Rightarrow> bytes \<Rightarrow> bool" where
  "echo_answer src dst ident sq payload r \<longleftrightarrow>
     sub r 12 16 = to_be_bytes dst \<and> sub r 16 20 = to_be_bytes src \<and> r ! 9 = 1 \<and> r ! 20 = 0 \<and>
     sub r 24 (length r) = to_be_bytes ident @ to_be_bytes sq @ payload \<and>
     icmp_checksum (sub r 0 20) = 0 \<and> icmp_checksum (sub r 20 (length r)) = 0"

lemma ping_and_reply:
  assumes "length payload \<le> 65507"
  shows "\<exists>req r. icmp_echo_request src dst ident sq payload = Some req \<and> is_echo_request req \<and> echo_reply_any req = Some (Some r) \<and>
    echo_answer src dst ident sq payload r \<and>
    from_be_bytes (sub req 12 16) = src \<and> from_be_bytes (sub r 12 16) = dst \<and>
    is_ipv4 r \<and> r ! 9 = 1 \<and> ihl_of r < length r \<and> r ! ihl_of r \<noteq> 8 \<and> length req = 28 + length payload \<and> length r \<le> length req"
proof -
  obtain req r where a: "icmp_echo_request src dst ident sq payload = Some req" "echo_reply_any req = Some (Some r)"
      "sub r 12 16 = to_be_bytes dst" "sub r 16 20 = to_be_bytes src" "r ! 20 = 0"
      "sub r 24 (length r) = to_be_bytes ident @ to_be_bytes sq @ payload"
      "icmp_checksum (sub r 0 20) = 0" "icmp_checksum (sub r 20 (length r)) = 0"
    using ping_is_answered [OF assms] by blast
  have len: "length req = 28 + length payload" using a(1) by (auto simp: icmp_request_layout Let_def)
  have "req ! 0 = 0x45" using a(1) by (auto simp: icmp_request_layout Let_def nth_append ip_header_fields)
  then have "\<not> is_echo_request_v6 req" by (simp add: is_echo_request_v6_def)
  with a(2) have q: "is_echo_request req" "r = reply_v4 req" by (auto simp: echo_reply_any_eq split: if_splits)
  note f = reply_v4_frame [OF q(1), folded q(2)]
  have h: "20 \<le> ihl_of req" "ihl_of req + 8 \<le> total_len_of req" "total_len_of req \<le> length req" "req ! 9 = 1" "drop_bit 4 (req ! 0) = 4"
    using q(1) by (auto simp: is_echo_request_def is_ipv4_def)
  have k: "sub r 0 10 ! k = sub req 0 10 ! k" for k using f(2) by simp
  have b: "r ! 0 = req ! 0" "r ! 9 = req ! 9" using k [of 0] k [of 9] f(1) h by simp_all
  have "from_be_bytes (sub req 12 16) = src" unfolding f(4) [symmetric] a(4) by (rule bytes_roundtrip)
  moreover have "ihl_of r = ihl_of req" using b(1) by (simp add: ihl_of_def)
  moreover have "echo_answer src dst ident sq payload r" using a(3-8) b(2) h(4) by (simp add: echo_answer_def)
  ultimately show ?thesis using a(1-3) q(1) b f(1,6) h len by (auto simp: bytes_roundtrip is_ipv4_def)
qed

text \<open>A round trip: what A has sent is served by B, and A's client reads the answers.\<close>

lemma round_trip:
  assumes "cf_wg B = cf_wg A" and "linked tA tB" and "tun_our_index tA = i" and "tun_our_index tB = j"
    and "in_tunnel (client_view A i port) i tA stA c" and "in_tunnel (web_view B j) j tB stB s"
    and "list_all2 (sealed_for (cf_wg A) tB) ps ws" and "list_all (web_accepts B) ps"
    and "run_handler (web_step (rn_iss rB)) s ps = Some (s', qs)" and "list_all (client_accepts A port) qs"
    and "run_handler on_inner c qs = Some (c', ps')"
  shows "\<exists>stA' stB' wsB ws'. deliver B rB targetsB tickB addrA stB (arrive (map (\<lambda>w. (w, a)) ws)) = Some (stB', map (\<lambda>w. (w, addrA)) wsB) \<and>
    deliver A rA targetsA tickA addrB stA (arrive (map (\<lambda>w. (w, addrA)) wsB)) = Some (stA', map (\<lambda>w. (w, addrB)) ws') \<and>
    in_tunnel (client_view A i port) i tA stA' c' \<and> in_tunnel (web_view B j) j tB stB' s' \<and>
    list_all2 (sealed_for (cf_wg A) tA) qs wsB \<and> list_all2 (sealed_for (cf_wg A) tB) ps' ws'"
proof -
  obtain stB' wsB where b: "deliver B rB targetsB tickB addrA stB (arrive (map (\<lambda>w. (w, a)) ws)) = Some (stB', map (\<lambda>w. (w, addrA)) wsB)"
      "in_tunnel (web_view B j) j tB stB' s'" "list_all2 (sealed_for (cf_wg A) tA) qs wsB"
    using web.exchange [OF assms(6,4) linked_sym [OF assms(2)] assms(8) _ assms(9), of ws targetsB tickB addrA a] assms(1,7) by auto
  show ?thesis using visitor.exchange [OF assms(5,3,2,10) b(3) assms(11), of rA targetsA tickA addrB addrA] b by blast
qed

text \<open>The outbound traffic of A is started by a tick, and all replies travel until nobody has anything to send.\<close>

definition fetch_session ::
  "node_cfg \<Rightarrow> node_cfg \<Rightarrow> target list \<Rightarrow> target list \<Rightarrow> u32 \<Rightarrow> u32 \<Rightarrow> socket_addr \<Rightarrow> socket_addr \<Rightarrow> periodic_rand \<Rightarrow>
   packet_rand \<Rightarrow> packet_rand \<Rightarrow> dp_state \<Rightarrow> dp_state \<Rightarrow> (dp_state \<times> dp_state \<times> datagram list) panics" where
  "fetch_session A B targetsA targetsB tickA tickB addrA addrB pr rA rB stA stB = do {
     (stA, o0) \<leftarrow> outbound_tick A pr stA;
     (stB, o1) \<leftarrow> deliver B rB targetsB tickB addrA stB (arrive o0);
     (stA, o2) \<leftarrow> deliver A rA targetsA tickA addrB stA (arrive o1);
     (stB, o3) \<leftarrow> deliver B rB targetsB tickB addrA stB (arrive o2);
     (stA, o4) \<leftarrow> deliver A rA targetsA tickA addrB stA (arrive o3);
     (stB, o5) \<leftarrow> deliver B rB targetsB tickB addrA stB (arrive o4);
     (stA, o6) \<leftarrow> deliver A rA targetsA tickA addrB stA (arrive o5);
     Some (stA, stB, o6)
   }"

lemma tick_starts:
  assumes "dp_inv st" and "st_outbound st = Some ob" and "\<not> ob_started ob"
    and "List.find (\<lambda>(i, e). te_peer_node e = oc_target_node (ob_cfg ob)) (st_tunnels st) = Some (i, e)"
    and "icmp_echo_request (oc_our_ip (ob_cfg ob)) (oc_target_ip (ob_cfg ob)) (ob_icmp_ident ob) (ob_icmp_seq ob + 1) (ascii ''tdongle-s3'') = Some req"
    and "cl_open (tcp_client_new (oc_our_ip (ob_cfg ob)) (oc_target_ip (ob_cfg ob)) (ob_sport ob) (oc_http_port (ob_cfg ob))
      (http_get_request (ob_cfg ob)) (pr_client pr)) = Some (c, syn)" and "linked (te_tun e) u"
  shows "\<exists>ws e' st' n. outbound_tick cf pr st = Some (st', map (\<lambda>w. (w, te_addr e)) ws) \<and>
    list_all2 (sealed_for (cf_wg cf) u) [req, syn] ws \<and> map_of (st_tunnels st') i = Some e' \<and>
    te_tun e' = (te_tun e)\<lparr>tun_tx_counter := n\<rparr> \<and> te_peer_node e' = oc_target_node (ob_cfg ob) \<and>
    st_outbound st' = Some (ob\<lparr>ob_icmp_seq := ob_icmp_seq ob + 1, ob_started := True, ob_tcp := Some c\<rparr>)"
proof -
  have e: "te_peer_node e = oc_target_node (ob_cfg ob)" using find_SomeD [OF assms(4)] by simp
  obtain t1 w where 1: "encrypt (cf_wg cf) (te_tun e) req = (t1, w)" by fastforce
  obtain t2 w' where 2: "encrypt (cf_wg cf) t1 syn = (t2, w')" by fastforce
  note s1 = encrypt_sealed [OF 1 assms(7)]
  note s2 = encrypt_sealed [OF 2 s1(2)]
  have t2: "t2 = (te_tun e)\<lparr>tun_tx_counter := tun_tx_counter (te_tun e) + 1 + 1\<rparr>" using s2(3) s1(3) by simp
  define st' where "st' = st\<lparr>st_tunnels := AList.update i (e\<lparr>te_tun := t2\<rparr>) (st_tunnels st),
      st_outbound := Some (ob\<lparr>ob_icmp_seq := ob_icmp_seq ob + 1, ob_started := True, ob_tcp := Some c\<rparr>)\<rparr>"
  have "outbound_tick cf pr st = Some (st', map (\<lambda>w. (w, te_addr e)) [w, w'])"
    using assms(2-6) 1 2 by (simp add: outbound_tick_def st'_def Let_def)
  moreover have "list_all2 (sealed_for (cf_wg cf) u) [req, syn] [w, w']" using s1(1) s2(1) by simp
  moreover have "map_of (st_tunnels st') i = Some (e\<lparr>te_tun := t2\<rparr>)"
      "st_outbound st' = Some (ob\<lparr>ob_icmp_seq := ob_icmp_seq ob + 1, ob_started := True, ob_tcp := Some c\<rparr>)"
    by (simp_all add: st'_def update_conv')
  ultimately show ?thesis using e t2 by (intro exI conjI) (assumption | simp)+
qed

text \<open>
  C28. The device fetches a page through a tunnel. Let A and B hold the two ends of a tunnel, let A
  be configured to visit B, not have started, and let each filter admit the other's address. Then
  the tick that starts A's outbound traffic, and all that follows from it through both data
  planes, panics nowhere and ends by itself. The first datagram B sends back, to A's address,
  decrypts in A's end of the tunnel to the answer to A's ping: an echo reply from the target to A
  with A's identifier, sequence number and payload and verifying checksums. In the end A's client
  holds exactly the page of B, although every packet in between was padded, encrypted, decrypted,
  filtered and dispatched, and B's connection is closed again. Whatever else the two nodes were doing, with other
  peers and in other tunnels, does not matter.
\<close>

theorem page_fetched_over_tunnel:
  assumes C: "wg_crypto_ok (cf_wg A)" "cf_wg B = cf_wg A" and A: "dp_inv stA" and B: "dp_inv stB"
    and ob: "st_outbound stA = Some ob" "\<not> ob_started ob" "\<not> ob_http_done ob" "oc_http_port (ob_cfg ob) = HTTP_PORT"
      "ob_sport ob \<noteq> HTTP_PORT" "length (http_get_request (ob_cfg ob)) \<le> 1416"
    and eA: "List.find (\<lambda>(i, e). te_peer_node e = oc_target_node (ob_cfg ob)) (st_tunnels stA) = Some (i, eA)"
    and eB: "map_of (st_tunnels stB) j = Some eB" and l: "linked (te_tun eA) (te_tun eB)"
    and fA: "ft_outbound (cf_features A)" "ft_tcp_proxy (cf_features A) \<longrightarrow> cf_proxy_port A \<noteq> ob_sport ob"
    and fB: "ft_icmp (cf_features B)" "ft_http_server (cf_features B)" "ft_tcp_proxy (cf_features B) \<longrightarrow> cf_proxy_port B \<noteq> HTTP_PORT"
      "pred_option (\<lambda>b. pred_option (\<lambda>c. cl_sport c \<noteq> HTTP_PORT) (ob_tcp b)) (st_outbound stB)"
    and ad: "admits B (oc_our_ip (ob_cfg ob))" "admits A (oc_target_ip (ob_cfg ob))"
  shows "\<exists>stA' stB' ob' c eB'.
    fetch_session A B targetsA targetsB tickA tickB addrA addrB pr rA rB stA stB = Some (stA', stB', []) \<and>
    st_outbound stA' = Some ob' \<and> ob_http_done ob' \<and> ob_tcp ob' = Some c \<and> cl_done c \<and>
    cl_response c = http_response (page (oc_target_ip (ob_cfg ob))) \<and>
    map_of (st_tunnels stB') j = Some eB' \<and> srv_conn (te_tcp eB') = conn_default \<and>
    (\<exists>stA1 o0 stB1 w o1 pt r. outbound_tick A pr stA = Some (stA1, o0) \<and>
       deliver B rB targetsB tickB addrA stB (arrive o0) = Some (stB1, (w, addrA) # o1) \<and>
       decrypt (cf_wg A) (te_tun eA) w = Some (Inr pt) \<and> take (length r) pt = r \<and>
       echo_answer (oc_our_ip (ob_cfg ob)) (oc_target_ip (ob_cfg ob)) (ob_icmp_ident ob) (ob_icmp_seq ob + 1) (ascii ''tdongle-s3'') r)"
proof -
  let ?src = "oc_our_ip (ob_cfg ob)" and ?dst = "oc_target_ip (ob_cfg ob)" and ?sp = "ob_sport ob"
  let ?C = "cf_wg A" and ?iss = "rn_iss rB"
  have req0: "http_get_request (ob_cfg ob) \<noteq> []" by (simp add: http_get_request_def ascii_def)
  obtain req r where ping: "icmp_echo_request ?src ?dst (ob_icmp_ident ob) (ob_icmp_seq ob + 1) (ascii ''tdongle-s3'') = Some req"
      "is_echo_request req" "echo_reply_any req = Some (Some r)" "from_be_bytes (sub req 12 16) = ?src"
      "from_be_bytes (sub r 12 16) = ?dst" "is_ipv4 r" "r ! 9 = 1" "ihl_of r < length r" "r ! ihl_of r \<noteq> 8"
      "length req \<le> INNER_MAX" "length r \<le> INNER_MAX"
      "echo_answer ?src ?dst (ob_icmp_ident ob) (ob_icmp_seq ob + 1) (ascii ''tdongle-s3'') r"
    using ping_and_reply [of "ascii ''tdongle-s3''" ?src ?dst "ob_icmp_ident ob" "ob_icmp_seq ob + 1"] by (auto simp: length_ascii INNER_MAX_def)
  obtain c1 syn s1 o1 c2 o2 s2 o3 c3 o4 s3 o5 c4 where p:
    "cl_open (tcp_client_new ?src ?dst ?sp HTTP_PORT (http_get_request (ob_cfg ob)) (pr_client pr)) = Some (c1, syn)"
    "between ?src ?sp ?dst HTTP_PORT syn"
    "handle (te_tcp eB) ?iss syn = Some (s1, o1)" "list_all (between ?dst HTTP_PORT ?src ?sp) o1"
    "run_handler on_inner c1 o1 = Some (c2, o2)" "list_all (between ?src ?sp ?dst HTTP_PORT) o2"
    "run_handler (\<lambda>s p. handle s ?iss p) s1 o2 = Some (s2, o3)" "list_all (between ?dst HTTP_PORT ?src ?sp) o3"
    "run_handler on_inner c2 o3 = Some (c3, o4)" "list_all (between ?src ?sp ?dst HTTP_PORT) o4"
    "run_handler (\<lambda>s p. handle s ?iss p) s2 o4 = Some (s3, o5)" "list_all (between ?dst HTTP_PORT ?src ?sp) o5"
    "run_handler on_inner c3 o5 = Some (c4, [])"
    "cl_sport c1 = ?sp" "\<not> cl_done c1" "cl_response c4 = http_response (page ?dst)" "cl_done c4" "srv_conn s3 = conn_default"
    using page_rounds [OF req0 ob(6), of ?src ?dst ?sp "pr_client pr" "te_tcp eB" ?iss] by (elim exE conjE)
  have our: "tun_our_index (te_tun eA) = i" "tun_our_index (te_tun eB) = j"
    using A B eA eB by (auto simp: dp_inv_def dest: find_SomeD)
  obtain stA1 eA1 ws0 n1 where t: "outbound_tick A pr stA = Some (stA1, map (\<lambda>w. (w, te_addr eA)) ws0)"
      "list_all2 (sealed_for ?C (te_tun eB)) [req, syn] ws0" "map_of (st_tunnels stA1) i = Some eA1"
      "te_tun eA1 = (te_tun eA)\<lparr>tun_tx_counter := n1\<rparr>" "te_peer_node eA1 = oc_target_node (ob_cfg ob)"
      "st_outbound stA1 = Some (ob\<lparr>ob_icmp_seq := ob_icmp_seq ob + 1, ob_started := True, ob_tcp := Some c1\<rparr>)"
    using tick_starts [OF A ob(1,2) eA ping(1) _ l, of pr c1 syn A] p(1) ob(4) by auto
  have acc: "list_all (web_accepts B) ps" if "list_all (between ?src ?sp ?dst HTTP_PORT) ps" for ps
    using that ad(1) between_accepted(1) by (auto simp: list_all_iff)
  have acc': "list_all (client_accepts A ?sp) ps" if "list_all (between ?dst HTTP_PORT ?src ?sp) ps" for ps
    using that ad(2) between_accepted(2) by (auto simp: list_all_iff)
  have cA: "in_tunnel (client_view A i ?sp) i (te_tun eA) stA1 c1"
    using C fA ob(3,5) t(3-6) p(14,15) by (auto simp: client_view_def in_tunnel_def)
  have vB: "in_tunnel (web_view B j) j (te_tun eB) stB (te_tcp eB)"
    using C fB eB by (auto simp: web_view_def in_tunnel_def intro: exI [of _ "tun_tx_counter (te_tun eB)"])
  have r1: "run_handler (web_step ?iss) (te_tcp eB) [req, syn] = Some (s1, r # o1)"
    using ping(3) p(3) between_web [OF p(2)] by (simp add: web_step_def)
  have a1: "list_all (web_accepts B) [req, syn]" using ping(2,4,10) ad(1) acc [of "[syn]"] p(2) by (simp add: web_accepts_def)
  have r2: "run_handler on_inner c1 (r # o1) = Some (c2, o2)"
    using p(5) ping(7) by (simp add: on_inner_eq cl_addressed_def PROTO_TCP_def)
  have a2: "list_all (client_accepts A ?sp) (r # o1)" using ping(5-9,11) ad(2) acc' [OF p(4)] by (simp add: client_accepts_def)
  note trip = round_trip [OF C(2) l our]
  obtain stA2 stB1 ws1 ws2 where x1: "deliver B rB targetsB tickB addrA stB (arrive (map (\<lambda>w. (w, te_addr eA)) ws0)) = Some (stB1, map (\<lambda>w. (w, addrA)) ws1)"
      "deliver A rA targetsA tickA addrB stA1 (arrive (map (\<lambda>w. (w, addrA)) ws1)) = Some (stA2, map (\<lambda>w. (w, addrB)) ws2)"
      "in_tunnel (client_view A i ?sp) i (te_tun eA) stA2 c2" "in_tunnel (web_view B j) j (te_tun eB) stB1 s1"
      "list_all2 (sealed_for ?C (te_tun eB)) o2 ws2" "list_all2 (sealed_for ?C (te_tun eA)) (r # o1) ws1"
    using trip [OF cA vB t(2) a1 r1 a2 r2] by blast
  obtain stA3 stB2 ws3 ws4 where x2: "deliver B rB targetsB tickB addrA stB1 (arrive (map (\<lambda>w. (w, addrB)) ws2)) = Some (stB2, map (\<lambda>w. (w, addrA)) ws3)"
      "deliver A rA targetsA tickA addrB stA2 (arrive (map (\<lambda>w. (w, addrA)) ws3)) = Some (stA3, map (\<lambda>w. (w, addrB)) ws4)"
      "in_tunnel (client_view A i ?sp) i (te_tun eA) stA3 c3" "in_tunnel (web_view B j) j (te_tun eB) stB2 s2"
      "list_all2 (sealed_for ?C (te_tun eB)) o4 ws4"
    using trip [OF x1(3-5) acc [OF p(6)] trans [OF run_web [OF p(6)] p(7)] acc' [OF p(8)] p(9)] by blast
  obtain stA4 stB3 ws5 ws6 where x3: "deliver B rB targetsB tickB addrA stB2 (arrive (map (\<lambda>w. (w, addrB)) ws4)) = Some (stB3, map (\<lambda>w. (w, addrA)) ws5)"
      "deliver A rA targetsA tickA addrB stA3 (arrive (map (\<lambda>w. (w, addrA)) ws5)) = Some (stA4, map (\<lambda>w. (w, addrB)) ws6)"
      "in_tunnel (client_view A i ?sp) i (te_tun eA) stA4 c4" "in_tunnel (web_view B j) j (te_tun eB) stB3 s3"
      "list_all2 (sealed_for ?C (te_tun eB)) [] ws6"
    using trip [OF x2(3-5) acc [OF p(10)] trans [OF run_web [OF p(10)] p(11)] acc' [OF p(12)] p(13)] by blast
  have "fetch_session A B targetsA targetsB tickA tickB addrA addrB pr rA rB stA stB = Some (stA4, stB3, [])"
    using t(1) x1(1,2) x2(1,2) x3(1,2,5) by (simp add: fetch_session_def)
  moreover obtain w ws' where w: "ws1 = w # ws'" "sealed_for ?C (te_tun eA) r w" using x1(6) by (auto simp: list_all2_Cons1)
  have d: "decrypt ?C (te_tun eA) w = Some (Inr (pad_loop r))" by (rule sealed_decrypts [OF C(1) w(2)])
  have "deliver B rB targetsB tickB addrA stB (arrive (map (\<lambda>w. (w, te_addr eA)) ws0)) = Some (stB1, (w, addrA) # map (\<lambda>w. (w, addrA)) ws')"
    using x1(1) w(1) by simp
  then have "\<exists>stA1 o0 stB1 w o1 pt r. outbound_tick A pr stA = Some (stA1, o0) \<and>
      deliver B rB targetsB tickB addrA stB (arrive o0) = Some (stB1, (w, addrA) # o1) \<and>
      decrypt ?C (te_tun eA) w = Some (Inr pt) \<and> take (length r) pt = r \<and>
      echo_answer ?src ?dst (ob_icmp_ident ob) (ob_icmp_seq ob + 1) (ascii ''tdongle-s3'') r"
    using t(1) d ping(12) take_pad_loop [of r] by blast
  ultimately show ?thesis using x3(3,4) p(16-18) unfolding client_view_def web_view_def in_tunnel_def by blast
qed

definition toy_end :: "tunnel \<Rightarrow> bytes \<Rightarrow> tunnel_entry" where
  "toy_end t peer = \<lparr>te_tun = t, te_addr = V4 2 41641, te_peer_node = peer, te_tcp = tcp_server_new\<rparr>"

definition toy_other :: tunnel where
  "toy_other = toy_tunnel\<lparr>tun_their_index := 9, tun_our_index := 7\<rparr>"

definition toy_visit :: outbound_cfg where
  "toy_visit = \<lparr>oc_our_ip = 0x64400001, oc_target_ip = 0x64400002, oc_target_node = replicate 32 8, oc_http_port = HTTP_PORT, oc_http_path = ''/''\<rparr>"

definition toy_visitor :: dp_state where
  "toy_visitor = (dp_new (Some toy_visit) [0, 0, 0, 0] None [])\<lparr>st_tunnels := [(9, toy_end toy_tunnel (replicate 32 8))]\<rparr>"

definition toy_visited :: dp_state where
  "toy_visited = (dp_new None [] None [])\<lparr>st_tunnels := [(7, toy_end toy_other (replicate 32 6))]\<rparr>"

definition toy_fetch_rand :: periodic_rand where
  "toy_fetch_rand = \<lparr>pr_probe_read = 0, pr_probe_set = 0, pr_stun_read = 0, pr_stun_set = 0, pr_txid = (\<lambda>_. []), pr_nonce = (\<lambda>_. []),
     pr_tail = (\<lambda>_ _. []), pr_sent = (\<lambda>_. True), pr_client = 77, pr_stun_txid = 0\<rparr>"

theorem page_fetched_over_tunnel_witness:
  "\<exists>stA' stB' ob' c. fetch_session toy_node toy_peer [] [] 0 0 (V4 1 41641) (V4 2 41641) toy_fetch_rand toy_rand toy_rand toy_visitor toy_visited =
      Some (stA', stB', []) \<and>
    st_outbound stA' = Some ob' \<and> ob_tcp ob' = Some c \<and> cl_response c = http_response (page 0x64400002) \<and>
    (\<exists>stA1 o0 stB1 w o1 pt r. outbound_tick toy_node toy_fetch_rand toy_visitor = Some (stA1, o0) \<and>
       deliver toy_peer toy_rand [] 0 (V4 1 41641) toy_visited (arrive o0) = Some (stB1, (w, V4 1 41641) # o1) \<and>
       decrypt (cf_wg toy_node) toy_tunnel w = Some (Inr pt) \<and> take (length r) pt = r \<and> sub r 12 16 = to_be_bytes (0x64400002 :: u32))"
proof -
  obtain ob where ob: "st_outbound toy_visitor = Some ob" "\<not> ob_started ob" "\<not> ob_http_done ob" "ob_cfg ob = toy_visit" "ob_sport ob = 1024"
    by (simp add: toy_visitor_def dp_new_def byte_simps from_le_bytes.simps)
  have l: "linked (te_tun (toy_end toy_tunnel (replicate 32 8))) (te_tun (toy_end toy_other (replicate 32 6)))"
    by (simp add: linked_def toy_end_def toy_other_def toy_tunnel_def STUN_INDEX_eq)
  have i: "dp_inv toy_visitor" "dp_inv toy_visited"
    by (simp_all add: dp_inv_def toy_visitor_def toy_visited_def dp_new_def toy_end_def toy_other_def toy_tunnel_def)
  have h: "length (http_get_request toy_visit) \<le> 1416"
    by (simp add: http_get_request_def toy_visit_def length_ascii show_ipv4_def to_be_bytes_32 crlf_def show_nat.simps)
  have cf: "wg_crypto_ok (cf_wg toy_node)" "cf_wg toy_peer = cf_wg toy_node" "admits toy_peer (oc_our_ip (ob_cfg ob))" "admits toy_node (oc_target_ip (ob_cfg ob))"
    using toy_crypto_ok ob(4) by (simp_all add: toy_peer_def toy_node_def admits_def cidr_match_def toy_visit_def)
  have o2: "oc_http_port (ob_cfg ob) = HTTP_PORT" "ob_sport ob \<noteq> HTTP_PORT" "length (http_get_request (ob_cfg ob)) \<le> 1416"
    using ob(4,5) h by (simp_all add: toy_visit_def HTTP_PORT_def)
  have e: "List.find (\<lambda>(i, e). te_peer_node e = oc_target_node (ob_cfg ob)) (st_tunnels toy_visitor) = Some (9, toy_end toy_tunnel (replicate 32 8))"
    "map_of (st_tunnels toy_visited) 7 = Some (toy_end toy_other (replicate 32 6))"
    using ob(4) by (simp_all add: toy_visitor_def toy_visited_def toy_end_def toy_visit_def)
  have f: "ft_outbound (cf_features toy_node)" "ft_tcp_proxy (cf_features toy_node) \<longrightarrow> cf_proxy_port toy_node \<noteq> ob_sport ob"
    "ft_icmp (cf_features toy_peer)" "ft_http_server (cf_features toy_peer)" "ft_tcp_proxy (cf_features toy_peer) \<longrightarrow> cf_proxy_port toy_peer \<noteq> HTTP_PORT"
    "pred_option (\<lambda>b. pred_option (\<lambda>c. cl_sport c \<noteq> HTTP_PORT) (ob_tcp b)) (st_outbound toy_visited)"
    using ob(5) by (simp_all add: toy_node_def toy_peer_def HTTP_PORT_def toy_visited_def dp_new_def)
  have d: "oc_target_ip (ob_cfg ob) = 0x64400002" using ob(4) by (simp add: toy_visit_def)
  from page_fetched_over_tunnel [OF cf(1,2) i ob(1-3) o2 e l f cf(3,4), of "[]" "[]" 0 0 "V4 1 41641" "V4 2 41641" toy_fetch_rand toy_rand toy_rand] d
  show ?thesis by (auto simp: echo_answer_def toy_end_def)
qed

end
