(* ===== verification/Mdns.thy ===== *)
theory Mdns
  imports Rust_Prelude
begin

text \<open>
  \<^verbatim>\<open>src/mdns.rs\<close>, the mDNS reflector: partner payloads are multicast on the LAN, LAN payloads
  are handed to the data plane for the partner, and a window of the last 64 payload hashes
  keeps a payload from being forwarded twice or sent back. One iteration of \<open>run\<close>'s loop is
  \<open>reflect\<close>: what the data plane has queued, then one receive (or a timeout). Shown: the
  window never exceeds 64 entries, and a payload the reflector has put on the LAN or has
  forwarded is not forwarded again until 64 others have been handled.
\<close>

definition GROUP :: ipv4addr where "GROUP = 0xE00000FB"
definition MDNS_PORT :: u16 where "MDNS_PORT = 5353"
definition DEDUP_MAX :: nat where "DEDUP_MAX = 64"

record reflector =
  rf_seen :: "u64 list"
  rf_captured :: u32
  rf_forwarded :: u32

definition reflector_new :: reflector where
  "reflector_new = \<lparr>rf_seen = [], rf_captured = 0, rf_forwarded = 0\<rparr>"

definition mdns_hash :: "bytes \<Rightarrow> u64" where
  "mdns_hash data = fold (\<lambda>b h. (h XOR ucast b) * 0x100000001b3) data 0xcbf29ce484222325"

definition remember :: "u64 list \<Rightarrow> u64 \<Rightarrow> u64 list" where
  "remember seen h = (if length seen \<ge> DEDUP_MAX then drop 1 seen else seen) @ [h]"

text \<open>The payloads multicast to the group, in order.\<close>

primrec reinject_all :: "u64 list \<Rightarrow> bytes list \<Rightarrow> u64 list \<times> (bytes \<times> ipv4addr \<times> u16) list" where
  "reinject_all seen [] = (seen, [])"
| "reinject_all seen (payload # queue) =
    (let seen = remember seen (mdns_hash payload);
         (seen, out) = reinject_all seen queue
     in (seen, (payload, GROUP, MDNS_PORT) # out))"

text \<open>A received datagram with the address it came from; \<open>None\<close> is a timeout or an error.\<close>

definition capture :: "ipv4addr \<Rightarrow> reflector \<Rightarrow> (bytes \<times> ipv4addr) option \<Rightarrow> reflector \<times> bytes list" where
  "capture lan_ip rf recv =
    (case recv of
       None \<Rightarrow> (rf, [])
     | Some (pkt, from) \<Rightarrow>
       if from = lan_ip then (rf, [])
       else let rf = rf\<lparr>rf_captured := rf_captured rf + 1\<rparr>; h = mdns_hash pkt
         in if h \<in> set (rf_seen rf) then (rf, [])
            else (rf\<lparr>rf_seen := remember (rf_seen rf) h, rf_forwarded := rf_forwarded rf + 1\<rparr>, [pkt]))"

definition reflect ::
  "ipv4addr \<Rightarrow> reflector \<Rightarrow> bytes list \<times> (bytes \<times> ipv4addr) option \<Rightarrow>
   reflector \<times> (bytes \<times> ipv4addr \<times> u16) list \<times> bytes list" where
  "reflect lan_ip rf i =
    (case i of (queue, recv) \<Rightarrow>
      (let (seen, out) = reinject_all (rf_seen rf) queue;
           (rf, fwd) = capture lan_ip (rf\<lparr>rf_seen := seen\<rparr>) recv
       in (rf, out, fwd)))"

primrec reflect_run ::
  "ipv4addr \<Rightarrow> reflector \<Rightarrow> (bytes list \<times> (bytes \<times> ipv4addr) option) list \<Rightarrow>
   reflector \<times> (bytes \<times> ipv4addr \<times> u16) list \<times> bytes list" where
  "reflect_run lan_ip rf [] = (rf, [], [])"
| "reflect_run lan_ip rf (i # is) =
    (let (rf, out, fwd) = reflect lan_ip rf i;
         (rf, outs, fwds) = reflect_run lan_ip rf is
     in (rf, out @ outs, fwd @ fwds))"

subsection \<open>The window\<close>

text \<open>\<open>h\<close> was remembered, and at most \<open>k\<close> others since.\<close>

definition in_window :: "u64 \<Rightarrow> nat \<Rightarrow> u64 list \<Rightarrow> bool" where
  "in_window h k seen \<longleftrightarrow> (\<exists>xs ys. seen = xs @ h # ys \<and> length ys \<le> k)"

lemma in_window_member: "in_window h k seen \<Longrightarrow> h \<in> set seen"
  by (auto simp: in_window_def)

lemma in_window_remember:
  assumes "in_window h k seen" and "k < 63"
  shows "in_window h (Suc k) (remember seen h')"
proof -
  obtain xs ys where s: "seen = xs @ h # ys" "length ys \<le> k" using assms(1) by (auto simp: in_window_def)
  show ?thesis
  proof (cases "length seen \<ge> DEDUP_MAX")
    case True
    then have "xs \<noteq> []" using s assms(2) by (auto simp: DEDUP_MAX_def)
    then have "remember seen h' = drop 1 xs @ h # (ys @ [h'])" using True s by (cases xs) (simp_all add: remember_def)
    then show ?thesis using s(2) unfolding in_window_def
      by (intro exI [of _ "drop 1 xs"] exI [of _ "ys @ [h']"]) simp
  next
    case False
    then show ?thesis using s unfolding in_window_def
      by (intro exI [of _ xs] exI [of _ "ys @ [h']"]) (simp add: remember_def)
  qed
qed

lemma remember_bound: "length seen \<le> DEDUP_MAX \<Longrightarrow> length (remember seen h) \<le> DEDUP_MAX"
  by (simp add: remember_def DEDUP_MAX_def)

lemma reinject_window:
  "in_window h k seen \<Longrightarrow> k + length queue < 64 \<Longrightarrow> in_window h (k + length queue) (fst (reinject_all seen queue))"
proof (induction queue arbitrary: seen k)
  case (Cons p queue)
  then have "in_window h (Suc k) (remember seen (mdns_hash p))" by (intro in_window_remember) simp_all
  from Cons.IH [OF this] Cons.prems(2) show ?case by (simp add: Let_def split_beta)
qed simp

lemma reinject_bound: "length seen \<le> DEDUP_MAX \<Longrightarrow> length (fst (reinject_all seen queue)) \<le> DEDUP_MAX"
  by (induction queue arbitrary: seen) (simp_all add: Let_def split_beta remember_bound)

lemma capture_window:
  assumes "capture lan_ip rf recv = (rf', fwd)" and "in_window (mdns_hash p) k (rf_seen rf)" and "k + length fwd < 64"
  shows "p \<notin> set fwd \<and> in_window (mdns_hash p) (k + length fwd) (rf_seen rf')"
  using assms in_window_member [OF assms(2)] in_window_remember [OF assms(2)]
  by (auto simp: capture_def Let_def split: option.splits prod.splits if_splits)

lemma run_window:
  assumes "reflect_run lan_ip rf is = (rf', out, fwd)" and "in_window (mdns_hash p) k (rf_seen rf)"
    and "k + length (concat (map fst is)) + length fwd < 64"
  shows "p \<notin> set fwd"
  using assms
proof (induction "is" arbitrary: rf k rf' out fwd)
  case (Cons i "is")
  obtain queue recv where i: "i = (queue, recv)" by fastforce
  obtain seen o1 where r: "reinject_all (rf_seen rf) queue = (seen, o1)" by fastforce
  obtain rf1 f1 where c: "capture lan_ip (rf\<lparr>rf_seen := seen\<rparr>) recv = (rf1, f1)" by fastforce
  obtain rf2 o2 f2 where t: "reflect_run lan_ip rf1 is = (rf2, o2, f2)" by (metis prod_cases3)
  have fwd: "fwd = f1 @ f2" using Cons.prems(1) i r c t by (simp add: reflect_def)
  have w: "in_window (mdns_hash p) (k + length queue) seen"
    using reinject_window [OF Cons.prems(2), of queue] Cons.prems(3) i r by simp
  have c1: "p \<notin> set f1 \<and> in_window (mdns_hash p) (k + length queue + length f1) (rf_seen rf1)"
    using capture_window [OF c, of p "k + length queue"] w Cons.prems(3) i fwd by simp
  then have "p \<notin> set f2" using Cons.IH [OF t, of "k + length queue + length f1"] Cons.prems(3) i fwd by simp
  with c1 fwd show ?case by simp
qed simp

lemma run_bound: "length (rf_seen rf) \<le> DEDUP_MAX \<Longrightarrow> reflect_run lan_ip rf is = (rf', out, fwd) \<Longrightarrow> length (rf_seen rf') \<le> DEDUP_MAX"
proof (induction "is" arbitrary: rf out fwd)
  case (Cons i "is")
  have "length (rf_seen (fst (reflect lan_ip rf i))) \<le> DEDUP_MAX"
    using reinject_bound [OF Cons.prems(1), of "fst i"]
    by (auto simp: reflect_def capture_def Let_def split_beta remember_bound split: option.split)
  then show ?case using Cons.IH Cons.prems(2) by (auto simp: Let_def split: prod.splits)
qed simp

subsection \<open>Properties\<close>

text \<open>
  The reflector does not echo: whatever was handled before, a payload that has just been put
  on the LAN for the partner, and so may come back from the LAN any number of times, is not
  forwarded to the partner while fewer than 64 other payloads are put on the LAN or forwarded;
  and the window of remembered hashes never grows beyond 64.
\<close>

theorem reflector_no_echo:
  assumes "reflect_run lan_ip reflector_new past = (rf, out, fwd)"
    and "reinject_all (rf_seen rf) [p] = (seen, sent)"
    and "reflect_run lan_ip (rf\<lparr>rf_seen := seen\<rparr>) future = (rf', out', fwd')"
    and "length (concat (map fst future)) + length fwd' < 64"
  shows "p \<notin> set fwd' \<and> length (rf_seen rf') \<le> DEDUP_MAX"
proof
  have seen: "seen = remember (rf_seen rf) (mdns_hash p)" using assms(2) by (simp add: Let_def)
  have "length (rf_seen rf) \<le> DEDUP_MAX" using run_bound [OF _ assms(1)] by (simp add: reflector_new_def)
  then show "length (rf_seen rf') \<le> DEDUP_MAX"
    using run_bound [OF _ assms(3)] seen remember_bound by simp
  have "in_window (mdns_hash p) 0 seen" by (auto simp: seen remember_def in_window_def)
  then show "p \<notin> set fwd'" using run_window [OF assms(3), of p 0] assms(4) by simp
qed

theorem reflector_no_echo_witness:
  "[1, 2, 3] \<notin> set (snd (snd (reflect_run 7 (reflector_new\<lparr>rf_seen := remember [] (mdns_hash [1, 2, 3])\<rparr>)
     [([], Some ([1, 2, 3], 9)), ([], None)])))"
proof -
  let ?rf = "reflector_new\<lparr>rf_seen := remember [] (mdns_hash [1, 2, 3])\<rparr>"
  let ?f = "[([], Some ([1, 2, 3], 9)), ([], None)]"
  have c: "capture 7 ?rf (Some ([1, 2, 3], 9)) = (?rf\<lparr>rf_captured := 1\<rparr>, [])"
    by (simp add: capture_def remember_def reflector_new_def DEDUP_MAX_def)
  obtain rf' out where r: "reflect_run 7 ?rf ?f = (rf', out, [])"
    using c by (simp add: reflect_def) (simp add: capture_def)
  have "reflect_run 7 reflector_new [] = (reflector_new, [], [])" by simp
  moreover have "reinject_all (rf_seen reflector_new) [[1, 2, 3]] = (remember [] (mdns_hash [1, 2, 3]), [([1, 2, 3], GROUP, MDNS_PORT)])"
    by (simp add: reflector_new_def)
  ultimately show ?thesis using reflector_no_echo [OF _ _ r] r by fastforce
qed

end
