(* ===== verification/Mdns_Bridge.thy ===== *)
theory Mdns_Bridge
  imports Tunnel_Traffic Mdns
begin

text \<open>
  mDNS across the tunnel: what the reflector of one node captures on its LAN is wrapped in a UDP
  datagram by \<open>mdns_drain\<close>, crosses the tunnel, is unwrapped by the partner's
  \<open>handle_decrypted\<close> and multicast by the partner's reflector. Shown: payloads that fit arrive on the
  other LAN unchanged and in order and are not sent back; and which payloads fit.
\<close>

subsection \<open>The forwarded packet\<close>

definition fwd_packet :: "ipv4addr \<Rightarrow> ipv4addr \<Rightarrow> bytes \<Rightarrow> bytes" where
  "fwd_packet src dst payload =
    (let m = to_be_bytes FWD_PORT @ to_be_bytes FWD_PORT @ to_be_bytes (of_nat (8 + length payload) :: u16) @ [0, 0] @ payload
     in ip_header src dst PROTO_UDP (20 + length m) @ put m 6 (to_be_bytes (l4_checksum src dst PROTO_UDP m)))"

lemma udp_datagram_fwd: "udp_datagram src dst FWD_PORT FWD_PORT payload = Some (fwd_packet src dst payload)"
  by (simp add: udp_datagram_layout fwd_packet_def Let_def)

lemma length_fwd_packet: "length (fwd_packet src dst payload) = 28 + length payload"
  by (simp add: fwd_packet_def Let_def)

lemma fwd_packet_read:
  assumes "length payload \<le> 65507"
  shows "udp_payload_to_port (fwd_packet src dst payload @ z) FWD_PORT = Some (Some payload)"
    and "from_be_bytes (sub (fwd_packet src dst payload) 12 16) = src"
proof -
  define m where "m = to_be_bytes FWD_PORT @ to_be_bytes FWD_PORT @ to_be_bytes (of_nat (8 + length payload) :: u16) @ [0, 0] @ payload"
  define c where "c = l4_checksum src dst PROTO_UDP m"
  define p where "p = fwd_packet src dst payload"
  have ml: "length m = 8 + length payload" by (simp add: m_def)
  have p: "p = ip_header src dst PROTO_UDP (28 + length payload) @ put m 6 (to_be_bytes c)"
    unfolding p_def fwd_packet_def Let_def m_def [symmetric] c_def by (simp add: ml)
  have len: "length p = 28 + length payload" by (simp add: p ml)
  have b0: "p ! 0 = 0x45" "p ! 9 = 17" by (simp_all add: p nth_append ip_header_fields PROTO_UDP_def)
  have ihl: "ihl_of p = 20" by (simp add: ihl_of_def b0)
  have "[p ! 2, p ! 3] = sub p 2 4" using len by (simp add: sub_2_eq)
  also have "\<dots> = to_be_bytes (of_nat (28 + length payload) :: u16)" by (simp add: p ip_header_fields)
  finally have tot: "total_len_of p = 28 + length payload"
    using assms unfolding total_len_of_def bytes_roundtrip by (simp add: unat_of_nat del: of_nat_add)
  have port: "sub p 22 24 = to_be_bytes FWD_PORT" by (simp add: p m_def put_def sub_Cons_pos)
  have pay: "sub p 28 (28 + length payload) = payload" by (simp add: p m_def put_def sub_Cons_pos)
  have "20 \<le> length p" using len by simp
  note h = header_padded [OF this, of z]
  show "udp_payload_to_port (fwd_packet src dst payload @ z) FWD_PORT = Some (Some payload)"
    unfolding p_def [symmetric] udp_payload_to_port_eq h ihl tot
    using len b0 port pay by (simp add: is_ipv4_def bytes_roundtrip)
  show "from_be_bytes (sub (fwd_packet src dst payload) 12 16) = src"
    unfolding p_def [symmetric] by (simp add: p ip_header_fields bytes_roundtrip)
qed

subsection \<open>The node that forwards\<close>

lemma find_update:
  assumes "List.find P al = Some (i, e)" and "distinct (map fst al)" and "P (i, e')"
  shows "List.find P (AList.update i e' al) = Some (i, e')"
  using assms by (induction al) (auto split: if_splits dest: find_SomeD)

lemma drain_seals:
  assumes "List.find (\<lambda>(i, e). te_peer_node e = node) (st_tunnels st) = Some (i, e)" and "distinct (map fst (st_tunnels st))"
    and "linked (te_tun e) u"
  shows "\<exists>st' ws. mdns_drain cf our partner node st queue = Some (st', map (\<lambda>w. (w, te_addr e)) ws) \<and>
    list_all2 (sealed_for (cf_wg cf) u) (map (fwd_packet our partner) queue) ws"
  using assms
proof (induction queue arbitrary: st e)
  case (Cons payload queue)
  obtain t w where t: "encrypt (cf_wg cf) (te_tun e) (fwd_packet our partner payload) = (t, w)" by fastforce
  note s = encrypt_sealed [OF t Cons.prems(3)]
  let ?st = "st\<lparr>st_tunnels := AList.update i (e\<lparr>te_tun := t\<rparr>) (st_tunnels st)\<rparr>"
  have "te_peer_node e = node" using find_SomeD [OF Cons.prems(1)] by simp
  then have "List.find (\<lambda>(i, e). te_peer_node e = node) (st_tunnels ?st) = Some (i, e\<lparr>te_tun := t\<rparr>)"
    using find_update [OF Cons.prems(1,2)] by simp
  from Cons.IH [OF this] obtain st' ws where
    "mdns_drain cf our partner node ?st queue = Some (st', map (\<lambda>w. (w, te_addr e)) ws)"
    "list_all2 (sealed_for (cf_wg cf) u) (map (fwd_packet our partner) queue) ws"
    using Cons.prems(2) s(2) by (auto simp: distinct_update)
  then show ?case using Cons.prems(1) t s(1)
    by (intro exI [of _ st'] exI [of _ "w # ws"]) (simp add: udp_datagram_fwd)
qed simp

subsection \<open>The node that receives\<close>

definition mdns_view :: "node_cfg \<Rightarrow> u32 \<Rightarrow> dp_state \<Rightarrow> bytes list \<Rightarrow> bool" where
  "mdns_view cf i st q \<longleftrightarrow> wg_crypto_ok (cf_wg cf) \<and> ft_mdns_forward (cf_features cf) \<and> st_mdns_reinject st = Some q \<and>
     (\<exists>e. map_of (st_tunnels st) i = Some e \<and> te_peer_node e = st_mdns_partner st)"

definition mdns_step :: "bytes list \<Rightarrow> bytes \<Rightarrow> (bytes list \<times> bytes list) panics" where
  "mdns_step q p = do { r \<leftarrow> udp_payload_to_port p FWD_PORT; payload \<leftarrow> r; Some (q @ [payload], []) }"

definition mdns_accepts :: "node_cfg \<Rightarrow> bytes \<Rightarrow> bool" where
  "mdns_accepts cf p \<longleftrightarrow> (\<exists>src dst payload. p = fwd_packet src dst payload \<and> length payload \<le> 1428 \<and> admits cf src)"

interpretation reflected: tunnel_service cf rn i src mdns_step "mdns_view cf i" "mdns_accepts cf" for cf rn i src
proof
  fix st q p e q' rs t' ws
  assume v: "mdns_view cf i st q" and a: "mdns_accepts cf p" and m: "map_of (st_tunnels st) i = Some e"
    and r: "mdns_step q p = Some (q', rs)" and t: "encrypt_all (cf_wg cf) (te_tun e) rs = (t', ws)"
  obtain s d payload where p: "p = fwd_packet s d payload" "length payload \<le> 1428" "admits cf s"
    using a by (auto simp: mdns_accepts_def)
  obtain z where z: "pad_loop p = p @ z" using padded by blast
  have f: "udp_payload_to_port (pad_loop p) FWD_PORT = Some (Some payload)" "udp_payload_to_port p FWD_PORT = Some (Some payload)"
      "from_be_bytes (sub p 12 16) = s" "20 \<le> length p"
    using fwd_packet_read(1) [of payload s d z] fwd_packet_read(1) [of payload s d "[]"] fwd_packet_read(2) [of payload s d] p(1,2) z by (simp_all add: length_fwd_packet)
  have q: "q' = q @ [payload]" "t' = te_tun e" "ws = []" using r f(2) t by (auto simp: mdns_step_def)
  have "src_allowed (id_allowed_srcs (cf_id cf)) (pad_loop p) = Some True" using admitted_padded [OF _ f(4)] f(3) p(3) by simp
  moreover have "pad_loop p \<noteq> []" using f(4) z by auto
  ultimately have "handle_decrypted cf rn st i (pad_loop p) src =
      Some (st\<lparr>st_tunnels := AList.update i (e\<lparr>te_addr := src\<rparr>) (st_tunnels st), st_mdns_reinject := Some q'\<rparr>, [])"
    using v m f(1) q by (simp add: handle_decrypted_def mdns_view_def Let_def)
  then show "\<exists>st' e'. handle_decrypted cf rn st i (pad_loop p) src = Some (st', map (\<lambda>w. (w, src)) ws) \<and>
      mdns_view cf i st' q' \<and> map_of (st_tunnels st') i = Some e' \<and> te_tun e' = t'"
    using v m q by (auto simp: mdns_view_def update_conv')
qed (auto simp: mdns_view_def mdns_accepts_def length_fwd_packet INNER_MAX_def)

lemma run_mdns:
  "list_all (\<lambda>p. length p \<le> 1428) ps \<Longrightarrow> run_handler mdns_step q (map (fwd_packet src dst) ps) = Some (q @ ps, [])"
proof (induction ps arbitrary: q)
  case (Cons p ps)
  have "mdns_step q (fwd_packet src dst p) = Some (q @ [p], [])"
    using fwd_packet_read(1) [of p src dst "[]"] Cons.prems by (simp add: mdns_step_def)
  then show ?case using Cons by simp
qed simp

subsection \<open>The reflector of the other LAN\<close>

lemma reinject_all_sends: "snd (reinject_all seen q) = map (\<lambda>p. (p, GROUP, MDNS_PORT)) q"
  by (induction q arbitrary: seen) (simp_all add: Let_def split_beta)

lemma reinject_all_append: "fst (reinject_all seen (xs @ ys)) = fst (reinject_all (fst (reinject_all seen xs)) ys)"
  by (induction xs arbitrary: seen) (simp_all add: Let_def split_beta)

lemma reinjected_remembered:
  assumes "p \<in> set q" and "length q \<le> 64"
  shows "mdns_hash p \<in> set (fst (reinject_all seen q))"
proof -
  obtain xs ys where q: "q = xs @ p # ys" using assms(1) by (auto simp: in_set_conv_decomp)
  let ?s = "remember (fst (reinject_all seen xs)) (mdns_hash p)"
  have "in_window (mdns_hash p) 0 ?s" by (auto simp: remember_def in_window_def)
  from reinject_window [OF this, of ys] have "in_window (mdns_hash p) (length ys) (fst (reinject_all ?s ys))"
    using assms(2) q by simp
  then show ?thesis using in_window_member by (simp add: q reinject_all_append Let_def split_beta)
qed

subsection \<open>The bridge\<close>

text \<open>
  A's data plane drains the payloads its reflector captured; what arrives at B is queued for
  B's reflector, whose next iteration multicasts the queue and then receives \<open>recv\<close> from B's LAN. The
  result includes what B's LAN sees and what B would send back.
\<close>

definition bridge ::
  "node_cfg \<Rightarrow> node_cfg \<Rightarrow> loop_cfg \<Rightarrow> packet_rand \<Rightarrow> target list \<Rightarrow> u32 \<Rightarrow> socket_addr \<Rightarrow> dp_state \<Rightarrow> dp_state \<Rightarrow>
   ipv4addr \<Rightarrow> reflector \<Rightarrow> bytes list \<Rightarrow> (bytes \<times> ipv4addr) option \<Rightarrow>
   (dp_state \<times> datagram list \<times> (bytes \<times> ipv4addr \<times> u16) list \<times> bytes list) panics" where
  "bridge A B lc rn targets tick addrA stA stB lanB rfB captured recv = do {
     (stA, ds) \<leftarrow> mdns_drain A (lc_our_ip lc) (lc_partner_ip lc) (lc_partner_node lc) stA captured;
     (stB, out) \<leftarrow> deliver B rn targets tick addrA stB (arrive ds);
     q \<leftarrow> st_mdns_reinject stB;
     let (rf, lan, back) = reflect lanB rfB (q, recv);
     Some (stB, out, lan, back)
   }"

text \<open>
  C32. mDNS crosses the tunnel. Let A and B hold the ends of a tunnel, each be the other's mDNS
  partner, and B's filter admit A's address. Then the payloads that A's reflector captured, of at
  most 1428 bytes each, are multicast on B's LAN, unchanged, in order, after what was queued
  before; B answers nothing through the tunnel; and if there are no more than 64 of them, B's reflector
  does not forward any of them back when it hears it on its LAN.
\<close>

theorem mdns_bridged:
  assumes "wg_crypto_ok (cf_wg A)" and "cf_wg B = cf_wg A" and "dp_inv stA" and "dp_inv stB"
    and "List.find (\<lambda>(i, e). te_peer_node e = lc_partner_node lc) (st_tunnels stA) = Some (i, eA)"
    and "map_of (st_tunnels stB) j = Some eB" and "linked (te_tun eA) (te_tun eB)"
    and "ft_mdns_forward (cf_features B)" and "st_mdns_reinject stB = Some q" and "te_peer_node eB = st_mdns_partner stB"
    and "admits B (lc_our_ip lc)" and "list_all (\<lambda>p. length p \<le> 1428) captured"
  shows "\<exists>stB' ret. bridge A B lc rn targets tick addrA stA stB lanB rfB captured recv =
      Some (stB', [], map (\<lambda>p. (p, GROUP, MDNS_PORT)) (q @ captured), ret) \<and>
    (length (q @ captured) \<le> 64 \<longrightarrow> set ret \<inter> set (q @ captured) = {})"
proof -
  obtain stA' ws where d: "mdns_drain A (lc_our_ip lc) (lc_partner_ip lc) (lc_partner_node lc) stA captured =
        Some (stA', map (\<lambda>w. (w, te_addr eA)) ws)"
      "list_all2 (sealed_for (cf_wg A) (te_tun eB)) (map (fwd_packet (lc_our_ip lc) (lc_partner_ip lc)) captured) ws"
    using drain_seals [OF assms(5) _ assms(7), of A "lc_our_ip lc" "lc_partner_ip lc" captured] assms(3) by (auto simp: dp_inv_def)
  have "in_tunnel (mdns_view B j) j (te_tun eB) stB q"
    using assms(1,2,6,8-10) by (auto simp: mdns_view_def in_tunnel_def intro: exI [of _ "tun_tx_counter (te_tun eB)"])
  moreover have "tun_our_index (te_tun eB) = j" using assms(4,6) by (simp add: dp_inv_def)
  moreover have "list_all (mdns_accepts B) (map (fwd_packet (lc_our_ip lc) (lc_partner_ip lc)) captured)"
    using assms(11,12) by (auto simp: list_all_iff mdns_accepts_def)
  ultimately obtain stB' ws' where b: "deliver B rn targets tick addrA stB (arrive (map (\<lambda>w. (w, te_addr eA)) ws)) = Some (stB', map (\<lambda>w. (w, addrA)) ws')"
      "in_tunnel (mdns_view B j) j (te_tun eB) stB' (q @ captured)" "list_all2 (sealed_for (cf_wg B) (te_tun eA)) [] ws'"
    using reflected.exchange [OF _ _ linked_sym [OF assms(7)] _ _ run_mdns [OF assms(12)], of B j stB q "lc_our_ip lc" "lc_partner_ip lc" ws rn targets tick addrA "te_addr eA"]
      d(2) assms(2) by auto
  have q: "st_mdns_reinject stB' = Some (q @ captured)" using b(2) by (simp add: in_tunnel_def mdns_view_def)
  obtain rf lan ret where r: "reflect lanB rfB (q @ captured, recv) = (rf, lan, ret)" by (metis prod_cases3)
  have lan: "lan = map (\<lambda>p. (p, GROUP, MDNS_PORT)) (q @ captured)"
    using r reinject_all_sends [of "rf_seen rfB" "q @ captured"] by (auto simp: reflect_def Let_def split_beta)
  have "set ret \<inter> set (q @ captured) = {}" if "length (q @ captured) \<le> 64"
    using r reinjected_remembered [OF _ that, of _ "rf_seen rfB"]
    by (auto simp: reflect_def capture_def Let_def split_beta split: option.splits if_splits)
  then show ?thesis using d(1) b(1,3) q r lan by (auto simp: bridge_def)
qed

definition toy_bridge :: loop_cfg where
  "toy_bridge = toy_loop\<lparr>lc_partner_node := replicate 32 8\<rparr>"

definition toy_partner :: dp_state where
  "toy_partner = toy_visited\<lparr>st_mdns_reinject := Some [], st_mdns_partner := replicate 32 6\<rparr>"

theorem mdns_bridged_witness:
  "\<exists>stB' ret. bridge toy_node toy_peer toy_bridge toy_rand [] 0 (V4 1 41641) toy_visitor toy_partner 9 reflector_new
     [[1, 2, 3]] (Some ([1, 2, 3], 8)) = Some (stB', [], [([1, 2, 3], GROUP, MDNS_PORT)], ret) \<and> [1, 2, 3] \<notin> set ret"
proof -
  have i: "dp_inv toy_visitor" "dp_inv toy_partner"
    by (simp_all add: dp_inv_def toy_visitor_def toy_partner_def toy_visited_def dp_new_def toy_end_def toy_other_def toy_tunnel_def)
  have cf: "wg_crypto_ok (cf_wg toy_node)" "cf_wg toy_peer = cf_wg toy_node" "admits toy_peer (lc_our_ip toy_bridge)" "ft_mdns_forward (cf_features toy_peer)"
    using toy_crypto_ok by (simp_all add: toy_peer_def toy_node_def admits_def)
  have e: "List.find (\<lambda>(i, e). te_peer_node e = lc_partner_node toy_bridge) (st_tunnels toy_visitor) = Some (9, toy_end toy_tunnel (replicate 32 8))"
    "map_of (st_tunnels toy_partner) 7 = Some (toy_end toy_other (replicate 32 6))"
    "st_mdns_reinject toy_partner = Some []" "te_peer_node (toy_end toy_other (replicate 32 6)) = st_mdns_partner toy_partner"
    by (simp_all add: toy_visitor_def toy_partner_def toy_visited_def toy_end_def toy_bridge_def)
  have l: "linked (te_tun (toy_end toy_tunnel (replicate 32 8))) (te_tun (toy_end toy_other (replicate 32 6)))"
    by (simp add: linked_def toy_end_def toy_other_def toy_tunnel_def STUN_INDEX_eq)
  from mdns_bridged [OF cf(1,2) i e(1,2) l cf(4) e(3,4) cf(3), of "[[1, 2, 3]]" toy_rand "[]" 0 "V4 1 41641" 9 reflector_new "Some ([1, 2, 3], 8)"]
  show ?thesis by auto
qed

text \<open>
  C33. Which payloads fit: a captured payload arrives at the partner whole exactly when it has at most 1428
  bytes. A longer one, up to the 1500 bytes that the reflector captures, becomes a datagram that is
  cut by the partner's receive buffer.
\<close>

theorem mdns_payload_limit:
  assumes "wg_crypto_ok (cf_wg A)" and "List.find (\<lambda>(i, e). te_peer_node e = node) (st_tunnels stA) = Some (i, e)"
    and "distinct (map fst (st_tunnels stA))" and "mdns_drain A our partner node stA captured = Some (stA', ds)"
  shows "length ds = length captured \<and> (arrive ds = ds \<longleftrightarrow> list_all (\<lambda>p. length p \<le> 1428) captured)"
  using assms(2-4)
proof (induction captured arbitrary: stA e ds)
  case (Cons payload queue)
  obtain t w where t: "encrypt (cf_wg A) (te_tun e) (fwd_packet our partner payload) = (t, w)" by fastforce
  let ?st = "stA\<lparr>st_tunnels := AList.update i (e\<lparr>te_tun := t\<rparr>) (st_tunnels stA)\<rparr>"
  have "te_peer_node e = node" using find_SomeD [OF Cons.prems(1)] by simp
  then have f: "List.find (\<lambda>(i, e). te_peer_node e = node) (st_tunnels ?st) = Some (i, e\<lparr>te_tun := t\<rparr>)"
    using find_update [OF Cons.prems(1,2)] by simp
  obtain ds' where d: "mdns_drain A our partner node ?st queue = Some (stA', ds')" "ds = (w, te_addr e) # ds'"
    using Cons.prems(1,3) t by (auto simp: udp_datagram_fwd bind_eq_Some_conv split: prod.splits)
  have "length ds' = length queue \<and> (arrive ds' = ds' \<longleftrightarrow> list_all (\<lambda>p. length p \<le> 1428) queue)"
    using Cons.IH [OF f _ d(1)] Cons.prems(2) by (simp add: distinct_update)
  then show ?case using encrypt_fits [OF assms(1) t] d(2)
    by (auto simp: arrive_def length_fwd_packet INNER_MAX_def)
qed (simp add: arrive_def)

theorem mdns_payload_limit_witness:
  "\<exists>st ds. mdns_drain toy_node 1 2 (replicate 32 8) toy_visitor [replicate 1429 0] = Some (st, ds) \<and> arrive ds \<noteq> ds"
proof -
  have e: "List.find (\<lambda>(i, e). te_peer_node e = replicate 32 8) (st_tunnels toy_visitor) = Some (9, toy_end toy_tunnel (replicate 32 8))"
    "distinct (map fst (st_tunnels toy_visitor))" "wg_crypto_ok (cf_wg toy_node)"
    using toy_crypto_ok by (simp_all add: toy_visitor_def toy_end_def toy_node_def)
  obtain t w where t: "encrypt (cf_wg toy_node) (te_tun (toy_end toy_tunnel (replicate 32 8))) (fwd_packet 1 2 (replicate 1429 0)) = (t, w)" by fastforce
  then obtain st ds where "mdns_drain toy_node 1 2 (replicate 32 8) toy_visitor [replicate 1429 0] = Some (st, ds)"
    using e(1) by (simp add: udp_datagram_fwd)
  with mdns_payload_limit [OF e(3,1,2) this] show ?thesis by auto
qed

end
