(* ===== verification/Bench.thy ===== *)
theory Bench
  imports Firmware Mdns_Bridge
begin

text \<open>
  The \<open>bench\<close> build of \<^verbatim>\<open>src/dataplane.rs\<close>, in which a load generator measures the tunnel: packets to
  port 5201 are counted and dropped before the packet filter, which this build does not have;
  once a second the rate goes back through the tunnel as an inner datagram to port 5202. The rate
  is computed and printed in floating point; its text is an argument. Shown: the packet that
  \<open>bench_stats_inner\<close> lays out by hand is well formed, and the load generator reads the
  report from it; a build with the feature treats every other packet as a node without a filter.
\<close>

subsection \<open>The report\<close>

primrec bench_sum :: "bytes \<Rightarrow> nat list \<Rightarrow> u32 \<Rightarrow> u32 panics" where
  "bench_sum p [] s = Some s"
| "bench_sum p (i # is) s = do {
     a \<leftarrow> idx p i; b \<leftarrow> idx p (i + 1);
     bench_sum p is (s + ucast (from_be_bytes [a, b] :: u16)) }"

definition bench_stats_inner :: "bytes \<Rightarrow> bytes panics" where
  "bench_stats_inner payload = do {
     let total = 20 + 8 + length payload;
     let p = replicate total 0;
     p \<leftarrow> store p 0 0x45;
     p \<leftarrow> copy_from p 2 4 (to_be_bytes (of_nat total :: u16));
     p \<leftarrow> store p 8 64;
     p \<leftarrow> store p 9 17;
     p \<leftarrow> copy_from p 12 16 [100, 64, 0, 1];
     p \<leftarrow> copy_from p 16 20 [100, 64, 0, 99];
     s \<leftarrow> bench_sum p (map (\<lambda>k. 2 * k) [0..<10]) 0;
     let c = NOT (ucast (fold16 s) :: u16);
     p \<leftarrow> copy_from p 10 12 (to_be_bytes c);
     p \<leftarrow> copy_from p 20 22 (to_be_bytes (5202 :: u16));
     p \<leftarrow> copy_from p 22 24 (to_be_bytes (5202 :: u16));
     p \<leftarrow> copy_from p 24 26 (to_be_bytes (of_nat (8 + length payload) :: u16));
     copy_from p 28 (length p) payload
   }"

subsection \<open>The sink\<close>

record bench_state =
  bn_dp :: dp_state
  bn_bytes :: u64
  bn_pkts :: u64
  bn_last :: nat

text \<open>
  \<open>handle_decrypted\<close> with the feature; \<open>now\<close> and \<open>reset\<close> are the two readings of the clock in milliseconds,
  \<open>report\<close> prints the rate from the bytes, the packets and the time.
\<close>

definition handle_decrypted_bench ::
  "node_cfg \<Rightarrow> packet_rand \<Rightarrow> (u64 \<Rightarrow> u64 \<Rightarrow> nat \<Rightarrow> string) \<Rightarrow> nat \<Rightarrow> nat \<Rightarrow> bench_state \<Rightarrow> u32 \<Rightarrow> bytes \<Rightarrow> socket_addr \<Rightarrow>
     (bench_state \<times> datagram list) panics" where
  "handle_decrypted_bench cf rn report now reset b our_index inner src =
    (let st = bn_dp b in
     case map_of (st_tunnels st) our_index of
       None \<Rightarrow> Some (b, [])
     | Some e \<Rightarrow> do {
     sink \<leftarrow> (if inner = [] then Some None else udp_payload_to_port inner 5201);
     case sink of
       None \<Rightarrow> do {
         (st, out) \<leftarrow> handle_decrypted (unfiltered cf) rn st our_index inner src;
         Some (b\<lparr>bn_dp := st\<rparr>, out) }
     | Some _ \<Rightarrow> do {
         let e = e\<lparr>te_addr := src\<rparr>;
         let b = b\<lparr>bn_bytes := bn_bytes b + of_nat (length inner), bn_pkts := bn_pkts b + 1\<rparr>;
         let el = now - bn_last b;
         if el \<ge> 1000 then do {
           stats \<leftarrow> bench_stats_inner (ascii (report (bn_bytes b) (bn_pkts b) el));
           let (tun, w) = encrypt (cf_wg cf) (te_tun e) stats;
           let st = st\<lparr>st_tunnels := AList.update our_index (e\<lparr>te_tun := tun\<rparr>) (st_tunnels st)\<rparr>;
           Some (b\<lparr>bn_dp := st, bn_bytes := 0, bn_pkts := 0, bn_last := reset\<rparr>, [(w, src)]) }
         else Some (b\<lparr>bn_dp := st\<lparr>st_tunnels := AList.update our_index e (st_tunnels st)\<rparr>\<rparr>, []) } })"

subsection \<open>The report is well formed\<close>

definition bench_header0 :: "nat \<Rightarrow> bytes" where
  "bench_header0 n = [0x45, 0] @ to_be_bytes (of_nat n :: u16) @ [0, 0, 0, 0, 64, 17, 0, 0, 100, 64, 0, 1, 100, 64, 0, 99]"

definition bench_header :: "nat \<Rightarrow> bytes" where
  "bench_header n = put (bench_header0 n) 10 (to_be_bytes (checksum (bench_header0 n)))"

definition bench_packet :: "bytes \<Rightarrow> bytes" where
  "bench_packet payload = bench_header (28 + length payload) @ to_be_bytes (5202 :: u16) @ to_be_bytes (5202 :: u16) @
     to_be_bytes (of_nat (8 + length payload) :: u16) @ [0, 0] @ payload"

lemma length_bench_header [simp]: "length (bench_header0 n) = 20" "length (bench_header n) = 20"
  by (simp_all add: bench_header_def bench_header0_def)

lemma bench_header0_puts:
  "w = of_nat n \<Longrightarrow> put (put (put (put (put (put (replicate 20 0) 0 [0x45]) 2 (to_be_bytes (w :: u16))) 8 [64]) 9 [17]) 12 [100, 64, 0, 1])
     16 [100, 64, 0, 99] = bench_header0 n"
  by (simp add: put_def bench_header0_def)

lemma bench_sum_header: "bench_sum (bench_header0 n @ z) (map (\<lambda>k. 2 * k) [0..<10]) 0 = Some (sum16 (bench_header0 n) 0)"
proof -
  obtain a b where "to_be_bytes (of_nat n :: u16) = [a, b]" using to_be_bytes_16 by blast
  then show ?thesis by (simp add: bench_header0_def upt_rec rust_simps nth_append)
qed

lemma bench_udp_puts:
  "put (put (put (replicate 8 0) 0 (to_be_bytes a)) 2 (to_be_bytes b)) 4 (to_be_bytes c) =
   to_be_bytes (a :: u16) @ to_be_bytes (b :: u16) @ to_be_bytes (c :: u16) @ [0, 0]"
  by (simp add: put_def)

lemma bench_payload_put: "put (0 # 0 # replicate (length payload) 0) 2 payload = 0 # 0 # payload"
  by (simp add: put_def)

lemma bench_stats_inner_eq: "bench_stats_inner payload = Some (bench_packet payload)"
proof -
  have r: "replicate (20 + 8 + length payload) (0 :: u8) = replicate 20 0 @ replicate 8 0 @ replicate (length payload) 0"
    by (simp only: replicate_add append.assoc)
  show ?thesis
    unfolding bench_stats_inner_def Let_def r
    by (simp add: rust_simps list_update_put put_append1 put_append2 bench_header0_puts [where n = "28 + length payload"]
        bench_sum_header bench_udp_puts bench_payload_put bench_packet_def bench_header_def checksum_def finish_def)
qed

lemma bench_packet_read:
  assumes "length payload \<le> 65507"
  shows "udp_payload_to_port (bench_packet payload @ z) 5202 = Some (Some payload)"
    and "checksum (sub (bench_packet payload) 0 20) = 0"
proof -
  define p where "p = bench_packet payload"
  have len: "length p = 28 + length payload" by (simp add: p_def bench_packet_def)
  have f: "p ! 0 = 0x45" "p ! 9 = 17" "sub p 2 4 = to_be_bytes (of_nat (28 + length payload) :: u16)"
    by (simp_all add: p_def bench_packet_def bench_header_def bench_header0_def put_def nth_append)
  have ihl: "ihl_of p = 20" by (simp add: ihl_of_def f)
  have "[p ! 2, p ! 3] = to_be_bytes (of_nat (28 + length payload) :: u16)" using len f(3) by (simp add: sub_2_eq)
  then have tot: "total_len_of p = 28 + length payload"
    using assms by (simp add: total_len_of_def bytes_roundtrip unat_of_nat del: of_nat_add)
  have port: "sub p 22 24 = to_be_bytes (5202 :: u16)" and pay: "sub p 28 (28 + length payload) = payload"
    by (simp_all add: p_def bench_packet_def sub_Cons_pos)
  have "20 \<le> length p" using len by simp
  note h = header_padded [OF this, of z]
  show "udp_payload_to_port (bench_packet payload @ z) 5202 = Some (Some payload)"
    unfolding p_def [symmetric] udp_payload_to_port_eq h ihl tot
    using len f(1,2) port pay by (simp add: is_ipv4_def bytes_roundtrip)
  have "sub p 0 20 = bench_header (28 + length payload)" by (simp add: p_def bench_packet_def sub_def)
  then show "checksum (sub (bench_packet payload) 0 20) = 0"
    unfolding p_def [symmetric] bench_header_def by (simp add: ip.insert_verifies bench_header0_def nth_append)
qed

text \<open>
  A bench packet is counted and reaches no service; once a second the load generator at the other end of the tunnel
  gets a datagram that it opens, up to padding, to the report. Every other packet is handled as by a node without a filter.
\<close>

lemma bench_report_read:
  assumes "wg_crypto_ok (cf_wg cf)" and "map_of (st_tunnels (bn_dp b)) i = Some e" and "inner \<noteq> []"
    and "udp_payload_to_port inner 5201 = Some (Some q)" and "tun_recv_key u = tun_send_key (te_tun e)"
    and "1000 \<le> now - bn_last b"
    and "text = ascii (report (bn_bytes b + of_nat (length inner)) (bn_pkts b + 1) (now - bn_last b))" and "length text \<le> 65507"
  shows "\<exists>b' w pt. handle_decrypted_bench cf rn report now reset b i inner src = Some (b', [(w, src)]) \<and>
    bn_pkts b' = 0 \<and> decrypt (cf_wg cf) u w = Some (Inr pt) \<and> udp_payload_to_port pt 5202 = Some (Some text)"
proof -
  obtain t w where t: "encrypt (cf_wg cf) (te_tun e) (bench_packet text) = (t, w)" by fastforce
  have d: "decrypt (cf_wg cf) u w = Some (Inr (pad_loop (bench_packet text)))" by (rule decrypt_encrypt [OF assms(1) t assms(5)])
  obtain z where "pad_loop (bench_packet text) = bench_packet text @ z" using padded by blast
  then have "udp_payload_to_port (pad_loop (bench_packet text)) 5202 = Some (Some text)"
    using bench_packet_read(1) [OF assms(8)] by simp
  then show ?thesis using assms(2-4,6) t d
    by (auto simp: handle_decrypted_bench_def Let_def assms(7) [symmetric] bench_stats_inner_eq)
qed

lemma bench_other_packets:
  assumes "inner = [] \<or> udp_payload_to_port inner 5201 = Some None"
  shows "handle_decrypted_bench cf rn report now reset b i inner src =
    map_option (\<lambda>(st, out). (b\<lparr>bn_dp := st\<rparr>, out)) (handle_decrypted (unfiltered cf) rn (bn_dp b) i inner src)"
proof (cases "map_of (st_tunnels (bn_dp b)) i")
  case None
  then show ?thesis by (simp add: handle_decrypted_bench_def handle_decrypted_def Let_def)
next
  case (Some e)
  then show ?thesis using assms
    by (cases "handle_decrypted (unfiltered cf) rn (bn_dp b) i inner src")
      (auto simp: handle_decrypted_bench_def Let_def split_beta)
qed

end
