(* ===== verification/Platform.thy ===== *)
theory Platform
  imports Startup_Properties Mdns
begin

text \<open>
  Where the firmware takes resources from esp-idf and the operating system: the TLS sessions of
  \<^verbatim>\<open>src/derp.rs\<close> (\<open>tls_connect\<close>, \<open>Derp::connect\<close>, the \<open>Drop\<close> of \<open>Derp\<close> and the loop of \<open>run\<close>), the
  UDP socket of \<^verbatim>\<open>src/magicsock.rs\<close>, the TCP socket of \<^verbatim>\<open>src/control/mod.rs\<close>, the
  multicast socket of \<^verbatim>\<open>src/mdns.rs\<close> and the address
  translation of \<^verbatim>\<open>src/router.rs\<close>. The platform's calls are arguments; the esp-tls handles that
  are allocated are an explicit list, and freeing one that is not allocated is a panic. Shown: the
  relay thread gives every TLS handle back, once, whatever happens to its connections, so
  it can reconnect forever.
\<close>

subsection \<open>TLS handles\<close>

type_synonym raw_handle = nat

type_synonym tls_heap = "raw_handle list"

datatype tls_open_error = TlsInit | ConnNewSync int

record tls_cfg =
  tls_crt_bundle_attach :: bool
  tls_timeout_ms :: int

text \<open>\<open>esp_tls_conn_destroy\<close>: freeing a handle that is not allocated is undefined behaviour.\<close>

definition tls_destroy :: "raw_handle \<Rightarrow> tls_heap \<Rightarrow> tls_heap panics" where
  "tls_destroy tls live = (if tls \<in> set live then Some (remove1 tls live) else None)"

text \<open>
  \<open>init\<close> is what \<open>esp_tls_init\<close> returns (\<open>None\<close>: null), \<open>conn_new_sync\<close> the result of
  \<open>esp_tls_conn_new_sync\<close> on host, length, port and configuration. \<open>CString::new\<close> refuses a host
  with a NUL and is unwrapped.
\<close>

definition tls_connect ::
  "raw_handle option \<Rightarrow> (string \<Rightarrow> int \<Rightarrow> int \<Rightarrow> tls_cfg \<Rightarrow> int) \<Rightarrow> string \<Rightarrow> u16 \<Rightarrow> tls_heap \<Rightarrow>
     (tls_heap \<times> (tls_open_error + raw_handle)) panics" where
  "tls_connect init conn_new_sync host port live =
    (case init of
       None \<Rightarrow> Some (live, Inl TlsInit)
     | Some tls \<Rightarrow>
       (let live = tls # live;
            cfg = \<lparr>tls_crt_bundle_attach = True, tls_timeout_ms = 15000\<rparr>
        in if CHR 0x00 \<in> set host then None
           else let r = conn_new_sync host (int (length host)) (uint port) cfg
             in if r \<noteq> 1 then do { live \<leftarrow> tls_destroy tls live; Some (live, Inl (ConnNewSync r)) }
                else Some (live, Inr tls)))"

subsection \<open>The relay connection and its loop\<close>

text \<open>
  What one round of \<open>derp::run\<close> meets: the results of the two calls of \<open>tls_connect\<close>, the session
  once it is open, the nonce of the login and the random values of the packets.
\<close>

record relay_round =
  rr_init :: "raw_handle option"
  rr_conn :: "string \<Rightarrow> int \<Rightarrow> int \<Rightarrow> tls_cfg \<Rightarrow> int"
  rr_session :: derp_conn
  rr_nonce :: bytes
  rr_rands :: "nat \<Rightarrow> derp_rand"

datatype derp_open_error = DerpTls tls_open_error | DerpProtocol derp_error

text \<open>\<open>Derp::connect\<close>: an error after \<open>tls_connect\<close> drops the \<open>Derp\<close>, which frees its handle.\<close>

definition derp_open ::
  "node_cfg \<Rightarrow> relay_round \<Rightarrow> tls_heap \<Rightarrow> (tls_heap \<times> (derp_open_error + raw_handle \<times> derp_conn)) panics" where
  "derp_open cf c live = do {
     (live, r) \<leftarrow> tls_connect (rr_init c) (rr_conn c) DERP_HOST 443 live;
     (case r of
        Inl e \<Rightarrow> Some (live, Inl (DerpTls e))
      | Inr tls \<Rightarrow>
        (case derp_connect (cf_box cf) DERP_HOST (id_node_priv (cf_id cf)) (id_node_pub (cf_id cf)) (rr_nonce c) (rr_session c) of
           (d, Inl e) \<Rightarrow> do { live \<leftarrow> tls_destroy tls live; Some (live, Inl (DerpProtocol e)) }
         | (d, Inr _) \<Rightarrow> Some (live, Inr (tls, d)))) }"

text \<open>One round; the \<open>Derp\<close> is dropped at the end of its match arm.\<close>

definition relay_round_run ::
  "node_cfg \<Rightarrow> upgrade option \<Rightarrow> relay_round \<Rightarrow> tls_heap \<Rightarrow> (tls_heap \<times> target list) panics" where
  "relay_round_run cf up c live = do {
     (live, r) \<leftarrow> derp_open cf c live;
     (case r of
        Inl e \<Rightarrow> Some (live, [])
      | Inr (tls, d) \<Rightarrow> do {
          (st, d, ts) \<leftarrow> derp_serve cf up (rr_rands c) 0 derp_state_new d;
          live \<leftarrow> tls_destroy tls live;
          Some (live, ts) }) }"

primrec relay_run ::
  "node_cfg \<Rightarrow> upgrade option \<Rightarrow> relay_round list \<Rightarrow> tls_heap \<Rightarrow> (tls_heap \<times> target list) panics" where
  "relay_run cf up [] live = Some (live, [])"
| "relay_run cf up (c # cs) live = do {
     (live, ts) \<leftarrow> relay_round_run cf up c live;
     (live, ts') \<leftarrow> relay_run cf up cs live;
     Some (live, ts @ ts') }"

subsection \<open>Sockets and address translation\<close>

record 's udp_ops =
  uo_bind :: "string \<Rightarrow> 's option"
  uo_local_port :: "'s \<Rightarrow> u16 option"
  uo_set_read_timeout :: "'s \<Rightarrow> nat option \<Rightarrow> 's option"
  uo_recv_from :: "'s \<Rightarrow> nat \<Rightarrow> 's \<times> (bytes \<times> socket_addr) option"
  uo_send_to :: "'s \<Rightarrow> bytes \<Rightarrow> socket_addr \<Rightarrow> 's \<times> nat option"

record 's magic_sock =
  ms_sock :: 's
  ms_local_port :: u16

datatype bind_error = BindUdp | LocalAddr | SetReadTimeout

text \<open>\<open>MagicSock::bind\<close>, with and without the feature \<open>bench\<close>; timeouts are in milliseconds.\<close>

definition magicsock_bind :: "'s udp_ops \<Rightarrow> bool \<Rightarrow> bind_error + 's magic_sock" where
  "magicsock_bind U bench =
    (let bind_addr = (if bench then ''0.0.0.0:51820'' else ''0.0.0.0:0'')
     in case uo_bind U bind_addr of
       None \<Rightarrow> Inl BindUdp
     | Some sock \<Rightarrow>
       (case uo_local_port U sock of
          None \<Rightarrow> Inl LocalAddr
        | Some local_port \<Rightarrow>
          (case uo_set_read_timeout U sock (Some 3000) of
             None \<Rightarrow> Inl SetReadTimeout
           | Some sock \<Rightarrow> Inr \<lparr>ms_sock = sock, ms_local_port = local_port\<rparr>)))"

definition ms_set_read_timeout :: "'s udp_ops \<Rightarrow> 's magic_sock \<Rightarrow> nat option \<Rightarrow> bind_error + 's magic_sock" where
  "ms_set_read_timeout U ms d =
    (case uo_set_read_timeout U (ms_sock ms) d of None \<Rightarrow> Inl SetReadTimeout | Some s \<Rightarrow> Inr (ms\<lparr>ms_sock := s\<rparr>))"

definition ms_recv_from :: "'s udp_ops \<Rightarrow> 's magic_sock \<Rightarrow> nat \<Rightarrow> 's magic_sock \<times> (bytes \<times> socket_addr) option" where
  "ms_recv_from U ms len = (case uo_recv_from U (ms_sock ms) len of (s, r) \<Rightarrow> (ms\<lparr>ms_sock := s\<rparr>, r))"

definition ms_send_to :: "'s udp_ops \<Rightarrow> 's magic_sock \<Rightarrow> bytes \<Rightarrow> socket_addr \<Rightarrow> 's magic_sock \<times> nat option" where
  "ms_send_to U ms buf addr = (case uo_send_to U (ms_sock ms) buf addr of (s, r) \<Rightarrow> (ms\<lparr>ms_sock := s\<rparr>, r))"

text \<open>
  One attempt of the STUN query on the socket: the request is sent, and one datagram is received
  into a buffer of 512 bytes. The \<open>i\<close>-th attempt finds the socket as the attempts before left it.
\<close>

definition stun_attempt ::
  "'s udp_ops \<Rightarrow> socket_addr \<Rightarrow> bytes \<Rightarrow> 's magic_sock \<Rightarrow> 's magic_sock \<times> bool \<times> bytes option" where
  "stun_attempt U target req ms =
    (case ms_send_to U ms req target of
       (ms, None) \<Rightarrow> (ms, False, None)
     | (ms, Some _) \<Rightarrow> (case ms_recv_from U ms 512 of (ms, r) \<Rightarrow> (ms, True, map_option fst r)))"

definition stun_net :: "'s udp_ops \<Rightarrow> 's magic_sock \<Rightarrow> socket_addr \<Rightarrow> bytes \<Rightarrow> nat \<Rightarrow> bool \<times> bytes option" where
  "stun_net U ms target req i =
    snd (stun_attempt U target req (((\<lambda>ms. fst (stun_attempt U target req ms)) ^^ i) ms))"

text \<open>The socket part of \<open>main\<close>: no socket, or its port with the outcome of the STUN query.\<close>

definition udp_setup ::
  "'s udp_ops \<Rightarrow> bool \<Rightarrow> socket_addr list option \<Rightarrow> bytes \<Rightarrow> (u16 \<times> (stun_query_error + socket_addr_v4)) option panics" where
  "udp_setup U bench resolved random_12 =
    (case magicsock_bind U bench of
       Inl e \<Rightarrow> Some None
     | Inr ms \<Rightarrow> do {
         r \<leftarrow> stun_public_addr resolved (stun_net U ms) random_12;
         Some (Some (ms_local_port ms, r)) })"

text \<open>\<open>tcp_connect\<close>: the timeouts have to be set, \<open>TCP_NODELAY\<close> is tried.\<close>

record 's tcp_ops =
  to_connect :: "string \<Rightarrow> u16 \<Rightarrow> 's option"
  to_set_read_timeout :: "'s \<Rightarrow> nat option \<Rightarrow> 's option"
  to_set_write_timeout :: "'s \<Rightarrow> nat option \<Rightarrow> 's option"
  to_set_nodelay :: "'s \<Rightarrow> bool \<Rightarrow> 's option"

definition tcp_connect :: "'s tcp_ops \<Rightarrow> string \<Rightarrow> u16 \<Rightarrow> 's option" where
  "tcp_connect T host port = do {
     stream \<leftarrow> to_connect T host port;
     stream \<leftarrow> to_set_read_timeout T stream (Some 75000);
     stream \<leftarrow> to_set_write_timeout T stream (Some 20000);
     Some (case to_set_nodelay T stream True of Some stream \<Rightarrow> stream | None \<Rightarrow> stream) }"

text \<open>
  The multicast socket of the reflector, and \<open>mdns::run\<close> around its loop: without a socket the
  thread ends and reflects nothing.
\<close>

record 's mcast_ops =
  mo_bind :: "ipv4addr \<Rightarrow> u16 \<Rightarrow> 's option"
  mo_join_multicast_v4 :: "'s \<Rightarrow> ipv4addr \<Rightarrow> ipv4addr \<Rightarrow> 's option"

definition bind_mdns :: "'s mcast_ops \<Rightarrow> ipv4addr \<Rightarrow> 's option" where
  "bind_mdns M lan_ip = do {
     sock \<leftarrow> mo_bind M 0 MDNS_PORT;
     mo_join_multicast_v4 M sock GROUP lan_ip }"

definition mdns_run ::
  "'s mcast_ops \<Rightarrow> ipv4addr \<Rightarrow> (bytes list \<times> (bytes \<times> ipv4addr) option) list \<Rightarrow>
     (bytes \<times> ipv4addr \<times> u16) list \<times> bytes list" where
  "mdns_run M lan_ip inputs =
    (case bind_mdns M lan_ip of
       None \<Rightarrow> ([], [])
     | Some sock \<Rightarrow> snd (reflect_run lan_ip reflector_new inputs))"

definition ESP_OK :: int where "ESP_OK = 0"

text \<open>\<open>enable_napt_on_sta\<close>; \<open>None\<close> is the null handle.\<close>

definition enable_napt_on_sta :: "(raw_handle \<Rightarrow> int) \<Rightarrow> raw_handle option \<Rightarrow> int + unit" where
  "enable_napt_on_sta napt_enable sta =
    (case sta of
       None \<Rightarrow> Inl (- 1)
     | Some sta \<Rightarrow> (let err = napt_enable sta in if err = ESP_OK then Inr () else Inl err))"

subsection \<open>The handles are given back\<close>

text \<open>The round as \<open>derp_run\<close> sees it: the session, when \<open>tls_connect\<close> opens one.\<close>

definition opened :: "relay_round \<Rightarrow> bool" where
  "opened c \<longleftrightarrow> rr_init c \<noteq> None \<and>
    rr_conn c DERP_HOST (int (length DERP_HOST)) 443 \<lparr>tls_crt_bundle_attach = True, tls_timeout_ms = 15000\<rparr> = 1"

definition seen_session :: "relay_round \<Rightarrow> (nat \<Rightarrow> derp_rand) \<times> bytes \<times> derp_conn option" where
  "seen_session c = (rr_rands c, rr_nonce c, if opened c then Some (rr_session c) else None)"

lemma no_targets: "map_option ((@) []) x = x"
  by (cases x) simp_all

lemma host_has_no_nul: "CHR 0x00 \<notin> set DERP_HOST"
  by (simp add: DERP_HOST_def)

lemma tls_connect_host:
  "\<exists>r. tls_connect (rr_init c) (rr_conn c) DERP_HOST 443 live = Some r \<and>
     (if opened c then r = (the (rr_init c) # live, Inr (the (rr_init c))) else fst r = live \<and> (\<exists>e. snd r = Inl e))"
  using host_has_no_nul by (auto simp: tls_connect_def opened_def tls_destroy_def Let_def split: option.split)

lemma relay_round_returns:
  assumes "identity_ok cf"
  shows "\<exists>ts. relay_round_run cf up c live = Some (live, ts) \<and>
    derp_run cf up (seen_session c # cs) = map_option (\<lambda>ts'. ts @ ts') (derp_run cf up cs)"
proof (cases "opened c")
  case False
  then obtain e where "tls_connect (rr_init c) (rr_conn c) DERP_HOST 443 live = Some (live, Inl e)"
    using tls_connect_host [of c live] by auto
  then show ?thesis using False by (simp add: relay_round_run_def derp_open_def seen_session_def no_targets)
next
  case True
  define h where "h = the (rr_init c)"
  have t: "tls_connect (rr_init c) (rr_conn c) DERP_HOST 443 live = Some (h # live, Inr h)"
    using tls_connect_host [of c live] True by (auto simp: h_def)
  obtain d1 r where k: "derp_connect (cf_box cf) DERP_HOST (id_node_priv (cf_id cf)) (id_node_pub (cf_id cf)) (rr_nonce c) (rr_session c) = (d1, r)"
    by fastforce
  obtain st' d' ts where s: "derp_serve cf up (rr_rands c) 0 derp_state_new d1 = Some (st', d', ts)"
    using derp_serve_returns [OF assms, of derp_state_new up "rr_rands c" 0 d1] by (auto simp: derp_state_new_def)
  have d: "tls_destroy h (h # live) = Some live" by (simp add: tls_destroy_def)
  have b: "Option.bind x (\<lambda>ts'. Some (ts @ ts')) = map_option (\<lambda>ts'. ts @ ts') x" for x :: "target list option"
    by (cases x) simp_all
  show ?thesis
    by (cases r) (simp_all add: relay_round_run_def derp_open_def seen_session_def True t k s d b no_targets)
qed

text \<open>
  C34. The relay thread leaks no TLS handle and frees none twice. Let the node's identity be well formed. Then for every
  sequence of rounds (an allocation that fails, a TLS connection that is refused with any code, an
  upgrade or a login that fails at any point, sessions that are served and break off) the loop
  returns with exactly the handles allocated that were before it, no call frees a handle that is not allocated, and the
  targets it hands over are those of the model of the loop that has no handles.
\<close>

theorem tls_handles_released:
  assumes "identity_ok cf"
  shows "\<exists>ts. relay_run cf up rounds live = Some (live, ts) \<and> derp_run cf up (map seen_session rounds) = Some ts"
proof (induction rounds)
  case (Cons c cs)
  then obtain ts' where i: "relay_run cf up cs live = Some (live, ts')" "derp_run cf up (map seen_session cs) = Some ts'" by blast
  obtain ts where "relay_round_run cf up c live = Some (live, ts)"
    "derp_run cf up (seen_session c # map seen_session cs) = map_option (\<lambda>ts'. ts @ ts') (derp_run cf up (map seen_session cs))"
    using relay_round_returns [OF assms, of up c live "map seen_session cs"] by (elim exE conjE)
  with i show ?case by (simp del: derp_run.simps)
qed simp

text \<open>A relay whose first allocation fails, whose second connection is refused and whose third opens and fails at the first write.\<close>

definition toy_rounds :: "relay_round list" where
  "toy_rounds = (let r = \<lparr>rr_init = None, rr_conn = \<lambda>_ _ _ _. 1, rr_session = \<lparr>dc_reads = [], dc_writes = [TlsWriteFail], dc_sent = []\<rparr>,
      rr_nonce = replicate 24 0, rr_rands = \<lambda>_. toy_relay_rand\<rparr>
    in [r, r\<lparr>rr_init := Some 7, rr_conn := \<lambda>_ _ _ _. - 1\<rparr>, r\<lparr>rr_init := Some 9\<rparr>])"

theorem tls_handles_released_witness:
  "identity_ok toy_relay \<and> relay_run toy_relay None toy_rounds [3] = Some ([3], []) \<and>
   derp_run toy_relay None (map seen_session toy_rounds) = Some []"
proof -
  have "derp_run toy_relay None (map seen_session toy_rounds) = Some []"
    by (simp add: toy_rounds_def seen_session_def opened_def Let_def derp_connect_def http_upgrade_def write_all_def
        derp_upgrade_request_def)
  with tls_handles_released [OF toy_relay_ok, of None toy_rounds "[3]"] toy_relay_ok show ?thesis by auto
qed

text \<open>Without the feature \<open>bench\<close> the port is the system's choice; with it, it is the port of the load generator.\<close>

lemma bench_port:
  assumes "\<And>s. uo_bind U ''0.0.0.0:51820'' = Some s \<Longrightarrow> uo_local_port U s = Some 51820"
    and "magicsock_bind U True = Inr ms"
  shows "ms_local_port ms = 51820"
  using assms by (auto simp: magicsock_bind_def split: option.splits)

lemma udp_setup_returns:
  assumes "length random_12 = 12"
  shows "\<exists>r. udp_setup U bench resolved random_12 = Some r"
proof -
  have "\<exists>r. stun_attempts net txid e as = Some r" for net txid e as
  proof (induction as arbitrary: e)
    case (Cons i as)
    show ?case
    proof (cases "snd (net i)")
      case None
      then show ?thesis using Cons [of "StunRecv i"] by (auto simp: split_beta)
    next
      case (Some b)
      obtain r where "parse_response b txid = Some r" using parse_response_total by blast
      then show ?thesis using Some Cons [of "NonStunReply (length b)"] by (auto simp: split_beta is_stun_eq)
    qed
  qed simp
  then have "stun_attempts net txid e as = Some (the (stun_attempts net txid e as))" for net txid e as by (metis option.sel)
  note a = this
  have "\<exists>r. stun_public_addr resolved net random_12 = Some r" for net
    unfolding stun_public_addr_def binding_request_eq [OF assms]
    by (auto intro: a split: option.split)
  then obtain f where "stun_public_addr resolved net random_12 = Some (f net)" for net by metis
  then show ?thesis by (auto simp: udp_setup_def split: sum.split)
qed

lemma napt_needs_handle: "enable_napt_on_sta f None = Inl (- 1)" "enable_napt_on_sta f (Some h) = Inr () \<longleftrightarrow> f h = ESP_OK"
  by (simp_all add: enable_napt_on_sta_def Let_def)

lemma mdns_run_needs_group:
  assumes "mdns_run M lan_ip inputs \<noteq> ([], [])"
  shows "\<exists>sock. mo_bind M 0 5353 = Some sock \<and> mo_join_multicast_v4 M sock 0xE00000FB lan_ip \<noteq> None"
  using assms by (auto simp: mdns_run_def bind_mdns_def GROUP_def MDNS_PORT_def split: option.splits bind_splits)

end
