(* ===== verification/Display.thy ===== *)
theory Display
  imports Startup Port_Spray
begin

text \<open>
  The screens of \<^verbatim>\<open>src/main.rs\<close>: \<open>draw_message\<close>, \<open>draw_auth_url\<close> and what the main loop shows. A
  screen is the list of its drawing operations; the display is any \<open>DrawTarget\<close>, a function that
  performs an operation or fails, and the first failure ends the drawing. Coordinates are \<open>i32\<close>.
  Shown: the login URL is drawn completely, cut into lines that fit the panel, exactly up to
  130 characters, and the status screens fit.
\<close>

subsection \<open>Drawing\<close>

datatype font = FONT_6X10 | FONT_5X8

datatype colour = BLACK | CYAN | WHITE | YELLOW

datatype draw_op = Clear colour | DrawText string int int font colour

definition H_RES :: u16 where "H_RES = 160"
definition V_RES :: u16 where "V_RES = 80"
definition TITLE_H :: int where "TITLE_H = 11"
definition ROW_H :: int where "ROW_H = 9"
definition CHAR_W :: int where "CHAR_W = 6"

primrec draw_all :: "('d \<Rightarrow> draw_op \<Rightarrow> 'e + 'd) \<Rightarrow> draw_op list \<Rightarrow> 'd \<Rightarrow> 'e + 'd" where
  "draw_all perform [] d = Inr d"
| "draw_all perform (op # ops) d =
    (case perform d op of Inl e \<Rightarrow> Inl e | Inr d \<Rightarrow> draw_all perform ops d)"

subsection \<open>The screens\<close>

primrec message_rows :: "nat \<Rightarrow> string list \<Rightarrow> draw_op list" where
  "message_rows i [] = []"
| "message_rows i (l # ls) =
    DrawText l 2 (i32 (TITLE_H + 4 + i32 (i32 (int i) * ROW_H))) FONT_5X8 WHITE # message_rows (Suc i) ls"

definition message_ops :: "string \<Rightarrow> string list \<Rightarrow> draw_op list" where
  "message_ops title lines =
    [Clear BLACK, DrawText title 2 0 FONT_6X10 CYAN] @ message_rows 0 lines"

definition draw_message :: "('d \<Rightarrow> draw_op \<Rightarrow> 'e + 'd) \<Rightarrow> 'd \<Rightarrow> string \<Rightarrow> string list \<Rightarrow> 'e + 'd" where
  "draw_message perform display title lines = draw_all perform (message_ops title lines) display"

definition shown_url :: "string \<Rightarrow> string" where
  "shown_url url = (case strip_prefix url ''https://'' of Some s \<Rightarrow> s | None \<Rightarrow> url)"

text \<open>The lines of the URL from row \<open>row\<close> on, and the row after the last.\<close>

primrec url_rows :: "int \<Rightarrow> string list \<Rightarrow> draw_op list \<times> int" where
  "url_rows row [] = ([], row)"
| "url_rows row (l # ls) =
    (let (ops, last) = url_rows (i32 (row + 1)) ls
     in (DrawText l 2 (i32 (TITLE_H + 2 + i32 (row * ROW_H))) FONT_5X8 WHITE # ops, last))"

definition auth_url_ops :: "string \<Rightarrow> draw_op list" where
  "auth_url_ops url =
    (let wrap = unat H_RES div nat CHAR_W;
         (ops, row) = url_rows 0 (chunks wrap (shown_url url))
     in [Clear BLACK, DrawText ''Open in browser:'' 2 0 FONT_6X10 CYAN] @ ops @
        [DrawText ''waiting for auth...'' 2 (i32 (TITLE_H + 2 + i32 (i32 (row + 1) * ROW_H))) FONT_5X8 YELLOW])"

definition draw_auth_url :: "('d \<Rightarrow> draw_op \<Rightarrow> 'e + 'd) \<Rightarrow> 'd \<Rightarrow> string \<Rightarrow> 'e + 'd" where
  "draw_auth_url perform display url = draw_all perform (auth_url_ops url) display"

text \<open>What the map loop shows, and the last screen of a node that is not registered.\<close>

definition ts_line :: "string option \<Rightarrow> string" where
  "ts_line ts_ip = (case ts_ip of Some t \<Rightarrow> ''TS '' @ t | None \<Rightarrow> ''TS (no IP)'')"

definition shown_ops :: "string \<Rightarrow> shown \<Rightarrow> draw_op list" where
  "shown_ops ip s =
    (let lan_line = ''LAN '' @ ip
     in case s of
       Online ts_ip \<Rightarrow> message_ops ''Tailscale online'' [ts_line ts_ip, lan_line, ''status: green'', ''(map stream up)'']
     | Offline ts_ip \<Rightarrow> message_ops ''Tailscale offline'' [ts_line ts_ip, lan_line, ''reconnecting...'', ''''])"

definition not_registered_ops :: "string \<Rightarrow> draw_op list" where
  "not_registered_ops status = message_ops ''Tailscale-Rust'' [status, ''not registered'', '''', '''']"

subsection \<open>What fits the panel\<close>

primrec height :: "font \<Rightarrow> int" where
  "height FONT_6X10 = 10"
| "height FONT_5X8 = 8"

primrec char_width :: "font \<Rightarrow> int" where
  "char_width FONT_6X10 = 6"
| "char_width FONT_5X8 = 5"

primrec on_panel :: "draw_op \<Rightarrow> bool" where
  "on_panel (Clear c) = True"
| "on_panel (DrawText s x y f c) \<longleftrightarrow> 
    0 \<le> x \<and> x + char_width f * int (length s) \<le> uint H_RES \<and> 0 \<le> y \<and> y + height f \<le> uint V_RES"

primrec text_in :: "colour \<Rightarrow> draw_op \<Rightarrow> string" where
  "text_in c (Clear c') = []"
| "text_in c (DrawText s x y f c') = (if c' = c then s else [])"

lemma draw_all_iff:
  "draw_all perform (xs @ ys) d = (case draw_all perform xs d of Inl e \<Rightarrow> Inl e | Inr d \<Rightarrow> draw_all perform ys d)"
  by (induction xs arbitrary: d) (auto split: sum.split)

lemma url_rows_panel:
  assumes "0 \<le> row" and "row + int (length ls) \<le> 100000000"
  shows "snd (url_rows row ls) = row + int (length ls) \<and>
    (list_all on_panel (fst (url_rows row ls)) \<longleftrightarrow>
      list_all (\<lambda>l. length l \<le> 31) ls \<and> (ls = [] \<or> row + int (length ls) \<le> 7)) \<and>
    concat (map (text_in WHITE) (fst (url_rows row ls))) = concat ls"
  using assms
proof (induction ls arbitrary: row)
  case (Cons l ls)
  have r: "i32 (row + 1) = row + 1" "i32 (TITLE_H + 2 + i32 (row * ROW_H)) = 13 + row * 9"
    using Cons.prems by (simp_all add: i32_id TITLE_H_def ROW_H_def)
  have "on_panel (DrawText l 2 (13 + row * 9) FONT_5X8 WHITE) \<longleftrightarrow> length l \<le> 31 \<and> row \<le> 6"
    using Cons.prems by (auto simp: H_RES_def V_RES_def)
  with Cons.IH [of "row + 1"] Cons.prems show ?case
    by (cases ls) (auto simp: r Let_def split_beta simp del: on_panel.simps)
qed simp

lemma length_chunks:
  assumes "0 < n"
  shows "length (chunks n xs) \<le> k \<longleftrightarrow> length xs \<le> n * k"
proof (induction k arbitrary: xs)
  case 0
  then show ?case by (subst chunks.simps) (use assms in simp)
next
  case (Suc k)
  show ?case
  proof (cases "xs = []")
    case True
    then show ?thesis by (subst chunks.simps) simp
  next
    case False
    then have "chunks n xs = take n xs # chunks n (drop n xs)" using assms by (subst chunks.simps) simp
    then show ?thesis using Suc.IH [of "drop n xs"] by (simp del: chunks.simps) linarith
  qed
qed

text \<open>
  C36. The login screen shows the whole URL, as far as it fits. For a URL of any realistic length the lines drawn in
  white are, put together, the URL without its scheme, and each fits the width of the panel; and everything
  drawn, the line that says what the device waits for included, lies on the panel
  exactly when the URL without its scheme has at most 130 characters.
\<close>

theorem auth_url_readable:
  assumes "length url \<le> 1000000"
  shows "concat (map (text_in WHITE) (auth_url_ops url)) = shown_url url \<and>
    (list_all on_panel (auth_url_ops url) \<longleftrightarrow> length (shown_url url) \<le> 130)"
proof -
  let ?ls = "chunks 26 (shown_url url)"
  have n: "length (shown_url url) \<le> 26 * 1000000"
    using assms by (auto simp: shown_url_def strip_prefix_def)
  then have l: "length ?ls \<le> 1000000" using length_chunks [of 26 "shown_url url" 1000000] by simp
  have w: "unat H_RES div nat CHAR_W = 26" by (simp add: H_RES_def CHAR_W_def)
  note r = url_rows_panel [of 0 ?ls]
  have y: "i32 (TITLE_H + 2 + i32 (i32 (int (length ?ls) + 1) * ROW_H)) = 22 + 9 * int (length ?ls)"
    using l by (simp add: i32_id TITLE_H_def ROW_H_def)
  have "list_all (\<lambda>l. length l \<le> 31) ?ls" using chunks_size by (fastforce simp: list_all_iff)
  then have rows: "list_all on_panel (fst (url_rows 0 ?ls)) \<longleftrightarrow> length ?ls \<le> 7" "snd (url_rows 0 ?ls) = int (length ?ls)"
    using r l by auto
  have ops: "auth_url_ops url = [Clear BLACK, DrawText ''Open in browser:'' 2 0 FONT_6X10 CYAN] @ fst (url_rows 0 ?ls) @
      [DrawText ''waiting for auth...'' 2 (22 + 9 * int (length ?ls)) FONT_5X8 YELLOW]"
    unfolding auth_url_ops_def Let_def split_beta w rows(2) y by (rule refl)
  have "list_all on_panel (auth_url_ops url) \<longleftrightarrow> length ?ls \<le> 5"
    unfolding ops list_all_append rows(1) by (auto simp: H_RES_def V_RES_def)
  moreover have "concat (map (text_in WHITE) (auth_url_ops url)) = shown_url url"
    using r l concat_chunks [of 26 "shown_url url"] by (simp add: ops)
  ultimately show ?thesis using length_chunks [of 26 "shown_url url" 5] by simp
qed

theorem auth_url_readable_witness:
  "concat (map (text_in WHITE) (auth_url_ops ''https://login.tailscale.com/a/1234567890abcdef'')) = ''login.tailscale.com/a/1234567890abcdef'' \<and>
   list_all on_panel (auth_url_ops ''https://login.tailscale.com/a/1234567890abcdef'')"
  using auth_url_readable [of "''https://login.tailscale.com/a/1234567890abcdef''"] by (simp add: shown_url_def strip_prefix_def)

text \<open>The status screens fit for every IPv4 address.\<close>

lemma length_show_ipv4: "length (show_ipv4 ip) \<le> 15"
proof -
  have "length (show_nat (unat (b :: u8))) \<le> 3" for b
    using length_decimal_byte [of "unat b"] unat_u8_less [of b] by (simp add: decimal_def length_ascii)
  from this [of "to_be_bytes ip ! 0"] this [of "to_be_bytes ip ! 1"] this [of "to_be_bytes ip ! 2"] this [of "to_be_bytes ip ! 3"]
  show ?thesis by (simp add: show_ipv4_def)
qed

lemma status_screens_fit:
  assumes "ts_ip = None \<or> (\<exists>a. ts_ip = Some (show_ipv4 a))"
  shows "list_all on_panel (shown_ops (show_ipv4 lan) (Online ts_ip))"
    and "list_all on_panel (shown_ops (show_ipv4 lan) (Offline ts_ip))"
proof -
  have "int (length (show_ipv4 ip)) \<le> 15" for ip using length_show_ipv4 [of ip] by simp
  from this [of lan] this assms have "5 * int (length (show_ipv4 lan)) \<le> 75" "5 * int (length (ts_line ts_ip)) \<le> 90"
    by (auto simp: ts_line_def)
  then show "list_all on_panel (shown_ops (show_ipv4 lan) (Online ts_ip))"
    and "list_all on_panel (shown_ops (show_ipv4 lan) (Offline ts_ip))"
    by (simp_all add: shown_ops_def message_ops_def Let_def i32_id TITLE_H_def ROW_H_def H_RES_def V_RES_def)
qed

end
