(* ===== verification/Main_Start.thy ===== *)
theory Main_Start
  imports Firmware Platform Display
begin

text \<open>
  \<open>main\<close> of \<^verbatim>\<open>src/main.rs\<close> from its first line: the display and the WiFi are brought up by a
  sequence of calls each of which can end the program with an error, then come power saving,
  address translation, the clock, the socket with the STUN query, and \<open>boot\<close>. What a run does is a list of
  events; which of the platform's calls succeed is an argument. Shown: the first failing call ends the
  program with nothing stored; the keys are loaded, and random numbers drawn for them, only
  after the radio has been started, on which the hardware generator depends.
\<close>

subsection \<open>Calls of the platform\<close>

datatype main_call =
    TakePeripherals | DcPin | RstPin | BacklightPin | BacklightLow | NewSpi
  | InitDisplay "u16 \<times> u16" "u16 \<times> u16"
  | TakeEventLoop | TakeNvs | NewWifi | WrapWifi | ConfigureWifi string string
  | StartWifi | ConnectWifi | WaitNetif | GetIpInfo

definition OFFSET_X :: u16 where "OFFSET_X = 26"
definition OFFSET_Y :: u16 where "OFFSET_Y = 1"

definition display_calls :: "main_call list" where
  "display_calls = [TakePeripherals, DcPin, RstPin, BacklightPin, BacklightLow, NewSpi,
     InitDisplay (V_RES, H_RES) (OFFSET_X, OFFSET_Y)]"

text \<open>\<open>ssid\<close> and \<open>password\<close> are what \<open>try_into().unwrap_or_default()\<close> made of the configuration.\<close>

definition wifi_calls :: "string \<Rightarrow> string \<Rightarrow> main_call list" where
  "wifi_calls ssid password = [TakeEventLoop, TakeNvs, NewWifi, WrapWifi, ConfigureWifi ssid password,
     StartWifi, ConnectWifi, WaitNetif, GetIpInfo]"

text \<open>The calls made, and the one that failed.\<close>

primrec run_calls :: "(main_call \<Rightarrow> bool) \<Rightarrow> main_call list \<Rightarrow> main_call list \<times> main_call option" where
  "run_calls ok [] = ([], None)"
| "run_calls ok (c # cs) =
    (if ok c then let (made, r) = run_calls ok cs in (c # made, r) else ([c], Some c))"

text \<open>The wait for the clock: how often it slept, of at most \<open>n\<close> times; \<open>completed i\<close> is the \<open>i\<close>-th status.\<close>

primrec sntp_wait :: "(nat \<Rightarrow> bool) \<Rightarrow> nat \<Rightarrow> nat \<Rightarrow> nat" where
  "sntp_wait completed i 0 = 0"
| "sntp_wait completed i (Suc n) = (if completed i then 0 else Suc (sntp_wait completed (Suc i) n))"

subsection \<open>The start\<close>

record 's board =
  bd_ok :: "main_call \<Rightarrow> bool"
  bd_ssid :: "string \<Rightarrow> string option"
  bd_password :: "string \<Rightarrow> string option"
  bd_ip :: ipv4addr
  bd_sta :: "raw_handle option"
  bd_napt :: "raw_handle \<Rightarrow> int"
  bd_sntp :: "(nat \<Rightarrow> bool) option"
  bd_udp :: "'s udp_ops"
  bd_stun_addrs :: "socket_addr list option"
  bd_random_12 :: bytes

record main_features = boot_features +
  mf_ts :: bool
  mf_subnet_router :: bool
  mf_bench :: bool

record main_config = app_config +
  WIFI_SSID :: string
  WIFI_PASS :: string

datatype main_event =
    Call main_call | Screen "draw_op list" | PowerSaveOff | Napt "int + unit" | SntpWaited nat | SocketSetUp | KeysLoaded

datatype main_result =
    MainError main_call | MainKeysError keys_error | MainIdle | MainWaiting | MainMaps started

definition boot_env_of ::
  "'s board \<Rightarrow> (u16 \<times> (stun_query_error + socket_addr_v4)) option \<Rightarrow> boot_env \<Rightarrow> boot_env" where
  "boot_env_of bd magicsock env = env\<lparr>be_lan_ip := bd_ip bd, be_magicsock := magicsock\<rparr>"

text \<open>The part with the feature \<open>ts\<close>; \<open>evs\<close> is what happened before. The login URLs are drawn inside \<open>boot\<close>.\<close>

definition main_ts ::
  "wg_crypto \<Rightarrow> 'x snow_ops \<Rightarrow> serde \<Rightarrow> 'n nvs_ops \<Rightarrow> (bytes \<Rightarrow> bytes) \<Rightarrow> main_features \<Rightarrow> main_config \<Rightarrow> 's board \<Rightarrow>
     boot_env \<Rightarrow> 'n \<Rightarrow> bytes \<Rightarrow> bytes \<Rightarrow> bytes \<Rightarrow> main_event list \<Rightarrow> (main_event list \<times> 'n \<times> main_result) panics" where
  "main_ts C N S V x25519_pub F cfg bd env nvs r1 r2 r3 evs = do {
     let evs = evs @ (case bd_sntp bd of None \<Rightarrow> [] | Some completed \<Rightarrow> [SntpWaited (sntp_wait completed 0 16)]);
     magicsock \<leftarrow> (if bf_direct F then udp_setup (bd_udp bd) (mf_bench F) (bd_stun_addrs bd) (bd_random_12 bd) else Some None);
     (nvs, res) \<leftarrow> boot C N S V x25519_pub (boot_features.truncate F) (app_config.truncate cfg) (boot_env_of bd magicsock env) nvs r1 r2 r3;
     let evs = evs @ (if bf_direct F then [SocketSetUp] else []) @ [KeysLoaded];
     Some (case res of
        KeysFailed e \<Rightarrow> (evs, nvs, MainKeysError e)
      | NotRegistered None \<Rightarrow> (evs, nvs, MainWaiting)
      | NotRegistered (Some status) \<Rightarrow> (evs @ [Screen (not_registered_ops status)], nvs, MainIdle)
      | Started s \<Rightarrow> (evs, nvs, MainMaps s)) }"

definition main_start ::
  "wg_crypto \<Rightarrow> 'x snow_ops \<Rightarrow> serde \<Rightarrow> 'n nvs_ops \<Rightarrow> (bytes \<Rightarrow> bytes) \<Rightarrow> main_features \<Rightarrow> main_config \<Rightarrow> 's board \<Rightarrow>
     boot_env \<Rightarrow> 'n \<Rightarrow> bytes \<Rightarrow> bytes \<Rightarrow> bytes \<Rightarrow> (main_event list \<times> 'n \<times> main_result) panics" where
  "main_start C N S V x25519_pub F cfg bd env nvs r1 r2 r3 =
    (case run_calls (bd_ok bd) display_calls of
       (made, Some c) \<Rightarrow> Some (map Call made, nvs, MainError c)
     | (made, None) \<Rightarrow>
       (let evs = map Call made @ [Screen (message_ops ''Tailscale-Rust'' [''connecting WiFi...'', WIFI_SSID cfg])];
            ssid = (case bd_ssid bd (WIFI_SSID cfg) of Some s \<Rightarrow> s | None \<Rightarrow> []);
            password = (case bd_password bd (WIFI_PASS cfg) of Some s \<Rightarrow> s | None \<Rightarrow> [])
        in case run_calls (bd_ok bd) (wifi_calls ssid password) of
          (made, Some c) \<Rightarrow> Some (evs @ map Call made, nvs, MainError c)
        | (made, None) \<Rightarrow>
          (let evs = evs @ map Call made @ [PowerSaveOff] @
                 (if mf_subnet_router F then [Napt (enable_napt_on_sta (bd_napt bd) (bd_sta bd))] else [])
           in if mf_ts F then main_ts C N S V x25519_pub F cfg bd env nvs r1 r2 r3 evs
              else Some (evs @ [Screen (message_ops ''Baseline (no TS)''
                       [''WiFi + display only'', show_ipv4 (bd_ip bd), '''', ''''])], nvs, MainIdle))))"

subsection \<open>What a run does\<close>

lemma run_calls_cases:
  obtains "run_calls ok cs = (cs, None)" and "list_all ok cs"
  | pre c post where "cs = pre @ c # post" and "list_all ok pre" and "\<not> ok c" and "run_calls ok cs = (pre @ [c], Some c)"
proof (induction cs arbitrary: thesis)
  case (Cons x cs)
  show ?case
  proof (cases "ok x")
    case False
    then show ?thesis using Cons.prems(2) [of "[]" x cs] by simp
  next
    case True
    show ?thesis
    proof (rule Cons.IH)
      assume "run_calls ok cs = (cs, None)" "list_all ok cs"
      then show ?thesis using True Cons.prems(1) by simp
    next
      fix pre c post
      assume "cs = pre @ c # post" "list_all ok pre" "\<not> ok c" "run_calls ok cs = (pre @ [c], Some c)"
      then show ?thesis using True Cons.prems(2) [of "x # pre" c post] by simp
    qed
  qed
qed simp

lemma sntp_wait_bound: "sntp_wait completed i n \<le> n"
  by (induction n arbitrary: i) auto

primrec event_ok :: "'s board \<Rightarrow> main_event \<Rightarrow> bool" where
  "event_ok bd (Call c) = bd_ok bd c"
| "event_ok bd (Screen ops) = True"
| "event_ok bd PowerSaveOff = True"
| "event_ok bd (Napt r) = True"
| "event_ok bd (SntpWaited n) = (n \<le> 16)"
| "event_ok bd SocketSetUp = True"
| "event_ok bd KeysLoaded = True"

lemma calls_ok: "list_all (event_ok bd) (map Call cs) = list_all (bd_ok bd) cs"
  by (induction cs) auto

lemma calls_no_keys: "KeysLoaded \<notin> set (map Call cs)"
  by auto

text \<open>The part after the radio is up, whatever happened before.\<close>

lemma main_ts_returns:
  fixes bd :: "'s board"
  assumes "\<forall>p. length (X p) = 32" and "length (bd_random_12 bd) = 12" and "list_all (event_ok bd) evs" and "KeysLoaded \<notin> set evs"
  shows "\<exists>more post nvs' res. main_ts C N S V X F cfg bd env nvs r1 r2 r3 evs = Some (evs @ more @ KeysLoaded # post, nvs', res) \<and>
    list_all (event_ok bd) (more @ post) \<and> KeysLoaded \<notin> set more \<and> (\<forall>c. res \<noteq> MainError c)"
proof -
  obtain ms where m: "(if bf_direct F then udp_setup (bd_udp bd) (mf_bench F) (bd_stun_addrs bd) (bd_random_12 bd) else Some None) = Some ms"
    using udp_setup_returns [OF assms(2), of "bd_udp bd" "mf_bench F" "bd_stun_addrs bd"] by (cases "bf_direct F") auto
  obtain nvs' res where b: "boot C N S V X (boot_features.truncate F) (app_config.truncate cfg) (boot_env_of bd ms env) nvs r1 r2 r3 = Some (nvs', res)"
    using boot_returns [OF assms(1), of C N S V "boot_features.truncate F" "app_config.truncate cfg" "boot_env_of bd ms env" nvs r1 r2 r3]
    by (elim exE conjE)
  define more where "more = (case bd_sntp bd of None \<Rightarrow> [] | Some completed \<Rightarrow> [SntpWaited (sntp_wait completed 0 16)]) @
    (if bf_direct F then [SocketSetUp] else [])"
  have more: "list_all (event_ok bd) more" "KeysLoaded \<notin> set more"
    by (auto simp: more_def sntp_wait_bound split: option.splits if_splits)
  define post where "post = (case res of NotRegistered (Some status) \<Rightarrow> [Screen (not_registered_ops status)] | _ \<Rightarrow> [])"
  define out where "out = (case res of KeysFailed e \<Rightarrow> MainKeysError e | NotRegistered None \<Rightarrow> MainWaiting
    | NotRegistered (Some status) \<Rightarrow> MainIdle | Started s \<Rightarrow> MainMaps s)"
  have "main_ts C N S V X F cfg bd env nvs r1 r2 r3 evs = Some (evs @ more @ KeysLoaded # post, nvs', out)"
    using b unfolding main_ts_def Let_def m more_def post_def out_def
    by (simp split: boot_result.split option.split)
  moreover have "list_all (event_ok bd) post" "\<forall>c. out \<noteq> MainError c"
    by (simp_all add: post_def out_def split: boot_result.split option.split)
  ultimately show ?thesis using more by (intro exI [of _ more] exI [of _ post] exI [of _ nvs'] exI [of _ out]) simp
qed

text \<open>
  C35. \<open>main\<close> does things in the order they depend on. Whatever the platform, the storage and the network do, \<open>main\<close> does not
  panic, and either the first call that fails ends it with that error, everything
  before it having succeeded, no key loaded and the storage untouched; or every call has succeeded
  and the wait for the clock took at most 16 sleeps. The keys are loaded, so that random numbers are
  drawn for them, only after the radio was started successfully, and the storage changes only then.
\<close>

theorem main_orderly:
  fixes bd :: "'s board"
  assumes "\<forall>p. length (X p) = 32" and "length (bd_random_12 bd) = 12"
  shows "\<exists>evs nvs' res. main_start C N S V X F cfg bd env nvs r1 r2 r3 = Some (evs, nvs', res) \<and>
    (case res of
       MainError c \<Rightarrow> \<exists>pre. evs = pre @ [Call c] \<and> list_all (event_ok bd) pre \<and> \<not> bd_ok bd c \<and> KeysLoaded \<notin> set evs
     | _ \<Rightarrow> list_all (event_ok bd) evs) \<and>
    (if KeysLoaded \<in> set evs
     then \<exists>pre post. evs = pre @ KeysLoaded # post \<and> KeysLoaded \<notin> set pre \<and> Call StartWifi \<in> set pre \<and> bd_ok bd StartWifi
     else nvs' = nvs)"
proof (cases rule: run_calls_cases [of "bd_ok bd" display_calls])
  case (2 pre c post)
  then show ?thesis by (auto simp: main_start_def calls_ok)
next
  case 1
  define ssid where "ssid = (case bd_ssid bd (WIFI_SSID cfg) of Some s \<Rightarrow> s | None \<Rightarrow> [])"
  define pw where "pw = (case bd_password bd (WIFI_PASS cfg) of Some s \<Rightarrow> s | None \<Rightarrow> [])"
  define sc where "sc = map Call display_calls @ [Screen (message_ops ''Tailscale-Rust'' [''connecting WiFi...'', WIFI_SSID cfg])]"
  have sc: "list_all (event_ok bd) sc" "KeysLoaded \<notin> set sc" using 1(2) by (auto simp: sc_def calls_ok)
  show ?thesis
  proof (cases rule: run_calls_cases [of "bd_ok bd" "wifi_calls ssid pw"])
    case w: (2 pre c post)
    have "main_start C N S V X F cfg bd env nvs r1 r2 r3 = Some ((sc @ map Call pre) @ [Call c], nvs, MainError c)"
      using 1(1) w(4) by (simp add: main_start_def Let_def ssid_def pw_def sc_def)
    moreover have "list_all (event_ok bd) (sc @ map Call pre)" "KeysLoaded \<notin> set (sc @ map Call pre)"
      using sc w(2) by (auto simp: calls_ok)
    ultimately show ?thesis using w(3) by auto
  next
    case w: 1
    define evs where "evs = sc @ map Call (wifi_calls ssid pw) @ [PowerSaveOff] @
      (if mf_subnet_router F then [Napt (enable_napt_on_sta (bd_napt bd) (bd_sta bd))] else [])"
    have evs: "list_all (event_ok bd) evs" "KeysLoaded \<notin> set evs" "Call StartWifi \<in> set evs" "bd_ok bd StartWifi"
      using sc w(2) by (auto simp: evs_def calls_ok wifi_calls_def)
    have m: "main_start C N S V X F cfg bd env nvs r1 r2 r3 =
        (if mf_ts F then main_ts C N S V X F cfg bd env nvs r1 r2 r3 evs
         else Some (evs @ [Screen (message_ops ''Baseline (no TS)'' [''WiFi + display only'', show_ipv4 (bd_ip bd), [], []])], nvs, MainIdle))"
      using 1(1) w(1) by (simp add: main_start_def Let_def ssid_def pw_def sc_def evs_def)
    show ?thesis
    proof (cases "mf_ts F")
      case False
      then show ?thesis using m evs by auto
    next
      case True
      obtain more post nvs' res where t: "main_ts C N S V X F cfg bd env nvs r1 r2 r3 evs = Some (evs @ more @ KeysLoaded # post, nvs', res)"
        "list_all (event_ok bd) (more @ post)" "KeysLoaded \<notin> set more" "\<forall>c. res \<noteq> MainError c"
        using main_ts_returns [OF assms evs(1,2), of C N S V F cfg env nvs r1 r2 r3] by (elim exE conjE)
      have "case res of MainError c \<Rightarrow> P c | _ \<Rightarrow> list_all (event_ok bd) (evs @ more @ KeysLoaded # post)" for P
        using t(2,4) evs(1) by (cases res) auto
      moreover have "\<exists>p q. evs @ more @ KeysLoaded # post = p @ KeysLoaded # q \<and> KeysLoaded \<notin> set p \<and> Call StartWifi \<in> set p \<and> bd_ok bd StartWifi"
        using evs t(3) by (intro exI [of _ "evs @ more"] exI [of _ post]) simp
      ultimately show ?thesis using m True t(1) by auto
    qed
  qed
qed

text \<open>A board whose WiFi does not connect.\<close>

definition toy_board :: "unit board" where
  "toy_board = \<lparr>bd_ok = \<lambda>c. c \<noteq> ConnectWifi, bd_ssid = Some, bd_password = Some, bd_ip = 0xC0A80114, bd_sta = None,
     bd_napt = \<lambda>_. 0, bd_sntp = None,
     bd_udp = \<lparr>uo_bind = \<lambda>_. None, uo_local_port = \<lambda>_. None, uo_set_read_timeout = \<lambda>_ _. None,
        uo_recv_from = \<lambda>s _. (s, None), uo_send_to = \<lambda>s _ _. (s, None)\<rparr>,
     bd_stun_addrs = None, bd_random_12 = replicate 12 7\<rparr>"

definition toy_main_features :: main_features where
  "toy_main_features = boot_features.extend toy_boot_features \<lparr>mf_ts = True, mf_subnet_router = False, mf_bench = False\<rparr>"

definition toy_main_config :: main_config where
  "toy_main_config = app_config.extend toy_app_config \<lparr>WIFI_SSID = ''net'', WIFI_PASS = ''secret''\<rparr>"

theorem main_orderly_witness:
  "\<exists>evs. main_start toy_crypto toy_snow (toy_serde []) toy_nvs (pubkey toy_crypto) toy_main_features toy_main_config toy_board toy_boot_env
      Map.empty [] [] [] = Some (evs @ [Call ConnectWifi], Map.empty, MainError ConnectWifi) \<and>
    list_all (event_ok toy_board) evs \<and> KeysLoaded \<notin> set evs"
proof -
  have "\<forall>p. length (pubkey toy_crypto p) = 32" "length (bd_random_12 toy_board) = 12"
    using wg_crypto_ok_lengths [OF toy_crypto_ok] by (simp_all add: wg_lengths toy_board_def)
  from main_orderly [OF this, of toy_crypto toy_snow "toy_serde []" toy_nvs toy_main_features toy_main_config toy_boot_env Map.empty "[]" "[]" "[]"]
  obtain evs nvs' res where m: "main_start toy_crypto toy_snow (toy_serde []) toy_nvs (pubkey toy_crypto) toy_main_features toy_main_config
      toy_board toy_boot_env Map.empty [] [] [] = Some (evs, nvs', res)"
    "case res of MainError c \<Rightarrow> \<exists>pre. evs = pre @ [Call c] \<and> list_all (event_ok toy_board) pre \<and> \<not> bd_ok toy_board c \<and> KeysLoaded \<notin> set evs
       | _ \<Rightarrow> list_all (event_ok toy_board) evs"
    "if KeysLoaded \<in> set evs then \<exists>pre post. evs = pre @ KeysLoaded # post \<and> KeysLoaded \<notin> set pre \<and> Call StartWifi \<in> set pre \<and> bd_ok toy_board StartWifi
       else nvs' = Map.empty"
    by (elim exE conjE)
  have "res = MainError ConnectWifi"
    using m(1) by (simp add: main_start_def display_calls_def wifi_calls_def toy_board_def Let_def)
  with m show ?thesis by auto
qed

end
