(* ===== verification/Spec2Isabelle.thy ===== *)
theory Spec2Isabelle
  imports Keys Dual_Core Retries Port_Spray Derp Bench Main_Start
begin

text \<open>
  \<^bold>\<open>A Tailscale node for microcontrollers.\<close> The repository is a pure-Rust Tailscale client for an
  ESP32-S3 dongle: a portable crate (\<^verbatim>\<open>core/src\<close>) with the protocols, and the firmware (\<^verbatim>\<open>src\<close>) that
  runs them on sockets and threads. This development models the protocols and the firmware's
  own logic, and proves what a node relies on.

  \<^bold>\<open>The program.\<close> At start-up (\<^verbatim>\<open>main.rs\<close>) the node brings up its display and the WiFi, loads or makes its keys, learns its public
  endpoint by STUN, fetches the control server's key, registers over a Noise-encrypted HTTP/2
  session (polling until it is authorized), and fetches the network map once. From the map it
  takes the peers, a packet filter and its own address. It then runs a UDP data plane
  (disco probes, WireGuard handshakes, tunnels, the services behind them: echo, a page server, a
  proxy into the LAN, an HTTP client, mDNS forwarding), a DERP relay responder for peers that
  cannot reach it directly, an mDNS reflector, and a map stream that keeps it online.

  \<^bold>\<open>Conventions.\<close> A Rust function that may panic has the type \<open>'a panics\<close>, an option whose \<open>None\<close> is
  the panic; errors are values of a sum; structs are records, enums datatypes, integers words
  of their width. State is passed and returned. Randomness, time and what the network delivers
  are arguments: a byte stream is the list of its reads, so that a theorem over all such lists
  holds however TCP or TLS cuts and delays the bytes, with the number of writes it takes before it breaks. Cargo features are booleans. Cryptographic
  crates (\<open>wg_crypto\<close>, \<open>box_crypto\<close>), the Noise handshake of \<open>snow\<close>, \<open>serde_json\<close>, NVS, the HTTPS client,
  and the calls of esp-idf and of the operating system's sockets are parameters, with what the code relies on (an opened box returns what was sealed,
  Diffie-Hellman commutes, output lengths) as named hypotheses that toy instances show to be
  satisfiable.

  \<^bold>\<open>Theories.\<close>
  \<^item> \<open>Rust_Prelude\<close>, \<open>Rust_Text\<close>, \<open>Socket_Text\<close>: slices, byte order, checked indexing, text, numbers and
    socket addresses as the standard library reads and prints them; the shared lemmas and
    collections; the locale \<open>chunk_codec\<close> of lists of fixed-width items, interpreted for the
    endpoints of disco messages.
  \<^item> \<open>Byte_Stream\<close>: the locale \<open>byte_reader\<close> of an exact reader over a cut stream, with the lemma on
    length-prefixed frames. It is interpreted for the control connection (\<open>Transport\<close>), for the
    TLS session of the relay (\<open>Derp_Stream\<close>) and for the decrypted HTTP/2 session (\<open>Http2_Client\<close>).
  \<^item> \<open>Checksum\<close>, \<open>Ipv4\<close>, \<open>Tcp_Segment\<close>: Internet checksums and the packets the node builds. The locale
    \<open>internet_checksum\<close> is interpreted for each of the program's checksum routines. The locale
    \<open>inner_handler\<close> is the contract of a state machine that answers packets; it is interpreted for
    the page server, the proxy, the HTTP client, the data plane and the relay.
  \<^item> \<open>Icmp\<close> (\<^verbatim>\<open>core/src/icmp.rs\<close>), \<open>Tcp_Server\<close> (\<^verbatim>\<open>tcp.rs\<close>), \<open>Proxy\<close> (\<^verbatim>\<open>src/proxy.rs\<close>), \<open>Outbound\<close>
    (\<^verbatim>\<open>outbound.rs\<close>), \<open>Http_Session\<close>: the services, and the HTTP client against each server.
  \<^item> \<open>Wg\<close> (\<^verbatim>\<open>wg.rs\<close>), \<open>Disco\<close> (\<^verbatim>\<open>disco.rs\<close>), \<open>Stun\<close> (\<^verbatim>\<open>stun.rs\<close>): the UDP protocols.
  \<^item> \<open>Keys\<close> (\<^verbatim>\<open>src/keys.rs\<close>), \<open>Peers\<close> (\<^verbatim>\<open>peers.rs\<close>), \<open>Node\<close> (\<^verbatim>\<open>node.rs\<close>): identity, map and filter.
  \<^item> \<open>Dataplane\<close>, \<open>Dataplane_Periodic\<close>, \<open>Dataplane_System\<close>, \<open>Dataplane_Views\<close>, \<open>Dual_Core\<close>, \<open>Rendezvous\<close>,
    \<open>Retries\<close>, \<open>Port_Spray\<close> (\<^verbatim>\<open>src/dataplane.rs\<close>): packet handlers, periodic work, the loop as a system of
    events, what handlers leave unchanged, the two-thread build, two nodes meeting, handshake
    slots, and the port sweep.
  \<^item> \<open>Derp_Stream\<close>, \<open>Derp\<close> (\<^verbatim>\<open>src/derp.rs\<close>), \<open>Mdns\<close> (\<^verbatim>\<open>src/mdns.rs\<close>): the relay client and the reflector.
  \<^item> \<open>Transport\<close> (\<^verbatim>\<open>transport.rs\<close>), \<open>Noise\<close> (\<^verbatim>\<open>noise.rs\<close>), \<open>Http2\<close> (\<^verbatim>\<open>h2.rs\<close>), \<open>Http2_Client\<close>, \<open>Control\<close>
    (\<^verbatim>\<open>src/control/mod.rs\<close>), \<open>Control_Session\<close>: the control connection layer by layer, and what a whole
    session does against a server that follows the protocol.
  \<^item> \<open>Startup\<close> (\<^verbatim>\<open>src/main.rs\<close>, \<^verbatim>\<open>src/magicsock.rs\<close>), \<open>Startup_Properties\<close>: from boot to running threads.
  \<^item> \<open>Firmware\<close>: the start-up followed by the threads it starts (the head of \<open>dataplane::run\<close> and the
    endpoint thread are modelled here). \<open>Platform\<close>: the resources taken from the platform, that is TLS
    handles (\<^verbatim>\<open>src/derp.rs\<close>), sockets (\<^verbatim>\<open>src/magicsock.rs\<close>, \<^verbatim>\<open>src/control/mod.rs\<close>, \<^verbatim>\<open>src/mdns.rs\<close>) and
    address translation (\<^verbatim>\<open>src/router.rs\<close>). \<open>Display\<close>: the screens. \<open>Main_Start\<close>: \<open>main\<close> from its first call.
  \<^item> \<open>Tunnel_Traffic\<close>, \<open>Mdns_Bridge\<close>: two nodes with a tunnel between them. The locale \<open>tunnel_service\<close> is
    the contract of a service behind a tunnel: what it does with an inner packet is what the data
    plane does with the sealed one. It is interpreted for the page server, for the HTTP client and
    for the reflector's queue. \<open>Bench\<close>: the build that counts a load generator's packets.

  \<^bold>\<open>What is shown.\<close> Each property is stated in full before its theorem.
  \<^item> \<^emph>\<open>The data plane.\<close> No sequence of packets and housekeepings makes it panic, exceed its handshake
    table or send something malformed (\<open>dataplane_survives\<close>); two nodes that know each other's disco
    keys end with matching tunnels (\<open>nodes_establish_tunnel\<close>); every run of the two-thread build is the
    single-threaded run on the events its sections spell, loses no packet and never gets stuck
    (\<open>dualcore_refines_single\<close>); packets the filter denies reach no service; a
    packet that proves no key changes nothing but the handshake it names; slots are freed.
  \<^item> \<^emph>\<open>Two nodes.\<close> The device pings a peer and fetches its page through the tunnel, through both data planes,
    the ping is answered and the exchange ends by itself (\<open>page_fetched_over_tunnel\<close>); mDNS captured on one LAN appears unchanged
    on the other and is not sent back (\<open>mdns_bridged\<close>), for payloads of at most 1428 bytes and no
    longer ones (\<open>mdns_payload_limit\<close>).
  \<^item> \<^emph>\<open>The relay.\<close> A peer handshakes and is served through the relay; what a frame causes goes to its
    sender only; the responder returns for every connection; frames are read back.
  \<^item> \<^emph>\<open>Control.\<close> Requests are answered by what the server put on the stream, whatever is
    interleaved and however it is cut (the status as far as the client reads header fields: a
    reference reading of the blocks says which ones it overlooks), and decrypt at the server to
    exactly the request, decoded by a reference HPACK decoder; the peers kept are described by their
    entries in the map; the node registers with its own keys; the
    filter it compiles from the map decides as a reference reading of the rules; the address of the map stream.
  \<^item> \<^emph>\<open>The whole firmware.\<close> Start-up never panics and neither does any thread it starts
    (\<open>firmware_survives\<close>); against servers that follow their protocols the node boots, and the rules of
    the map decide what its data plane serves (\<open>booted_node_enforces_map\<close>); when the one map request
    fails, data plane and relay run without a filter (\<open>filter_follows_map\<close>). The first platform call
    that fails ends \<open>main\<close>, and keys are drawn only with the radio on (\<open>main_orderly\<close>); the relay thread
    gives back every TLS handle (\<open>tls_handles_released\<close>); the login URL is shown completely
    (\<open>auth_url_readable\<close>).
  \<^item> \<^emph>\<open>Protocols.\<close> WireGuard handshake agreement, transport round trip, the nonce of every packet and
    that it is used once, and the exact acceptance conditions (a replayed initiation is accepted:
    the timestamp is not compared); disco and STUN round trips with the messages that are refused
    and the attribute that wins; keys as text and over restarts, failing storage included.
  \<^item> \<^emph>\<open>Services.\<close> Echo replies with verifying checksums, isolation of the page server's
    connections, complete delivery of pages and proxied responses, prefix safety of the HTTP client
    under loss and reordering, no mDNS echo, the port sweep covers every unprivileged port.

  \<^bold>\<open>Termination and bounds.\<close> Loops over slices are structural. Readers and the loops that wait for
  frames terminate because each step consumes input (the measures are in their \<open>termination\<close> proofs);
  none uses fuel. Loops that run for ever (the data-plane loop, the relay's reconnect loop, the
  registration and map-stream loops) are functions of the finite list of what they have met so far,
  and are shown to return for every such list. Arithmetic is that of the width in the source; the
  few places where an overflow would panic in a debug build are noted where they are modelled.

  \<^bold>\<open>Not modelled.\<close> Log output, and the floating-point rates of the \<open>bench\<close> build; threads and
  mutexes themselves (creating a thread is taken to succeed; what happens between two locked
  sections of the dual-core build is any interleaving); what the calls of esp-idf, of the display
  crates and of the sockets do, beyond their results; the text of JSON; the
  traits of \<^verbatim>\<open>platform.rs\<close>, which have no code, and the build script. Hash maps are association lists whose order may change
  between any two events. \<open>String::from_utf8_lossy\<close> is left out where its result is only shown.
\<close>

end
